(* ===== verification/Prelude.thy ===== *)
theory Prelude
  imports "HOL-Library.Word" "HOL-Library.AList"
begin

text \<open>
  Shared vocabulary of the development: the fixed-width integers and byte strings of Go, the
  big-endian integer layout of \<^verbatim>\<open>encoding/binary\<close>, results with errors, and Go maps.
  Go strings are immutable byte sequences, so they are \<^typ>\<open>string\<close> (a HOL \<^typ>\<open>char\<close> is one
  byte), and \<^verbatim>\<open>[]byte(s)\<close> and \<^verbatim>\<open>string(b)\<close> are the two conversions below.
\<close>

unbundle bit_operations_syntax

named_theorems codec \<open>reading back what a writer produced\<close>
named_theorems gomap \<open>lookups in updated Go maps\<close>

type_synonym u8 = "8 word"
type_synonym u16 = "16 word"
type_synonym u32 = "32 word"
type_synonym u64 = "64 word"
type_synonym bytes = "u8 list"

section \<open>Strings and byte slices\<close>

definition bytes_of :: "string \<Rightarrow> bytes" where
  "bytes_of s = map of_char s"

definition string_of :: "bytes \<Rightarrow> string" where
  "string_of b = map (\<lambda>w. char_of (unat w)) b"

lemma unat_of_char_u8 [simp]: "unat (of_char c :: u8) = of_char c"
proof -
  have "(of_char c :: u8) = of_nat (of_char c)"
    by (simp add: of_nat_of_char)
  then show ?thesis
    by (simp add: unat_of_nat take_bit_eq_mod nat_of_char_less_256)
qed

lemma of_char_char_of_u8 [simp]: "of_char (char_of (unat w) :: char) = (w :: u8)"
  by (rule word_unat_eq_iff [THEN iffD2]) (use unsigned_less [where ?'a = nat, of w] in \<open>simp add: of_char_of\<close>)

lemma string_of_bytes_of [simp, codec]: "string_of (bytes_of s) = s"
  by (simp add: string_of_def bytes_of_def comp_def)

lemma bytes_of_string_of [simp, codec]: "bytes_of (string_of b) = b"
  by (simp add: string_of_def bytes_of_def comp_def)

lemma length_bytes_of [simp]: "length (bytes_of s) = length s"
  by (simp add: bytes_of_def)

lemma length_string_of [simp]: "length (string_of b) = length b"
  by (simp add: string_of_def)

lemma bytes_of_inject [simp]: "bytes_of s = bytes_of t \<longleftrightarrow> s = t"
  by (metis string_of_bytes_of)

section \<open>Big-endian integers\<close>

text \<open>
  \<^verbatim>\<open>binary.BigEndian.PutUintN\<close> writes the most significant byte first;
  \<^verbatim>\<open>binary.BigEndian.UintN\<close> shifts the bytes back together.
\<close>

primrec put_be :: "nat \<Rightarrow> 'a::len word \<Rightarrow> bytes" where
  "put_be 0 w = []"
| "put_be (Suc n) w = ucast (drop_bit (8 * n) w) # put_be n w"

definition get_be :: "bytes \<Rightarrow> 'a::len word" where
  "get_be bs = foldl (\<lambda>acc b. push_bit 8 acc OR ucast b) 0 bs"

lemma length_put_be [simp]: "length (put_be n w) = n"
  by (induction n) auto

lemma foldl_put_be:
  "foldl (\<lambda>acc b. push_bit 8 acc OR ucast b) acc (put_be n w)
     = push_bit (8 * n) acc OR take_bit (8 * n) (w :: 'a::len word)"
proof (induction n arbitrary: acc)
  case (Suc n)
  have "push_bit (8 * n) (push_bit 8 acc OR ucast (ucast (drop_bit (8 * n) w) :: u8)) OR take_bit (8 * n) w
      = push_bit (8 * Suc n) acc OR take_bit (8 * Suc n) w"
    by (rule bit_word_eqI) (auto simp: bit_simps add.commute)
  then show ?case by (simp add: Suc)
qed simp

lemma get_be_put_be [codec]:
  "LENGTH('a) \<le> 8 * n \<Longrightarrow> get_be (put_be n w) = (w :: 'a::len word)"
  by (simp add: get_be_def foldl_put_be take_bit_word_eq_self)

text \<open>The other direction: a full-width integer determines the bytes it was read from.\<close>

lemma bit_foldl_be_high:
  fixes bs :: bytes
  shows "8 * length bs \<le> i \<Longrightarrow>
   bit (foldl (\<lambda>acc b. push_bit 8 acc OR ucast b) acc bs :: 'a::len word) i \<longleftrightarrow>
     i < LENGTH('a) \<and> bit acc (i - 8 * length bs)"
proof (induction bs arbitrary: i rule: rev_induct)
  case Nil
  then show ?case by (auto dest: bit_imp_le_length)
next
  case (snoc b bs)
  then have "\<not> bit b i" using bit_imp_le_length [of b i] by auto
  with snoc.prems snoc.IH [of "i - 8"] show ?case
    by (auto simp: bit_simps diff_commute algebra_simps)
qed

lemma put_be_foldl:
  fixes bs :: bytes
  shows "8 * length bs \<le> LENGTH('a) \<Longrightarrow>
   put_be (length bs) (foldl (\<lambda>acc b. push_bit 8 acc OR ucast b) acc bs :: 'a::len word) = bs"
proof (induction bs arbitrary: acc)
  case (Cons b bs)
  let ?w = "foldl (\<lambda>acc b. push_bit 8 acc OR ucast b) (push_bit 8 acc OR ucast b) bs :: 'a word"
  have "ucast (drop_bit (8 * length bs) ?w) = b"
    by (rule bit_word_eqI) (use Cons.prems in \<open>auto simp: bit_simps bit_foldl_be_high\<close>)
  with Cons show ?case by simp
qed simp

lemma put_be_get_be [codec]:
  "8 * length bs \<le> LENGTH('a) \<Longrightarrow> put_be (length bs) (get_be bs :: 'a::len word) = bs"
  by (simp add: get_be_def put_be_foldl)

lemma put_be_inject:
  "LENGTH('a) \<le> 8 * n \<Longrightarrow> put_be n w = put_be n w' \<longleftrightarrow> w = (w' :: 'a::len word)"
  by (metis get_be_put_be)

text \<open>Length fields: a length that fits the field survives the trip through it.\<close>

lemma unat_of_nat_u16 [simp]: "n < 65536 \<Longrightarrow> unat (of_nat n :: u16) = n"
  by (simp add: unat_of_nat take_bit_eq_mod)

lemma unat_of_nat_u32 [simp]: "n < 4294967296 \<Longrightarrow> unat (of_nat n :: u32) = n"
  by (simp add: unat_of_nat take_bit_eq_mod)

lemma unat_of_nat_u8 [simp]: "n < 256 \<Longrightarrow> unat (of_nat n :: u8) = n"
  by (simp add: unat_of_nat take_bit_eq_mod)

lemma unat_u8_less: "unat (w :: u8) < 256"
  using unsigned_less [where ?'a = nat, of w] by simp

lemma unat_u16_less: "unat (w :: u16) < 65536"
  using unsigned_less [where ?'a = nat, of w] by simp

lemma unat_u32_less: "unat (w :: u32) < 4294967296"
  using unsigned_less [where ?'a = nat, of w] by simp

lemma unat_u16_not_greater [simp]: "\<not> 65535 < unat (w :: u16)"
  using unat_u16_less [of w] by simp

lemma unat_u8_not_greater [simp]: "\<not> 255 < unat (w :: u8)"
  using unat_u8_less [of w] by simp

section \<open>Results with errors\<close>

text \<open>
  A Go function returning \<^verbatim>\<open>(v, err)\<close> is a sum: \<^const>\<open>Inl\<close> for the error, \<^const>\<open>Inr\<close> for
  the value. \<open>and_then\<close> is the early return \<^verbatim>\<open>if err != nil { return err }\<close>, and \<open>map_err\<close>
  the wrapping \<^verbatim>\<open>fmt.Errorf("...: %w", err)\<close>.
\<close>

definition and_then :: "'e + 'a \<Rightarrow> ('a \<Rightarrow> 'e + 'b) \<Rightarrow> 'e + 'b" where
  "and_then r f = (case r of Inl e \<Rightarrow> Inl e | Inr x \<Rightarrow> f x)"

definition map_err :: "('e \<Rightarrow> 'f) \<Rightarrow> 'e + 'a \<Rightarrow> 'f + 'a" where
  "map_err f r = (case r of Inl e \<Rightarrow> Inl (f e) | Inr x \<Rightarrow> Inr x)"

lemma and_then_simps [simp]:
  "and_then (Inl e) f = Inl e"
  "and_then (Inr x) f = f x"
  by (simp_all add: and_then_def)

lemma map_err_simps [simp]:
  "map_err f (Inl e) = Inl (f e)"
  "map_err f (Inr x) = Inr x"
  by (simp_all add: map_err_def)

lemma and_then_eq_Inr:
  "and_then r f = Inr y \<longleftrightarrow> (\<exists>x. r = Inr x \<and> f x = Inr y)"
  by (cases r) auto

lemma and_then_eq_Inl:
  "and_then r f = Inl e \<longleftrightarrow> r = Inl e \<or> (\<exists>x. r = Inr x \<and> f x = Inl e)"
  by (cases r) auto

lemma map_err_eq_Inr [simp]: "map_err f r = Inr y \<longleftrightarrow> r = Inr y"
  by (cases r) auto

lemma map_err_eq_Inl: "map_err f r = Inl e \<longleftrightarrow> (\<exists>e'. r = Inl e' \<and> e = f e')"
  by (cases r) auto

lemma and_then_cong [fundef_cong]:
  "r = r' \<Longrightarrow> (\<And>x. r' = Inr x \<Longrightarrow> f x = f' x) \<Longrightarrow> and_then r f = and_then r' f'"
  by (cases r') auto

section \<open>Go maps\<close>

text \<open>
  A Go map is an association list with distinct keys; the list order stands for one iteration
  order of \<^verbatim>\<open>range\<close>, which Go leaves open. The interface the components use is stated as a
  locale: what a lookup returns after \<^verbatim>\<open>m[k] = v\<close> and after \<^verbatim>\<open>delete(m, k)\<close>, and that \<^verbatim>\<open>range\<close>
  visits every key once.
\<close>

type_synonym ('k, 'v) gomap = "('k \<times> 'v) list"

locale go_map =
  fixes empty :: "'m"
    and lookup :: "'m \<Rightarrow> 'k \<Rightarrow> 'v option"
    and store :: "'k \<Rightarrow> 'v \<Rightarrow> 'm \<Rightarrow> 'm"
    and remove :: "'k \<Rightarrow> 'm \<Rightarrow> 'm"
    and keys :: "'m \<Rightarrow> 'k list"
    and invar :: "'m \<Rightarrow> bool"
  assumes lookup_empty: "lookup empty k = None"
    and lookup_store: "invar m \<Longrightarrow> lookup (store k v m) = (lookup m)(k \<mapsto> v)"
    and lookup_remove: "invar m \<Longrightarrow> lookup (remove k m) = (lookup m)(k := None)"
    and keys_dom: "invar m \<Longrightarrow> set (keys m) = dom (lookup m)"
    and keys_distinct: "invar m \<Longrightarrow> distinct (keys m)"
    and invar_empty: "invar empty"
    and invar_store: "invar m \<Longrightarrow> invar (store k v m)"
    and invar_remove: "invar m \<Longrightarrow> invar (remove k m)"
begin

lemma len_keys: "invar m \<Longrightarrow> length (keys m) = card (dom (lookup m))"
  by (metis distinct_card keys_distinct keys_dom)

lemma finite_dom: "invar m \<Longrightarrow> finite (dom (lookup m))"
  by (metis List.finite_set keys_dom)

lemma len_store_fresh:
  "invar m \<Longrightarrow> lookup m k = None \<Longrightarrow> length (keys (store k v m)) = Suc (length (keys m))"
  by (simp add: len_keys invar_store lookup_store finite_dom card_insert_if domIff)

lemma len_store_present:
  "invar m \<Longrightarrow> lookup m k = Some w \<Longrightarrow> length (keys (store k v m)) = length (keys m)"
  by (simp add: len_keys invar_store lookup_store finite_dom card_insert_if domI)

lemma len_remove_present:
  "invar m \<Longrightarrow> lookup m k = Some w \<Longrightarrow> Suc (length (keys (remove k m))) = length (keys m)"
proof -
  assume m: "invar m" and k: "lookup m k = Some w"
  have "card (dom (lookup m)) = Suc (card (dom (lookup m) - {k}))"
    by (rule card.remove) (use m k in \<open>auto simp: finite_dom\<close>)
  with m show ?thesis by (simp add: len_keys invar_remove lookup_remove)
qed

lemma invar_remove_all: "invar m \<Longrightarrow> invar (fold remove ks m)"
  by (induction ks arbitrary: m) (auto simp: invar_remove)

lemma lookup_remove_all:
  "invar m \<Longrightarrow> lookup (fold remove ks m) k = (if k \<in> set ks then None else lookup m k)"
  by (induction ks arbitrary: m) (auto simp: invar_remove lookup_remove)

end

interpretation gm: go_map "[]" map_of AList.update AList.delete "map fst" "\<lambda>m. distinct (map fst m)"
  by unfold_locales
    (auto simp: update_conv' delete_conv' dom_map_of_conv_image_fst
      intro: distinct_update distinct_delete)

lemmas gomap_simps [gomap] =
  gm.lookup_store gm.lookup_remove gm.invar_store gm.invar_remove

lemma update_fresh_append: "k \<notin> fst ` set m \<Longrightarrow> AList.update k v m = m @ [(k, v)]"
  by (induction m) auto

lemma set_update_subset: "set (AList.update k v m) \<subseteq> insert (k, v) (set m)"
  by (induction m) auto

lemma set_delete_subset: "set (AList.delete k m) \<subseteq> set m"
  by (auto simp: AList.delete_eq)

lemma length_update_le: "length (AList.update k v m) \<le> Suc (length m)"
  by (induction m) auto

end
