(* ===== verification/GoStrings.thy ===== *)
theory GoStrings
  imports Prelude
begin

text \<open>
  The parts of Go's \<^verbatim>\<open>strings\<close>, \<^verbatim>\<open>strconv\<close> and \<^verbatim>\<open>fmt\<close> packages the program calls, on byte strings:
  splitting and trimming, ASCII case folding as \<^verbatim>\<open>strings.EqualFold\<close> does it, decimal and
  hexadecimal printing, and \<^verbatim>\<open>strconv.Atoi\<close> with its two errors.
\<close>

section \<open>Splitting and cutting\<close>

definition nl :: string where "nl = [CHR 0x0A]"

text \<open>\<^verbatim>\<open>strings.Split(s, sep)\<close> for a one-byte separator: never empty, \<^verbatim>\<open>""\<close> gives one piece.\<close>

fun split_on :: "char \<Rightarrow> string \<Rightarrow> string list" where
  "split_on c [] = [[]]"
| "split_on c (x # xs) =
     (if x = c then [] # split_on c xs
      else (x # hd (split_on c xs)) # tl (split_on c xs))"

text \<open>\<^verbatim>\<open>strings.Cut(s, sep)\<close>: before, after, and whether the separator was found.\<close>

fun cut_at :: "char \<Rightarrow> string \<Rightarrow> string \<times> string \<times> bool" where
  "cut_at c [] = ([], [], False)"
| "cut_at c (x # xs) =
     (if x = c then ([], xs, True)
      else (let (b, a, ok) = cut_at c xs in (x # b, a, ok)))"

text \<open>\<^verbatim>\<open>if idx := strings.IndexByte(s, c); idx != -1 { s = s[:idx] }\<close>\<close>

definition before :: "char \<Rightarrow> string \<Rightarrow> string" where
  "before c s = takeWhile (\<lambda>x. x \<noteq> c) s"

definition hasSuffix :: "string \<Rightarrow> string \<Rightarrow> bool" where
  "hasSuffix s suf \<longleftrightarrow> length suf \<le> length s \<and> drop (length s - length suf) s = suf"

definition trimSuffix :: "string \<Rightarrow> string \<Rightarrow> string" where
  "trimSuffix s suf = (if hasSuffix s suf then take (length s - length suf) s else s)"

definition hasPrefix :: "string \<Rightarrow> string \<Rightarrow> bool" where
  "hasPrefix s pre \<longleftrightarrow> take (length pre) s = pre"

definition trimPrefix :: "string \<Rightarrow> string \<Rightarrow> string" where
  "trimPrefix s pre = (if hasPrefix s pre then drop (length pre) s else s)"

lemma split_on_nonempty [simp]: "split_on c s \<noteq> []"
  by (cases s) auto

lemma split_on_no_sep: "p \<in> set (split_on c s) \<Longrightarrow> c \<notin> set p"
proof (induction s arbitrary: p)
  case (Cons x xs)
  have "split_on c xs = hd (split_on c xs) # tl (split_on c xs)" by simp
  then have "hd (split_on c xs) \<in> set (split_on c xs)" "set (tl (split_on c xs)) \<subseteq> set (split_on c xs)"
    by (auto simp: list.set_sel)
  with Cons show ?case by (auto split: if_splits)
qed simp

lemma split_on_single: "c \<notin> set s \<Longrightarrow> split_on c s = [s]"
  by (induction s) auto

lemma split_on_append: "c \<notin> set s \<Longrightarrow> split_on c (s @ c # t) = s # split_on c t"
  by (induction s) auto

lemma cut_at_found: "c \<notin> set b \<Longrightarrow> cut_at c (b @ c # a) = (b, a, True)"
  by (induction b) auto

lemma cut_at_missing: "c \<notin> set s \<Longrightarrow> cut_at c s = (s, [], False)"
  by (induction s) auto

lemma before_append_sep [simp]: "c \<notin> set s \<Longrightarrow> before c (s @ t) = s @ before c t"
  by (induction s) (auto simp: before_def)

lemma before_Cons [simp]: "x \<noteq> c \<Longrightarrow> before c (x # t) = x # before c t"
  by (simp add: before_def)

lemma before_no_sep [simp]: "c \<notin> set (before c s)"
  by (auto simp: before_def dest: set_takeWhileD)

lemma before_idem [simp]: "c \<notin> set s \<Longrightarrow> before c s = s"
  by (simp add: before_def takeWhile_eq_all_conv) metis

lemma hasSuffix_append [simp]: "hasSuffix (s @ t) t"
  by (simp add: hasSuffix_def)

lemma trimSuffix_append [simp]: "trimSuffix (s @ t) t = s"
  by (simp add: trimSuffix_def)

lemma hasSuffixD: "hasSuffix s t \<Longrightarrow> s = trimSuffix s t @ t"
  unfolding trimSuffix_def hasSuffix_def by (metis append_take_drop_id)

section \<open>White space\<close>

text \<open>
  \<^verbatim>\<open>unicode.IsSpace\<close>, spelt as the UTF-8 sequences of its code points. A lead byte of such a
  sequence never occurs inside another valid rune, so matching bytes is matching runes.
\<close>

definition go_spaces :: "string list" where
  "go_spaces =
     [[CHR 0x20], [CHR 0x09], [CHR 0x0A], [CHR 0x0B], [CHR 0x0C], [CHR 0x0D],
      [CHR 0xC2, CHR 0x85], [CHR 0xC2, CHR 0xA0], [CHR 0xE1, CHR 0x9A, CHR 0x80],
      [CHR 0xE2, CHR 0x80, CHR 0x80], [CHR 0xE2, CHR 0x80, CHR 0x81],
      [CHR 0xE2, CHR 0x80, CHR 0x82], [CHR 0xE2, CHR 0x80, CHR 0x83],
      [CHR 0xE2, CHR 0x80, CHR 0x84], [CHR 0xE2, CHR 0x80, CHR 0x85],
      [CHR 0xE2, CHR 0x80, CHR 0x86], [CHR 0xE2, CHR 0x80, CHR 0x87],
      [CHR 0xE2, CHR 0x80, CHR 0x88], [CHR 0xE2, CHR 0x80, CHR 0x89],
      [CHR 0xE2, CHR 0x80, CHR 0x8A], [CHR 0xE2, CHR 0x80, CHR 0xA8],
      [CHR 0xE2, CHR 0x80, CHR 0xA9], [CHR 0xE2, CHR 0x80, CHR 0xAF],
      [CHR 0xE2, CHR 0x81, CHR 0x9F], [CHR 0xE3, CHR 0x80, CHR 0x80]]"

definition space_at_front :: "string \<Rightarrow> nat" where
  "space_at_front s = (case find (hasPrefix s) go_spaces of None \<Rightarrow> 0 | Some p \<Rightarrow> length p)"

definition space_at_end :: "string \<Rightarrow> nat" where
  "space_at_end s = (case find (hasSuffix s) go_spaces of None \<Rightarrow> 0 | Some p \<Rightarrow> length p)"

lemma go_spaces_nonempty: "p \<in> set go_spaces \<Longrightarrow> p \<noteq> []"
  by (auto simp: go_spaces_def)

lemma find_in_set: "find P xs = Some x \<Longrightarrow> x \<in> set xs \<and> P x"
  by (auto simp: find_Some_iff)

lemma space_at_frontE:
  assumes "0 < space_at_front s"
  obtains p where "p \<in> set go_spaces" "hasPrefix s p"
  using assms by (auto simp: space_at_front_def dest: find_in_set split: option.splits)

lemma space_at_endE:
  assumes "0 < space_at_end s"
  obtains p where "p \<in> set go_spaces" "hasSuffix s p"
  using assms by (auto simp: space_at_end_def dest: find_in_set split: option.splits)

lemma space_at_front_pos: "0 < space_at_front s \<Longrightarrow> 0 < length s"
  by (erule space_at_frontE) (auto simp: hasPrefix_def dest: go_spaces_nonempty)

lemma space_at_end_pos: "0 < space_at_end s \<Longrightarrow> 0 < length s"
  by (erule space_at_endE) (auto simp: hasSuffix_def dest: go_spaces_nonempty)

function trim_left :: "string \<Rightarrow> string" where
  "trim_left s = (if space_at_front s = 0 then s else trim_left (drop (space_at_front s) s))"
  by pat_completeness auto
termination
  by (relation "measure length") (auto intro: diff_less dest: space_at_front_pos)

function trim_right :: "string \<Rightarrow> string" where
  "trim_right s = (if space_at_end s = 0 then s else trim_right (take (length s - space_at_end s) s))"
  by pat_completeness auto
termination
  by (relation "measure length") (auto intro: diff_less dest: space_at_end_pos)

declare trim_left.simps [simp del] trim_right.simps [simp del]

definition trimSpace :: "string \<Rightarrow> string" where
  "trimSpace s = trim_right (trim_left s)"

definition printable :: "char \<Rightarrow> bool" where
  "printable c \<longleftrightarrow> (of_char c :: nat) \<in> {33..126}"

text \<open>A string of printable ASCII characters has nothing to trim.\<close>

lemma go_spaces_not_printable:
  "p \<in> set go_spaces \<Longrightarrow> \<not> printable (hd p) \<and> \<not> printable (last p)"
  by (auto simp: go_spaces_def printable_def)

lemma space_at_front_printable: "\<forall>c \<in> set s. printable c \<Longrightarrow> space_at_front s = 0"
proof (rule ccontr)
  assume s: "\<forall>c \<in> set s. printable c" and "space_at_front s \<noteq> 0"
  then obtain p where p: "p \<in> set go_spaces" "hasPrefix s p"
    by (metis gr0I space_at_frontE)
  have "hd p \<in> set p" using go_spaces_nonempty [OF p(1)] by simp
  then have "hd p \<in> set s" using p(2) by (metis hasPrefix_def in_set_takeD)
  with s p(1) show False by (auto dest: go_spaces_not_printable)
qed

lemma space_at_end_printable: "\<forall>c \<in> set s. printable c \<Longrightarrow> space_at_end s = 0"
proof (rule ccontr)
  assume s: "\<forall>c \<in> set s. printable c" and "space_at_end s \<noteq> 0"
  then obtain p where p: "p \<in> set go_spaces" "hasSuffix s p"
    by (metis gr0I space_at_endE)
  have "last p \<in> set p" using go_spaces_nonempty [OF p(1)] by simp
  then have "last p \<in> set s" using p(2) by (metis hasSuffix_def in_set_dropD)
  with s p(1) show False by (auto dest: go_spaces_not_printable)
qed

lemma trimSpace_printable: "\<forall>c \<in> set s. printable c \<Longrightarrow> trimSpace s = s"
  by (simp add: trimSpace_def trim_left.simps trim_right.simps
      space_at_front_printable space_at_end_printable)

section \<open>Case folding\<close>

text \<open>
  \<^verbatim>\<open>strings.EqualFold(s, t)\<close> where \<open>t\<close> is an ASCII literal, as in every call of the program.
  Only two non-ASCII runes fold to an ASCII letter: U+017F (to \<open>s\<close>) and U+212A (to \<open>k\<close>).
\<close>

definition lower :: "char \<Rightarrow> char" where
  "lower c = (let n = (of_char c :: nat) in if 65 \<le> n \<and> n \<le> 90 then char_of (n + 32) else c)"

fun fold_case :: "string \<Rightarrow> string" where
  "fold_case [] = []"
| "fold_case (c # cs) =
     (if c = CHR 0xC5 \<and> take 1 cs = [CHR 0xBF] then CHR ''s'' # fold_case (drop 1 cs)
      else if c = CHR 0xE2 \<and> take 2 cs = [CHR 0x84, CHR 0xAA] then CHR ''k'' # fold_case (drop 2 cs)
      else lower c # fold_case cs)"

definition equalFold :: "string \<Rightarrow> string \<Rightarrow> bool" where
  "equalFold s t \<longleftrightarrow> fold_case s = fold_case t"

section \<open>Numbers as text\<close>

text \<open>\<^verbatim>\<open>%d\<close> of a non-negative integer and \<^verbatim>\<open>%x\<close> of a byte slice.\<close>

fun dec :: "nat \<Rightarrow> string" where
  "dec n = (if n < 10 then [char_of (48 + n)] else dec (n div 10) @ [char_of (48 + n mod 10)])"

declare dec.simps [simp del]

definition hex_digit :: "nat \<Rightarrow> char" where
  "hex_digit n = (if n < 10 then char_of (48 + n) else char_of (87 + n))"

definition hex_bytes :: "bytes \<Rightarrow> string" where
  "hex_bytes bs = concat (map (\<lambda>b. [hex_digit (unat b div 16), hex_digit (unat b mod 16)]) bs)"

text \<open>
  \<^verbatim>\<open>strconv.Atoi\<close>: an optional sign and decimal digits, in the range of \<^verbatim>\<open>int\<close>. \<open>atoi\<close> is \<^const>\<open>None\<close>
  on either error; \<open>atoi_val\<close> is the value a caller that ignores the error sees (0 on a syntax
  error, the nearest bound on a range error).
\<close>

definition is_digit :: "char \<Rightarrow> bool" where
  "is_digit c \<longleftrightarrow> (of_char c :: nat) \<in> {48..57}"

definition digits_val :: "string \<Rightarrow> nat" where
  "digits_val s = foldl (\<lambda>n c. 10 * n + (of_char c - 48)) 0 s"

definition parse_int :: "string \<Rightarrow> int option" where
  "parse_int s =
     (let neg = hasPrefix s ''-'';
          ds = (if neg \<or> hasPrefix s ''+'' then drop 1 s else s)
      in if ds = [] \<or> \<not> list_all is_digit ds then None
         else Some (if neg then - int (digits_val ds) else int (digits_val ds)))"

definition atoi :: "string \<Rightarrow> int option" where
  "atoi s = (case parse_int s of None \<Rightarrow> None
     | Some n \<Rightarrow> if - (2 ^ 63) \<le> n \<and> n < 2 ^ 63 then Some n else None)"

definition atoi_val :: "string \<Rightarrow> int" where
  "atoi_val s = (case parse_int s of None \<Rightarrow> 0
     | Some n \<Rightarrow> max (- (2 ^ 63)) (min (2 ^ 63 - 1) n))"

lemma dec_digits: "list_all is_digit (dec n)"
proof (induction n rule: dec.induct)
  case (1 n)
  show ?case
  proof (cases "n < 10")
    case True
    then show ?thesis by (simp add: dec.simps [of n] is_digit_def)
  next
    case False
    moreover have "n mod 10 < 10" by simp
    ultimately show ?thesis using "1.IH"
      by (simp add: dec.simps [of n] is_digit_def)
  qed
qed

lemma dec_nonempty [simp]: "dec n \<noteq> []"
  by (simp add: dec.simps [of n])

lemma digits_val_dec [simp]: "digits_val (dec n) = n"
proof (induction n rule: dec.induct)
  case (1 n)
  show ?case
  proof (cases "n < 10")
    case True
    then show ?thesis by (simp add: dec.simps [of n] digits_val_def)
  next
    case False
    have "48 + n mod 10 < 256" using mod_less_divisor [of 10 n] by linarith
    with False "1.IH" show ?thesis
      by (simp add: dec.simps [of n] digits_val_def)
  qed
qed

lemma digit_not_sign: "is_digit c \<Longrightarrow> c \<noteq> CHR ''-'' \<and> c \<noteq> CHR ''+''"
  by (auto simp: is_digit_def)

lemma atoi_dec: "n < 2 ^ 63 \<Longrightarrow> atoi (dec n) = Some (int n)"
proof -
  assume n: "n < 2 ^ 63"
  have "hd (dec n) \<noteq> CHR ''-''" "hd (dec n) \<noteq> CHR ''+''"
    using dec_digits [of n] digit_not_sign [of "hd (dec n)"]
    by (auto simp: list_all_iff)
  then have "\<not> hasPrefix (dec n) ''-''" "\<not> hasPrefix (dec n) ''+''"
    by (cases "dec n"; simp add: hasPrefix_def)+
  with n dec_digits show ?thesis
    by (simp add: atoi_def parse_int_def)
qed

lemma atoi_val_dec: "n < 2 ^ 63 \<Longrightarrow> atoi_val (dec n) = int n"
proof -
  assume n: "n < 2 ^ 63"
  from atoi_dec [OF this] obtain k where "parse_int (dec n) = Some k" "k = int n"
    by (auto simp: atoi_def split: option.splits if_splits)
  with n show ?thesis by (simp add: atoi_val_def)
qed

lemma dec_inj [simp]: "dec m = dec n \<longleftrightarrow> m = n"
  by (metis digits_val_dec)

lemma length_dec: "n < 10 ^ k \<Longrightarrow> 0 < k \<Longrightarrow> length (dec n) \<le> k"
proof (induction n arbitrary: k rule: dec.induct)
  case (1 n)
  show ?case
  proof (cases "n < 10")
    case True
    with "1.prems" show ?thesis by (simp add: dec.simps [of n])
  next
    case False
    then obtain k' where k: "k = Suc k'" "0 < k'"
      using "1.prems" by (cases k; cases "k - 1") auto
    then have "n div 10 < 10 ^ k'" using "1.prems" by simp
    with False k "1.IH" show ?thesis by (simp add: dec.simps [of n])
  qed
qed

lemma split_on_append_sep: "split_on c (s @ c # t) = split_on c s @ split_on c t"
proof (induction s)
  case (Cons x s)
  then show ?case by (cases "split_on c s") auto
qed simp

lemma trimSpace_space_printable:
  assumes "\<forall>c \<in> set s. printable c"
  shows "trimSpace (CHR '' '' # s) = s"
proof -
  have "space_at_front (CHR '' '' # s) = 1"
    by (simp add: space_at_front_def go_spaces_def hasPrefix_def)
  then have "trim_left (CHR '' '' # s) = trim_left s" by (subst trim_left.simps) simp
  also have "\<dots> = s" using assms by (simp add: trim_left.simps space_at_front_printable)
  finally show ?thesis using assms by (simp add: trimSpace_def trim_right.simps space_at_end_printable)
qed

end
