(* ===== verification/PortAlloc.thy ===== *)
theory PortAlloc
  imports GoStrings
begin

text \<open>
  The public port allocator of \<^verbatim>\<open>internal/server/tcp.go\<close> and the interface \<^verbatim>\<open>PortAllocator\<close> that
  \<^verbatim>\<open>internal/sshtun\<close> and the client handler use it through. Ports are 16-bit words, so the
  increment of the scan pointer is the machine's.
\<close>

record PortAllocator =
  paStart :: u16
  paEnd :: u16
  paUsed :: "(u16, bool) gomap"
  paNext :: u16

datatype allocErr =
    PortOutsideRange u16 u16 u16
  | PortInUse u16
  | NoFreePorts u16 u16

fun alloc_err_text :: "allocErr \<Rightarrow> string" where
  "alloc_err_text (PortOutsideRange p s e) =
     ''port '' @ dec (unat p) @ '' outside allowed range '' @ dec (unat s) @ ''-'' @ dec (unat e)"
| "alloc_err_text (PortInUse p) = ''port '' @ dec (unat p) @ '' already in use''"
| "alloc_err_text (NoFreePorts s e) =
     ''no free ports in range '' @ dec (unat s) @ ''-'' @ dec (unat e)"

definition NewPortAllocator :: "u16 \<Rightarrow> u16 \<Rightarrow> PortAllocator" where
  "NewPortAllocator s e = \<lparr>paStart = s, paEnd = e, paUsed = [], paNext = s\<rparr>"

text \<open>\<^verbatim>\<open>a.used[p]\<close>: a missing key reads as \<^verbatim>\<open>false\<close>.\<close>

definition is_used :: "PortAllocator \<Rightarrow> u16 \<Rightarrow> bool" where
  "is_used a p = (map_of (paUsed a) p = Some True)"

definition mark_used :: "PortAllocator \<Rightarrow> u16 \<Rightarrow> PortAllocator" where
  "mark_used a p = a\<lparr>paUsed := AList.update p True (paUsed a)\<rparr>"

text \<open>The scan loop: the remaining number of rounds is the first argument.\<close>

fun scan_ports :: "nat \<Rightarrow> PortAllocator \<Rightarrow> PortAllocator \<times> (allocErr + u16)" where
  "scan_ports 0 a = (a, Inl (NoFreePorts (paStart a) (paEnd a)))"
| "scan_ports (Suc i) a =
     (let p = paNext a;
          a' = a\<lparr>paNext := (if paNext a = paEnd a then paStart a else paNext a + 1)\<rparr>
      in if \<not> is_used a' p then (mark_used a' p, Inr p) else scan_ports i a')"

definition Allocate :: "PortAllocator \<Rightarrow> u16 \<Rightarrow> PortAllocator \<times> (allocErr + u16)" where
  "Allocate a preferred =
     (if preferred \<noteq> 0 then
        if preferred < paStart a \<or> paEnd a < preferred
          then (a, Inl (PortOutsideRange preferred (paStart a) (paEnd a)))
        else if is_used a preferred then (a, Inl (PortInUse preferred))
        else (mark_used a preferred, Inr preferred)
      else scan_ports (nat (int (unat (paEnd a)) - int (unat (paStart a)) + 1)) a)"

definition Release :: "PortAllocator \<Rightarrow> u16 \<Rightarrow> PortAllocator" where
  "Release a port = a\<lparr>paUsed := AList.delete port (paUsed a)\<rparr>"

section \<open>The interface\<close>

text \<open>
  What a user of the interface relies on: a successful allocation hands out a port of the range
  that nobody holds and records it as held, a failed one changes nothing held, a release gives
  back exactly that port, an unpinned request fails only when the whole range is held, and a pinned one
  only when that port is outside the range or held.
\<close>

locale port_pool =
  fixes allocate :: "'p \<Rightarrow> u16 \<Rightarrow> 'p \<times> ('e + u16)"
    and release :: "'p \<Rightarrow> u16 \<Rightarrow> 'p"
    and held :: "'p \<Rightarrow> u16 set"
    and ports :: "'p \<Rightarrow> u16 set"
    and pool_inv :: "'p \<Rightarrow> bool"
  assumes alloc_ok: "pool_inv a \<Longrightarrow> allocate a pref = (a', Inr p) \<Longrightarrow>
      p \<in> ports a \<and> p \<notin> held a \<and> held a' = insert p (held a) \<and> (pref = 0 \<or> p = pref)"
    and alloc_err: "pool_inv a \<Longrightarrow> allocate a pref = (a', Inl e) \<Longrightarrow> held a' = held a"
    and alloc_full: "pool_inv a \<Longrightarrow> allocate a 0 = (a', Inl e) \<Longrightarrow> ports a \<subseteq> held a"
    and alloc_pinned: "pool_inv a \<Longrightarrow> pref \<noteq> 0 \<Longrightarrow> allocate a pref = (a', Inl e) \<Longrightarrow> pref \<notin> ports a \<or> pref \<in> held a"
    and alloc_inv: "pool_inv a \<Longrightarrow> pool_inv (fst (allocate a pref))"
    and alloc_ports: "ports (fst (allocate a pref)) = ports a"
    and release_held: "pool_inv a \<Longrightarrow> held (release a p) = held a - {p}"
    and release_inv: "pool_inv a \<Longrightarrow> pool_inv (release a p)"
    and release_ports: "ports (release a p) = ports a"
begin

lemma pool_inv_release_all: "pool_inv a \<Longrightarrow> pool_inv (fold (\<lambda>p a. release a p) ps a)"
  by (induction ps arbitrary: a) (auto simp: release_inv)

lemma release_all_held:
  "pool_inv a \<Longrightarrow> held (fold (\<lambda>p a. release a p) ps a) = held a - set ps"
  by (induction ps arbitrary: a) (auto simp: release_inv release_held)

lemma alloc_release_held:
  assumes "pool_inv a" "allocate a pref = (a', Inr p)"
  shows "held (release a' p) = held a"
  using alloc_ok [OF assms] alloc_inv [OF assms(1), of pref] assms(2) by (auto simp: release_held)

lemma alloc_granted:
  assumes "pool_inv a"
  shows "(\<exists>a' p. allocate a pref = (a', Inr p)) \<longleftrightarrow>
    (if pref = 0 then \<not> ports a \<subseteq> held a else pref \<in> ports a \<and> pref \<notin> held a)"
proof -
  obtain a' r where al: "allocate a pref = (a', r)" by fastforce
  show ?thesis
  proof (cases r)
    case (Inl e)
    then show ?thesis using al alloc_full [OF assms, of a' e] alloc_pinned [OF assms, of pref a' e] by auto
  next
    case (Inr p)
    then show ?thesis using al alloc_ok [OF assms, of pref a' p] by auto
  qed
qed

lemma two_allocs_distinct:
  assumes "pool_inv a" "allocate a pref = (a', Inr p)" "allocate a' pref' = (a'', Inr p')"
  shows "p \<noteq> p'"
  using alloc_ok [OF assms(1,2)] alloc_ok [of a' pref' a'' p'] assms alloc_inv [OF assms(1), of pref]
  by auto

lemma held_in_ports:
  assumes "pool_inv a" "held a \<subseteq> ports a" "allocate a pref = (a', r)"
  shows "held a' \<subseteq> ports a'"
proof (cases r)
  case (Inl e)
  then show ?thesis using assms alloc_err alloc_ports by (metis fst_conv)
next
  case (Inr p)
  then show ?thesis using assms alloc_ok alloc_ports by (metis fst_conv insert_subset)
qed

end

section \<open>The allocator implements the interface\<close>

definition held_ports :: "PortAllocator \<Rightarrow> u16 set" where
  "held_ports a = {p. is_used a p}"

definition port_range :: "PortAllocator \<Rightarrow> u16 set" where
  "port_range a = {paStart a..paEnd a}"

definition alloc_inv :: "PortAllocator \<Rightarrow> bool" where
  "alloc_inv a \<longleftrightarrow> distinct (map fst (paUsed a)) \<and> paStart a \<le> paNext a \<and> paNext a \<le> paEnd a"

text \<open>The scan pointer after \<open>j\<close> rounds, as an offset from the start modulo the range size.\<close>

definition advance :: "PortAllocator \<Rightarrow> u16 \<Rightarrow> u16" where
  "advance a p = (if p = paEnd a then paStart a else p + 1)"

definition range_size :: "PortAllocator \<Rightarrow> nat" where
  "range_size a = unat (paEnd a) - unat (paStart a) + 1"

lemma unat_inc_u16: "p \<le> e \<Longrightarrow> p \<noteq> e \<Longrightarrow> unat (p + 1 :: u16) = unat p + 1"
proof -
  assume "p \<le> e" "p \<noteq> e"
  then have "unat p < unat e" by (simp add: word_less_nat_alt [symmetric])
  then show ?thesis using unat_u16_less [of e] by (simp add: unat_word_ariths)
qed

lemma unat_advance:
  assumes "paStart a \<le> p" "p \<le> paEnd a"
  shows "unat (advance a p) = unat (paStart a) + (unat p - unat (paStart a) + 1) mod range_size a"
proof (cases "p = paEnd a")
  case True
  then show ?thesis using assms by (simp add: advance_def range_size_def)
next
  case False
  then have "unat p < unat (paEnd a)" using assms by (simp add: word_less_nat_alt [symmetric])
  moreover have "unat (p + 1) = unat p + 1" using unat_inc_u16 [OF assms(2) False] .
  ultimately show ?thesis using False assms
    by (simp add: advance_def range_size_def word_le_nat_alt)
qed

lemma advance_range:
  assumes "paStart a \<le> p" "p \<le> paEnd a"
  shows "paStart a \<le> advance a p \<and> advance a p \<le> paEnd a"
proof -
  have "(unat p - unat (paStart a) + 1) mod range_size a < range_size a"
    by (rule mod_less_divisor) (simp add: range_size_def)
  moreover have "range_size a = unat (paEnd a) - unat (paStart a) + 1"
    by (simp only: range_size_def)
  moreover have "unat (paStart a) \<le> unat (paEnd a)"
    using assms by (meson order_trans word_le_nat_alt)
  ultimately show ?thesis
    unfolding word_le_nat_alt unat_advance [OF assms] by linarith
qed

lemma advance_pow_range:
  "paStart a \<le> p \<Longrightarrow> p \<le> paEnd a \<Longrightarrow>
   paStart a \<le> (advance a ^^ j) p \<and> (advance a ^^ j) p \<le> paEnd a"
  by (induction j) (auto simp: advance_range)

lemma unat_advance_pow:
  assumes "paStart a \<le> p" "p \<le> paEnd a"
  shows "unat ((advance a ^^ j) p)
    = unat (paStart a) + (unat p - unat (paStart a) + j) mod range_size a"
proof (induction j)
  case 0
  then show ?case using assms by (simp add: range_size_def word_le_nat_alt)
next
  case (Suc j)
  have "unat (advance a ((advance a ^^ j) p))
      = unat (paStart a) + (unat ((advance a ^^ j) p) - unat (paStart a) + 1) mod range_size a"
    using advance_pow_range [OF assms] by (intro unat_advance) auto
  then show ?case by (simp add: Suc mod_Suc_eq)
qed

text \<open>Advancing once per port of the range visits every port.\<close>

lemma advance_covers:
  assumes n: "paStart a \<le> n" "n \<le> paEnd a" and p: "p \<in> port_range a"
  shows "\<exists>j < range_size a. (advance a ^^ j) n = p"
proof -
  let ?s = "unat (paStart a)" and ?m = "range_size a"
  have le: "?s \<le> unat n" "unat n \<le> unat (paEnd a)" "?s \<le> unat p" "unat p \<le> unat (paEnd a)"
    using n p by (auto simp: port_range_def word_le_nat_alt)
  define j where "j = (unat p - ?s + (?m - (unat n - ?s))) mod ?m"
  have j: "j < ?m" by (simp add: j_def range_size_def)
  have "(unat n - ?s + j) mod ?m = (unat n - ?s + (unat p - ?s + (?m - (unat n - ?s)))) mod ?m"
    by (simp add: j_def mod_add_right_eq)
  also have "unat n - ?s + (unat p - ?s + (?m - (unat n - ?s))) = unat p - ?s + ?m"
    using le unfolding range_size_def by arith
  also have "(unat p - ?s + ?m) mod ?m = (unat p - ?s) mod ?m" by (rule mod_add_self2)
  also have "\<dots> = unat p - ?s"
    by (rule mod_less) (use le in \<open>unfold range_size_def, arith\<close>)
  finally have "unat ((advance a ^^ j) n) = unat p"
    using unat_advance_pow [OF n, of j] le by simp
  with j show ?thesis by (metis word_unat_eq_iff)
qed

text \<open>The scan, in terms of the pointer: which port it returns, and when it gives up.\<close>

lemma is_used_update [simp]: "is_used (a\<lparr>paNext := n\<rparr>) p = is_used a p"
  by (simp add: is_used_def)

lemma is_used_mark [simp]: "distinct (map fst (paUsed a)) \<Longrightarrow> is_used (mark_used a p) q \<longleftrightarrow> q = p \<or> is_used a q"
  by (simp add: is_used_def mark_used_def gomap)

lemma mark_used_simps [simp]:
  "paStart (mark_used a p) = paStart a" "paEnd (mark_used a p) = paEnd a"
  "paNext (mark_used a p) = paNext a"
  "paUsed (mark_used a p) = AList.update p True (paUsed a)"
  by (simp_all add: mark_used_def)

lemma advance_next [simp]: "advance (a\<lparr>paNext := n\<rparr>) = advance a"
  by (simp add: advance_def fun_eq_iff)

lemma scan_ports_Inl:
  "scan_ports i a = (a', Inl e) \<Longrightarrow>
   paUsed a' = paUsed a \<and> (\<forall>j < i. is_used a ((advance a ^^ j) (paNext a)))"
proof (induction i arbitrary: a)
  case (Suc i)
  let ?b = "a\<lparr>paNext := advance a (paNext a)\<rparr>"
  have used: "is_used a (paNext a)" and rest: "scan_ports i ?b = (a', Inl e)"
    using Suc.prems by (auto simp: Let_def advance_def split: if_splits)
  have IH: "paUsed a' = paUsed a" "\<forall>j<i. is_used a ((advance a ^^ j) (advance a (paNext a)))"
    using Suc.IH [OF rest] by simp_all
  have "is_used a ((advance a ^^ j) (paNext a))" if "j < Suc i" for j
    using that used IH(2) by (cases j) (auto simp: funpow_swap1)
  with IH show ?case by simp
qed auto

lemma scan_ports_Inr:
  "scan_ports i a = (a', Inr p) \<Longrightarrow> distinct (map fst (paUsed a)) \<Longrightarrow>
   \<not> is_used a p \<and> paUsed a' = AList.update p True (paUsed a) \<and>
   (\<exists>j < i. p = (advance a ^^ j) (paNext a))"
proof (induction i arbitrary: a)
  case (Suc i)
  let ?b = "a\<lparr>paNext := advance a (paNext a)\<rparr>"
  show ?case
  proof (cases "is_used a (paNext a)")
    case False
    then show ?thesis using Suc.prems by (auto simp: Let_def intro: exI [of _ 0])
  next
    case True
    then have "scan_ports i ?b = (a', Inr p)"
      using Suc.prems by (auto simp: Let_def advance_def split: if_splits)
    from Suc.IH [OF this] Suc.prems(2)
    have IH: "\<not> is_used a p" "paUsed a' = AList.update p True (paUsed a)"
      and "\<exists>j<i. p = (advance a ^^ j) (advance a (paNext a))" by simp_all
    then obtain j where "j < i" "p = (advance a ^^ Suc j) (paNext a)" by (auto simp: funpow_swap1)
    with IH show ?thesis by blast
  qed
qed simp

lemma scan_ports_frame:
  "paStart (fst (scan_ports i a)) = paStart a \<and> paEnd (fst (scan_ports i a)) = paEnd a"
  by (induction i arbitrary: a) (auto simp: Let_def)

lemma scan_ports_inv: "alloc_inv a \<Longrightarrow> alloc_inv (fst (scan_ports i a))"
proof (induction i arbitrary: a)
  case (Suc i)
  let ?b = "a\<lparr>paNext := advance a (paNext a)\<rparr>"
  have b: "alloc_inv ?b"
    using Suc.prems advance_range [of a "paNext a"] by (simp add: alloc_inv_def)
  then have "alloc_inv (mark_used ?b (paNext a))"
    by (simp add: alloc_inv_def gomap)
  with b Suc.IH [OF b] show ?case by (simp add: Let_def advance_def)
qed simp

interpretation pa: port_pool Allocate Release held_ports port_range alloc_inv
proof unfold_locales
  fix a pref a' p
  assume inv: "alloc_inv a" and al: "Allocate a pref = (a', Inr p)"
  have d: "distinct (map fst (paUsed a))" using inv by (simp add: alloc_inv_def)
  show "p \<in> port_range a \<and> p \<notin> held_ports a \<and> held_ports a' = insert p (held_ports a) \<and> (pref = 0 \<or> p = pref)"
  proof (cases "pref = 0")
    case True
    from al True have "scan_ports (nat (int (unat (paEnd a)) - int (unat (paStart a)) + 1)) a = (a', Inr p)"
      by (simp add: Allocate_def)
    from scan_ports_Inr [OF this d] obtain j where
      "\<not> is_used a p" "paUsed a' = AList.update p True (paUsed a)" "p = (advance a ^^ j) (paNext a)"
      by auto
    with True inv d advance_pow_range [of a "paNext a" j] show ?thesis
      by (auto simp: held_ports_def port_range_def alloc_inv_def is_used_def gomap)
  next
    case False
    with al d show ?thesis
      by (auto simp: Allocate_def held_ports_def port_range_def split: if_splits)
  qed
next
  fix a pref a' e
  assume "alloc_inv a" "Allocate a pref = (a', Inl e)"
  then show "held_ports a' = held_ports a"
    using scan_ports_Inl [of _ a a' e] by (auto simp: Allocate_def held_ports_def is_used_def split: if_splits)
next
  fix a a' e
  assume inv: "alloc_inv a" and al: "Allocate a 0 = (a', Inl e)"
  have "unat (paStart a) \<le> unat (paEnd a)"
    using inv unfolding alloc_inv_def word_le_nat_alt by linarith
  then have "nat (int (unat (paEnd a)) - int (unat (paStart a)) + 1) = range_size a"
    unfolding range_size_def by arith
  with al have "\<forall>j<range_size a. is_used a ((advance a ^^ j) (paNext a))"
    using scan_ports_Inl [of "range_size a" a a' e] by (simp add: Allocate_def)
  with inv advance_covers [of a "paNext a"] show "port_range a \<subseteq> held_ports a"
    by (auto simp: held_ports_def alloc_inv_def)
next
  fix a pref a' e
  assume "pref \<noteq> 0" "Allocate a pref = (a', Inl e)"
  then show "pref \<notin> port_range a \<or> pref \<in> held_ports a"
    by (auto simp: Allocate_def port_range_def held_ports_def split: if_splits)
next
  fix a pref
  assume "alloc_inv a"
  then show "alloc_inv (fst (Allocate a pref))"
    using scan_ports_inv by (auto simp: Allocate_def alloc_inv_def gomap)
next
  fix a pref
  show "port_range (fst (Allocate a pref)) = port_range a"
    using scan_ports_frame by (auto simp: Allocate_def port_range_def)
qed (auto simp: Release_def held_ports_def port_range_def alloc_inv_def is_used_def gomap
    split: if_splits)

section \<open>Reachable allocators\<close>

text \<open>The states of an allocator over a range, under any sequence of calls.\<close>

inductive alloc_reach :: "u16 \<Rightarrow> u16 \<Rightarrow> PortAllocator \<Rightarrow> bool" for s e where
  alloc_new: "alloc_reach s e (NewPortAllocator s e)"
| alloc_allocate: "alloc_reach s e a \<Longrightarrow> alloc_reach s e (fst (Allocate a pref))"
| alloc_release: "alloc_reach s e a \<Longrightarrow> alloc_reach s e (Release a p)"

lemma alloc_reach_inv:
  "alloc_reach s e a \<Longrightarrow> s \<le> e \<Longrightarrow>
   alloc_inv a \<and> port_range a = {s..e} \<and> held_ports a \<subseteq> port_range a"
proof (induction rule: alloc_reach.induct)
  case alloc_new
  then show ?case
    by (simp add: NewPortAllocator_def alloc_inv_def port_range_def held_ports_def is_used_def)
next
  case (alloc_allocate a pref)
  then show ?case
    using pa.held_in_ports [of a pref] pa.alloc_inv pa.alloc_ports by (metis prod.collapse)
next
  case (alloc_release a p)
  then show ?case
    using pa.release_held pa.release_inv pa.release_ports by blast
qed

lemma range_start_end: "alloc_inv a \<Longrightarrow> port_range a = {s..e} \<Longrightarrow> paStart a = s \<and> paEnd a = e"
proof -
  assume "alloc_inv a" "port_range a = {s..e}"
  then have "paStart a \<le> paEnd a" "{paStart a..paEnd a} = {s..e}" by (auto simp: alloc_inv_def port_range_def)
  then show ?thesis by (simp add: Icc_eq_Icc)
qed

section \<open>The order of the scan\<close>

text \<open>The ports of the range in the order in which they are tried when the pointer is at \<open>n\<close>.\<close>

definition scan_order :: "u16 \<Rightarrow> u16 \<Rightarrow> u16 \<Rightarrow> u16 list" where
  "scan_order s e n = map word_of_nat ([unat n..<Suc (unat e)] @ [unat s..<unat n])"

lemma word_of_nat_u16: "unat p = n \<Longrightarrow> word_of_nat n = (p :: u16)"
  by auto

lemma scan_visits:
  assumes "alloc_inv a"
  shows "map (\<lambda>j. (advance a ^^ j) (paNext a)) [0..<range_size a] = scan_order (paStart a) (paEnd a) (paNext a)"
proof (rule nth_equalityI)
  have n: "paStart a \<le> paNext a" "paNext a \<le> paEnd a" using assms by (simp_all add: alloc_inv_def)
  then have le: "unat (paStart a) \<le> unat (paNext a)" "unat (paNext a) \<le> unat (paEnd a)" by (simp_all add: word_le_nat_alt)
  then show "length (map (\<lambda>j. (advance a ^^ j) (paNext a)) [0..<range_size a]) = length (scan_order (paStart a) (paEnd a) (paNext a))"
    by (simp add: scan_order_def range_size_def)
  fix j assume "j < length (map (\<lambda>j. (advance a ^^ j) (paNext a)) [0..<range_size a])"
  then have j: "j < range_size a" by simp
  let ?d = "unat (paEnd a) - unat (paNext a)"
  have u: "unat ((advance a ^^ j) (paNext a)) = unat (paStart a) + (unat (paNext a) - unat (paStart a) + j) mod range_size a"
    by (rule unat_advance_pow [OF n])
  have "unat ((advance a ^^ j) (paNext a)) = ([unat (paNext a)..<Suc (unat (paEnd a))] @ [unat (paStart a)..<unat (paNext a)]) ! j"
  proof (cases "j \<le> ?d")
    case True
    then have "unat (paNext a) - unat (paStart a) + j < range_size a" using le j unfolding range_size_def by linarith
    moreover have "([unat (paNext a)..<Suc (unat (paEnd a))] @ [unat (paStart a)..<unat (paNext a)]) ! j = unat (paNext a) + j"
      using True le by (auto simp: nth_append simp del: upt_Suc)
    ultimately show ?thesis using u le by simp
  next
    case False
    define k where "k = j - Suc ?d"
    have k: "unat (paNext a) - unat (paStart a) + j = k + range_size a" "k < range_size a"
      using False le j unfolding range_size_def k_def by linarith+
    have "([unat (paNext a)..<Suc (unat (paEnd a))] @ [unat (paStart a)..<unat (paNext a)]) ! j = unat (paStart a) + k"
    proof -
      have "\<not> j < Suc (unat (paEnd a)) - unat (paNext a)" "j - (Suc (unat (paEnd a)) - unat (paNext a)) = k"
        using False le unfolding k_def by linarith+
      moreover have "k < unat (paNext a) - unat (paStart a)" using k le j unfolding range_size_def by linarith
      ultimately show ?thesis by (simp add: nth_append del: upt_Suc)
    qed
    moreover have "(k + range_size a) mod range_size a = k" using k(2) by simp
    ultimately show ?thesis using u k(1) by simp
  qed
  then show "map (\<lambda>j. (advance a ^^ j) (paNext a)) [0..<range_size a] ! j = scan_order (paStart a) (paEnd a) (paNext a) ! j"
    using j le by (simp add: scan_order_def range_size_def word_of_nat_u16 [symmetric] del: upt_Suc map_append)
qed

text \<open>The loop is the search for the first free port in that order.\<close>

lemma scan_ports_find:
  "scan_ports i a = (case find (\<lambda>p. \<not> is_used a p) (map (\<lambda>j. (advance a ^^ j) (paNext a)) [0..<i]) of
     None \<Rightarrow> (a\<lparr>paNext := (advance a ^^ i) (paNext a)\<rparr>, Inl (NoFreePorts (paStart a) (paEnd a)))
   | Some p \<Rightarrow> (mark_used (a\<lparr>paNext := advance a p\<rparr>) p, Inr p))"
proof (induction i arbitrary: a)
  case (Suc i)
  let ?b = "a\<lparr>paNext := advance a (paNext a)\<rparr>"
  have l: "map (\<lambda>j. (advance a ^^ j) (paNext a)) [0..<Suc i] =
      paNext a # map (\<lambda>j. (advance a ^^ j) (advance a (paNext a))) [0..<i]"
    by (simp add: upt_conv_Cons map_Suc_upt [symmetric] funpow_swap1 comp_def del: upt_Suc)
  show ?case unfolding l using Suc.IH [of ?b]
    by (simp add: Let_def advance_def [symmetric] funpow_swap1 split: option.split)
qed simp

lemma Allocate_scan:
  assumes "alloc_inv a"
  shows "Allocate a 0 = (case find (\<lambda>p. p \<notin> held_ports a) (scan_order (paStart a) (paEnd a) (paNext a)) of
     None \<Rightarrow> (a, Inl (NoFreePorts (paStart a) (paEnd a)))
   | Some p \<Rightarrow> (mark_used (a\<lparr>paNext := advance a p\<rparr>) p, Inr p))"
proof -
  have n: "paStart a \<le> paNext a" "paNext a \<le> paEnd a" using assms by (simp_all add: alloc_inv_def)
  then have le: "unat (paStart a) \<le> unat (paNext a)" "unat (paNext a) \<le> unat (paEnd a)" by (simp_all add: word_le_nat_alt)
  then have size: "nat (int (unat (paEnd a)) - int (unat (paStart a)) + 1) = range_size a"
    unfolding range_size_def by arith
  have "unat (paNext a) - unat (paStart a) < range_size a" using le unfolding range_size_def by linarith
  then have "(unat (paNext a) - unat (paStart a) + range_size a) mod range_size a = unat (paNext a) - unat (paStart a)" by simp
  then have "unat ((advance a ^^ range_size a) (paNext a)) = unat (paNext a)"
    using unat_advance_pow [OF n, of "range_size a"] le by simp
  then have "(advance a ^^ range_size a) (paNext a) = paNext a" by (simp only: word_unat_eq_iff)
  moreover have "is_used a p \<longleftrightarrow> p \<in> held_ports a" for p by (simp add: held_ports_def)
  ultimately show ?thesis unfolding Allocate_def size
    using scan_ports_find [of "range_size a" a] scan_visits [OF assms] by (simp split: option.split)
qed

text \<open>
  C28. The port allocator, after any sequence of allocations and releases over a range, on every branch. A pinned
  request outside the range is refused as such, one for a held port as in use, and any other gets that
  port. An unpinned request gets the first free port in the order of the scan, from the
  pointer to the end of the range and on from its start, and the pointer moves behind it; it is refused as
  out of ports exactly when all are held. A port that is handed out was free and only it is held
  afterwards; a refusal changes nothing.
\<close>

theorem Allocate_spec:
  assumes "alloc_reach s e a" and "s \<le> e"
  shows "held_ports a \<subseteq> {s..e} \<and> (case Allocate a pref of
      (a', Inr p) \<Rightarrow> p \<in> {s..e} \<and> p \<notin> held_ports a \<and> held_ports a' = insert p (held_ports a) \<and>
        (if pref \<noteq> 0 then p = pref \<and> paNext a' = paNext a
         else find (\<lambda>q. q \<notin> held_ports a) (scan_order s e (paNext a)) = Some p \<and> paNext a' = (if p = e then s else p + 1))
    | (a', Inl err) \<Rightarrow> a' = a \<and>
        (if pref = 0 then {s..e} \<subseteq> held_ports a \<and> err = NoFreePorts s e
         else if pref \<notin> {s..e} then err = PortOutsideRange pref s e
         else pref \<in> held_ports a \<and> err = PortInUse pref))"
proof -
  have inv: "alloc_inv a" and r: "port_range a = {s..e}" and h: "held_ports a \<subseteq> {s..e}"
    using alloc_reach_inv [OF assms] by auto
  have se: "paStart a = s" "paEnd a = e" using range_start_end [OF inv r] by auto
  obtain a' res where al: "Allocate a pref = (a', res)" by fastforce
  note scan = Allocate_scan [OF inv, unfolded se]
  show ?thesis
  proof (cases res)
    case (Inr p)
    have "if pref \<noteq> 0 then p = pref \<and> paNext a' = paNext a
         else find (\<lambda>q. q \<notin> held_ports a) (scan_order s e (paNext a)) = Some p \<and> paNext a' = (if p = e then s else p + 1)"
    proof (cases "pref = 0")
      case True
      then show ?thesis using al scan Inr by (auto simp: advance_def se split: option.splits)
    next
      case False
      then show ?thesis using al Inr by (auto simp: Allocate_def split: if_splits)
    qed
    then show ?thesis using pa.alloc_ok [OF inv] al r h Inr by auto
  next
    case (Inl err)
    have "a' = a \<and> (if pref = 0 then err = NoFreePorts s e
         else if pref \<notin> {s..e} then err = PortOutsideRange pref s e
         else pref \<in> held_ports a \<and> err = PortInUse pref)"
    proof (cases "pref = 0")
      case True
      then show ?thesis using al scan Inl by (auto split: option.splits)
    next
      case False
      then show ?thesis using al Inl by (auto simp: Allocate_def se held_ports_def split: if_splits)
    qed
    moreover have "pref = 0 \<Longrightarrow> {s..e} \<subseteq> held_ports a" using pa.alloc_full [OF inv] al Inl r by blast
    ultimately show ?thesis using al Inl h by (auto split: if_splits)
  qed
qed

lemma sample_alloc:
  "Allocate (NewPortAllocator 20000 20001) 0 =
     (\<lparr>paStart = 20000, paEnd = 20001, paUsed = [(20000, True)], paNext = 20001\<rparr>, Inr 20000)"
proof -
  have two: "scan_ports 2 b = scan_ports (Suc (Suc 0)) b" for b by (simp add: numeral_2_eq_2)
  show ?thesis by (simp add: Allocate_def NewPortAllocator_def two is_used_def mark_used_def)
qed

theorem Allocate_spec_witness:
  "Allocate (fst (Allocate (NewPortAllocator 20000 20001) 0)) 20000 =
      (fst (Allocate (NewPortAllocator 20000 20001) 0), Inl (PortInUse 20000)) \<and>
   find (\<lambda>q. q \<notin> held_ports (fst (Allocate (NewPortAllocator 20000 20001) 0)))
     (scan_order 20000 20001 (paNext (fst (Allocate (NewPortAllocator 20000 20001) 0)))) = Some 20001"
proof -
  define a where "a = fst (Allocate (NewPortAllocator 20000 20001) 0)"
  have r: "alloc_reach 20000 20001 a" unfolding a_def by (rule alloc_allocate [OF alloc_new])
  have two: "scan_ports 2 b = scan_ports (Suc (Suc 0)) b" for b by (simp add: numeral_2_eq_2)
  have a: "a = \<lparr>paStart = 20000, paEnd = 20001, paUsed = [(20000, True)], paNext = 20001\<rparr>"
    by (simp add: a_def sample_alloc)
  have "snd (Allocate a 20000) = Inl (PortInUse 20000)" by (simp add: a Allocate_def is_used_def)
  moreover have "snd (Allocate a 0) = Inr 20001"
    by (simp add: a Allocate_def two is_used_def mark_used_def)
  ultimately
  obtain b c where b: "Allocate a 20000 = (b, Inl (PortInUse 20000))" and c: "Allocate a 0 = (c, Inr 20001)"
    by (metis prod.collapse)
  have se: "(20000 :: u16) \<le> 20001" by simp
  note t = Allocate_spec [OF r se, of 20000, unfolded b prod.case sum.case]
    and f = Allocate_spec [OF r se, of 0, unfolded c prod.case sum.case]
  have "b = a" using t by blast
  moreover have "find (\<lambda>q. q \<notin> held_ports a) (scan_order 20000 20001 (paNext a)) = Some 20001"
    using f by (simp only: simp_thms if_False)
  ultimately show ?thesis using b unfolding a_def by blast
qed

end
