(* ===== verification/Flags.thy ===== *)
theory Flags
  imports PortAlloc
begin

text \<open>
  Command-line values of \<^verbatim>\<open>cmd/server/main.go\<close> and \<^verbatim>\<open>cmd/client/main.go\<close>: port ranges, port and
  forward lists, the server address, flag exclusivity and the reconnect delay. A \<^verbatim>\<open>log.Fatal\<close> is an
  error value. \<open>net.SplitHostPort\<close> is modelled on its documented cases, without its error texts.
\<close>

datatype flagErr =
    RangeFormat string
  | InvalidStart string
  | InvalidEnd string
  | EndBeforeStart int int
  | BadNumber string
  | PortOutOfRange int
  | InvalidLocalPort string
  | InvalidRemotePort string
  | EmptyAddr
  | InvalidAddr string
  | InvalidAddrPort string
  | AddDelWithOthers string
  | AddAndDel
  | NothingToDo
  | InvalidPorts string
  | InvalidTCP string
  | InvalidTLS string
  | SubdomainCount nat nat

section \<open>Server\<close>

definition SplitHostPort :: "string \<Rightarrow> (string \<times> string) option" where
  "SplitHostPort hp =
     (if CHR '':'' \<notin> set hp then None
      else
        let port = rev (before CHR '':'' (rev hp));
            i = length hp - length port - 1
        in if hasPrefix hp ''['' then
             if CHR '']'' \<notin> set hp then None
             else
               let e = length (before CHR '']'' hp)
               in if e + 1 = length hp \<or> e + 1 \<noteq> i then None
                  else if CHR ''['' \<in> set (drop 1 hp) \<or> CHR '']'' \<in> set (drop (e + 1) hp) then None
                  else Some (take (e - 1) (drop 1 hp), port)
           else
             let host = take i hp
             in if CHR '':'' \<in> set host \<or> CHR ''['' \<in> set hp \<or> CHR '']'' \<in> set hp then None
                else Some (host, port))"

definition hostOnly :: "string \<Rightarrow> string" where
  "hostOnly domain = (case SplitHostPort domain of Some (h, _) \<Rightarrow> h | None \<Rightarrow> domain)"

definition parsePortRange :: "string \<Rightarrow> flagErr + u16 \<times> u16" where
  "parsePortRange s = (case cut_at CHR ''-'' s of (p0, p1, found) \<Rightarrow>
     if \<not> found then Inl (RangeFormat s)
     else case atoi (trimSpace p0) of
       None \<Rightarrow> Inl (InvalidStart p0)
     | Some start \<Rightarrow>
         if start < 1 \<or> start > 65535 then Inl (InvalidStart p0)
         else case atoi (trimSpace p1) of
           None \<Rightarrow> Inl (InvalidEnd p1)
         | Some end_ \<Rightarrow>
             if end_ < 1 \<or> end_ > 65535 then Inl (InvalidEnd p1)
             else if end_ < start then Inl (EndBeforeStart end_ start)
             else Inr (of_int start, of_int end_))"

text \<open>The token: the flag, or the environment when the flag is empty.\<close>

definition effective_token :: "string \<Rightarrow> string \<Rightarrow> string" where
  "effective_token flag env = (if flag = '''' then env else flag)"

definition maxConns :: nat where "maxConns = 1000"

text \<open>\<^verbatim>\<open>CheckOrigin\<close>: \<open>parsed\<close> is the host \<^verbatim>\<open>url.Parse\<close> finds in the origin, if it parses.\<close>

definition checkOrigin :: "(string \<Rightarrow> string option) \<Rightarrow> string \<Rightarrow> string \<Rightarrow> bool" where
  "checkOrigin parsed origin host =
     (if origin = '''' then True
      else case parsed origin of None \<Rightarrow> False | Some h \<Rightarrow> h = host)"

section \<open>Client\<close>

record TCPForward =
  tfLocal :: u16
  tfRemote :: u16

record TLSForward =
  lfLocal :: u16
  lfSubdomain :: string

fun parsePortParts :: "string list \<Rightarrow> flagErr + u16 list" where
  "parsePortParts [] = Inr []"
| "parsePortParts (part0 # parts) =
     (let part = trimSpace part0
      in if part = '''' then parsePortParts parts
         else case atoi part of
           None \<Rightarrow> Inl (BadNumber part)
         | Some p \<Rightarrow>
             if p \<le> 0 \<or> p > 65535 then Inl (PortOutOfRange p)
             else and_then (parsePortParts parts) (\<lambda>ps. Inr (of_int p # ps)))"

definition parsePorts :: "string \<Rightarrow> flagErr + u16 list" where
  "parsePorts s = parsePortParts (split_on CHR '','' s)"

fun parseTCPParts :: "string list \<Rightarrow> flagErr + TCPForward list" where
  "parseTCPParts [] = Inr []"
| "parseTCPParts (part0 # parts) =
     (let part = trimSpace part0
      in if part = '''' then parseTCPParts parts
         else case cut_at CHR '':'' part of (localStr, remoteStr, hasRemote) \<Rightarrow>
           case atoi (trimSpace localStr) of
             None \<Rightarrow> Inl (InvalidLocalPort part)
           | Some local \<Rightarrow>
               if local \<le> 0 \<or> local > 65535 then Inl (InvalidLocalPort part)
               else
                 let remote = (if hasRemote then atoi (trimSpace remoteStr) else Some 0)
                 in case remote of
                      None \<Rightarrow> Inl (InvalidRemotePort part)
                    | Some r \<Rightarrow>
                        if r < 0 \<or> r > 65535 then Inl (InvalidRemotePort part)
                        else and_then (parseTCPParts parts) (\<lambda>fs.
                          Inr (\<lparr>tfLocal = of_int local, tfRemote = of_int r\<rparr> # fs)))"

definition parseTCPForwards :: "string \<Rightarrow> flagErr + TCPForward list" where
  "parseTCPForwards s = parseTCPParts (split_on CHR '','' s)"

fun parseTLSParts :: "string list \<Rightarrow> flagErr + TLSForward list" where
  "parseTLSParts [] = Inr []"
| "parseTLSParts (part0 # parts) =
     (let part = trimSpace part0
      in if part = '''' then parseTLSParts parts
         else case cut_at CHR '':'' part of (localStr, subdomain, _) \<Rightarrow>
           case atoi (trimSpace localStr) of
             None \<Rightarrow> Inl (InvalidLocalPort part)
           | Some local \<Rightarrow>
               if local \<le> 0 \<or> local > 65535 then Inl (InvalidLocalPort part)
               else and_then (parseTLSParts parts) (\<lambda>fs.
                 Inr (\<lparr>lfLocal = of_int local, lfSubdomain = trimSpace subdomain\<rparr> # fs)))"

definition parseTLSForwards :: "string \<Rightarrow> flagErr + TLSForward list" where
  "parseTLSForwards s = parseTLSParts (split_on CHR '','' s)"

text \<open>The pattern \<^verbatim>\<open>^[A-Za-z0-9._-]+:[0-9]{1,5}$\<close>: no colon occurs in the host class.\<close>

definition host_char :: "char \<Rightarrow> bool" where
  "host_char c \<longleftrightarrow>
     (let n = (of_char c :: nat) in
        65 \<le> n \<and> n \<le> 90 \<or> 97 \<le> n \<and> n \<le> 122 \<or> 48 \<le> n \<and> n \<le> 57 \<or> c = CHR ''.'' \<or> c = CHR ''_'' \<or> c = CHR ''-'')"

definition serverAddrRe :: "string \<Rightarrow> bool" where
  "serverAddrRe s \<longleftrightarrow> (case cut_at CHR '':'' s of (h, p, found) \<Rightarrow>
     found \<and> h \<noteq> '''' \<and> list_all host_char h \<and> 1 \<le> length p \<and> length p \<le> 5 \<and> list_all is_digit p)"

definition validateServerAddr :: "string \<Rightarrow> flagErr option" where
  "validateServerAddr s =
     (if s = '''' then Some EmptyAddr
      else if \<not> serverAddrRe s then Some (InvalidAddr s)
      else case atoi (split_on CHR '':'' s ! 1) of
        None \<Rightarrow> Some (InvalidAddrPort s)
      | Some p \<Rightarrow> if p \<le> 0 \<or> p > 65535 then Some (InvalidAddrPort s) else None)"

definition checkExclusiveFlags :: "string list \<Rightarrow> flagErr option" where
  "checkExclusiveFlags visited =
     (if ''add'' \<notin> set visited \<and> ''del'' \<notin> set visited then None
      else case find (\<lambda>n. n \<noteq> ''add'' \<and> n \<noteq> ''del'') visited of
        Some n \<Rightarrow> Some (AddDelWithOthers n)
      | None \<Rightarrow> if ''add'' \<in> set visited \<and> ''del'' \<in> set visited then Some AddAndDel else None)"

definition parse_subs :: "string \<Rightarrow> string list" where
  "parse_subs s = (if s = '''' then []
     else filter (\<lambda>s. s \<noteq> '''') (map trimSpace (split_on CHR '','' s)))"

definition list_flag :: "(string \<Rightarrow> flagErr + 'a list) \<Rightarrow> (string \<Rightarrow> flagErr) \<Rightarrow> string \<Rightarrow> flagErr + 'a list" where
  "list_flag parse err s =
     (if s = '''' then Inr []
      else case parse s of Inl _ \<Rightarrow> Inl (err s) | Inr xs \<Rightarrow> if xs = [] then Inl (err s) else Inr xs)"

record plan =
  plPorts :: "u16 list"
  plSubs :: "string list"
  plTCP :: "TCPForward list"
  plTLS :: "TLSForward list"

text \<open>The part of \<^verbatim>\<open>main\<close> between the flags and the reconnect loop.\<close>

definition client_plan :: "string \<Rightarrow> string \<Rightarrow> string \<Rightarrow> string \<Rightarrow> string \<Rightarrow> flagErr + plan" where
  "client_plan serverAddr localPorts tcpForward tlsForward subdomains =
     (case validateServerAddr serverAddr of
        Some e \<Rightarrow> Inl e
      | None \<Rightarrow>
          if localPorts = '''' \<and> tcpForward = '''' \<and> tlsForward = '''' then Inl NothingToDo
          else
            and_then (list_flag parsePorts InvalidPorts localPorts) (\<lambda>ports.
            and_then (list_flag parseTCPForwards InvalidTCP tcpForward) (\<lambda>tcp.
            and_then (list_flag parseTLSForwards InvalidTLS tlsForward) (\<lambda>tls.
              let subs = parse_subs subdomains
              in if length subs > 0 \<and> length subs \<noteq> length ports
                 then Inl (SubdomainCount (length subs) (length ports))
                 else Inr \<lparr>plPorts = ports, plSubs = subs, plTCP = tcp, plTLS = tls\<rparr>))))"

text \<open>Reconnect delay in seconds after a failed connect.\<close>

definition next_backoff :: "nat \<Rightarrow> nat" where
  "next_backoff b = (if b * 2 > 30 then 30 else b * 2)"

section \<open>Numbers in flags\<close>

lemma dec_printable: "c \<in> set (dec n) \<Longrightarrow> printable c"
  using dec_digits [of n] by (auto simp: list_all_iff is_digit_def printable_def)

lemma trimSpace_dec [simp]: "trimSpace (dec n) = dec n"
  by (rule trimSpace_printable) (auto dest: dec_printable)

lemma dec_no_char: "\<not> is_digit c \<Longrightarrow> c \<notin> set (dec n)"
  using dec_digits [of n] by (auto simp: list_all_iff)

lemma not_digits [simp]:
  "\<not> is_digit CHR ''-''" "\<not> is_digit CHR '','' " "\<not> is_digit CHR '':''" "\<not> is_digit CHR ''.''"
  by (simp_all add: is_digit_def)

lemma atoi_dec_u16 [simp]: "atoi (dec (unat (p :: u16))) = Some (int (unat p))"
proof -
  have "unat p < 2 ^ 63" by (rule less_trans [OF unat_u16_less]) simp
  then show ?thesis by (rule atoi_dec)
qed

lemma of_int_unat_u16: "of_int (int (unat (p :: u16))) = p"
  by simp

lemma unat_of_int_u16: "0 \<le> n \<Longrightarrow> n \<le> 65535 \<Longrightarrow> unat (of_int n :: u16) = nat n"
proof -
  assume n: "0 \<le> n" "n \<le> 65535"
  define k where "k = nat n"
  have k: "n = int k" "k < 65536" using n by (simp_all add: k_def)
  have "unat (of_nat k :: u16) = k" by (rule unat_of_nat_u16 [OF k(2)])
  then show ?thesis unfolding k(1) of_int_of_nat_eq nat_int .
qed

lemma unat_u16_int_bounds: "0 < unat (p :: u16) \<Longrightarrow> 1 \<le> int (unat p) \<and> int (unat p) \<le> 65535"
  using unat_u16_less [of p] by linarith

lemma parsePortRange_dec:
  assumes "0 < unat a" "unat a \<le> unat b"
  shows "parsePortRange (dec (unat a) @ ''-'' @ dec (unat b)) = Inr (a, b)"
proof -
  have c: "cut_at CHR ''-'' (dec (unat a) @ CHR ''-'' # dec (unat b)) = (dec (unat a), dec (unat b), True)"
    by (rule cut_at_found) (simp add: dec_no_char)
  have "0 < unat b" using assms by linarith
  note bounds = unat_u16_int_bounds [OF assms(1)] unat_u16_int_bounds [OF this]
  have "\<not> (int (unat a) < 1 \<or> int (unat a) > 65535)" "\<not> (int (unat b) < 1 \<or> int (unat b) > 65535)"
    "\<not> int (unat b) < int (unat a)" using bounds assms(2) by linarith+
  then show ?thesis
    unfolding parsePortRange_def append_Cons append_Nil c prod.case trimSpace_dec atoi_dec_u16 option.case
      of_int_unat_u16 by simp
qed

lemma parsePortRange_bounds:
  assumes "parsePortRange s = Inr (a, b)"
  shows "0 < unat a \<and> unat a \<le> unat b"
proof -
  obtain m n where mn: "1 \<le> m" "m \<le> n" "n \<le> 65535" "a = of_int m" "b = of_int n"
    using assms by (fastforce simp: parsePortRange_def not_less split: prod.splits if_splits option.splits)
  then show ?thesis using unat_of_int_u16 [of m] unat_of_int_u16 [of n] by simp
qed

text \<open>
  Port ranges: whatever \<^verbatim>\<open>--tcp-ports\<close> value is accepted denotes a non-empty range that does not
  contain port 0, so the allocator made from it starts in a valid state; and every such range,
  written as \<^verbatim>\<open>start-end\<close>, is accepted as itself.
\<close>

theorem parsePortRange_correct:
  "(\<forall>s a b. parsePortRange s = Inr (a, b) \<longrightarrow>
      0 < unat a \<and> unat a \<le> unat b \<and> alloc_inv (NewPortAllocator a b)) \<and>
   (\<forall>a b. 0 < unat a \<and> unat a \<le> unat b \<longrightarrow>
      parsePortRange (dec (unat a) @ ''-'' @ dec (unat b)) = Inr (a, b))"
proof (intro conjI allI impI)
  fix s a b assume p: "parsePortRange s = Inr (a, b)"
  show "0 < unat a" "unat a \<le> unat b" using parsePortRange_bounds [OF p] by simp_all
  then show "alloc_inv (NewPortAllocator a b)"
    by (simp add: alloc_inv_def NewPortAllocator_def word_le_nat_alt)
qed (use parsePortRange_dec in blast)

theorem parsePortRange_correct_witness:
  "parsePortRange (dec (unat (20000 :: u16)) @ ''-'' @ dec (unat (20100 :: u16))) = Inr (20000, 20100)"
proof -
  have "0 < unat (20000 :: u16) \<and> unat (20000 :: u16) \<le> unat (20100 :: u16)" by simp
  then show ?thesis using parsePortRange_correct by blast
qed

section \<open>Forward lists\<close>

definition commas :: "string list \<Rightarrow> string" where
  "commas = (\<lambda>ps. case ps of [] \<Rightarrow> '''' | p # ps \<Rightarrow> p @ concat (map (\<lambda>q. CHR '','' # q) ps))"

lemma split_commas:
  "ps \<noteq> [] \<Longrightarrow> \<forall>p \<in> set ps. CHR '','' \<notin> set p \<Longrightarrow> split_on CHR '','' (commas ps) = ps"
proof (induction ps)
  case (Cons p ps)
  show ?case
  proof (cases ps)
    case Nil
    then show ?thesis using Cons.prems by (simp add: commas_def split_on_single)
  next
    case (Cons q qs)
    then have "commas (p # ps) = p @ CHR '','' # commas ps" by (simp add: commas_def)
    then show ?thesis using Cons.IH Cons.prems Cons by (simp add: split_on_append)
  qed
qed simp

lemma u16_nonzero: "(p :: u16) \<noteq> 0 \<Longrightarrow> 0 < int (unat p) \<and> int (unat p) \<le> 65535"
  using unat_u16_int_bounds [of p] by (simp add: unat_gt_0)

lemma u16_range: "0 \<le> int (unat (p :: u16)) \<and> int (unat p) \<le> 65535"
  using unat_u16_less [of p] by linarith

lemma parsePortParts_dec:
  "0 \<notin> set ps \<Longrightarrow> parsePortParts (map (\<lambda>p. dec (unat p)) ps) = Inr ps"
proof (induction ps)
  case (Cons p ps)
  have "\<not> (int (unat p) \<le> 0 \<or> int (unat p) > 65535)" using u16_nonzero [of p] Cons.prems by force
  with Cons show ?case
    unfolding list.map parsePortParts.simps trimSpace_dec atoi_dec_u16 of_int_unat_u16 Let_def option.case
    by simp
qed simp

definition show_tcp :: "TCPForward \<Rightarrow> string" where
  "show_tcp f = dec (unat (tfLocal f)) @ '':'' @ dec (unat (tfRemote f))"

lemma show_tcp_trim: "trimSpace (show_tcp f) = show_tcp f"
  by (rule trimSpace_printable) (auto simp: show_tcp_def printable_def dest: dec_printable)

lemma cut_show_tcp:
  "cut_at CHR '':'' (show_tcp f) = (dec (unat (tfLocal f)), dec (unat (tfRemote f)), True)"
  unfolding show_tcp_def append_Cons append_Nil by (rule cut_at_found) (simp add: dec_no_char)

lemma parseTCPParts_show:
  "\<forall>f \<in> set fs. tfLocal f \<noteq> 0 \<Longrightarrow> parseTCPParts (map show_tcp fs) = Inr fs"
proof (induction fs)
  case (Cons f fs)
  have "\<not> (int (unat (tfLocal f)) \<le> 0 \<or> int (unat (tfLocal f)) > 65535)"
    using u16_nonzero [of "tfLocal f"] Cons.prems by force
  moreover have "\<not> (int (unat (tfRemote f)) < 0 \<or> int (unat (tfRemote f)) > 65535)"
    using u16_range [of "tfRemote f"] by linarith
  moreover have "show_tcp f \<noteq> ''''" by (simp add: show_tcp_def)
  moreover have "parseTCPParts (map show_tcp fs) = Inr fs" using Cons by simp
  ultimately show ?case
    unfolding list.map parseTCPParts.simps show_tcp_trim cut_show_tcp trimSpace_dec atoi_dec_u16
      of_int_unat_u16 Let_def option.case prod.case if_True
    by simp
qed simp

text \<open>
  Forward lists: the comma-separated form of any non-empty list of non-zero ports is parsed to
  that list, and so is the \<^verbatim>\<open>local:remote\<close> form of any non-empty list of TCP forwards with non-zero
  local ports, the automatic remote port 0 included.
\<close>

theorem forward_lists_round_trip:
  "(ps \<noteq> [] \<and> 0 \<notin> set ps \<longrightarrow> parsePorts (commas (map (\<lambda>p. dec (unat p)) ps)) = Inr ps) \<and>
   (fs \<noteq> [] \<and> (\<forall>f \<in> set fs. tfLocal f \<noteq> 0) \<longrightarrow> parseTCPForwards (commas (map show_tcp fs)) = Inr fs)"
proof (intro conjI impI)
  assume ps: "ps \<noteq> [] \<and> 0 \<notin> set ps"
  then have "split_on CHR '','' (commas (map (\<lambda>p. dec (unat p)) ps)) = map (\<lambda>p. dec (unat p)) ps"
    by (intro split_commas) (auto simp: dec_no_char)
  then show "parsePorts (commas (map (\<lambda>p. dec (unat p)) ps)) = Inr ps"
    using ps by (simp add: parsePorts_def parsePortParts_dec)
next
  assume fs: "fs \<noteq> [] \<and> (\<forall>f \<in> set fs. tfLocal f \<noteq> 0)"
  then have "split_on CHR '','' (commas (map show_tcp fs)) = map show_tcp fs"
    by (intro split_commas) (auto simp: dec_no_char show_tcp_def)
  then show "parseTCPForwards (commas (map show_tcp fs)) = Inr fs"
    using fs by (simp add: parseTCPForwards_def parseTCPParts_show)
qed

theorem forward_lists_round_trip_witness:
  "parsePorts (commas (map (\<lambda>p. dec (unat p)) [8080, 3000 :: u16])) = Inr [8080, 3000] \<and>
   parseTCPForwards (commas (map show_tcp [\<lparr>tfLocal = 22, tfRemote = 0\<rparr>])) = Inr [\<lparr>tfLocal = 22, tfRemote = 0\<rparr>]"
proof
  show "parsePorts (commas (map (\<lambda>p. dec (unat p)) [8080, 3000 :: u16])) = Inr [8080, 3000]"
    by (rule forward_lists_round_trip [THEN conjunct1, rule_format]) simp
  show "parseTCPForwards (commas (map show_tcp [\<lparr>tfLocal = 22, tfRemote = 0\<rparr>])) = Inr [\<lparr>tfLocal = 22, tfRemote = 0\<rparr>]"
    by (rule forward_lists_round_trip [THEN conjunct2, rule_format]) simp
qed

section \<open>The client's plan\<close>

lemma of_int_u16_nonzero: "0 < n \<Longrightarrow> n \<le> 65535 \<Longrightarrow> (of_int n :: u16) \<noteq> 0"
  using unat_of_int_u16 [of n] by (auto simp: unat_eq_0 [symmetric])

lemma parsePortParts_nonzero: "parsePortParts parts = Inr ps \<Longrightarrow> 0 \<notin> set ps"
proof (induction parts arbitrary: ps)
  case (Cons part parts)
  then show ?case
    by (auto simp: Let_def and_then_eq_Inr not_le of_int_u16_nonzero [symmetric]
        split: if_splits option.splits)
qed simp

lemma parseTCPParts_nonzero: "parseTCPParts parts = Inr fs \<Longrightarrow> \<forall>f \<in> set fs. tfLocal f \<noteq> 0"
proof (induction parts arbitrary: fs)
  case (Cons part parts)
  then show ?case
    by (auto simp: Let_def and_then_eq_Inr not_le of_int_u16_nonzero
        split: if_splits option.splits prod.splits)
qed simp

lemma parseTLSParts_nonzero: "parseTLSParts parts = Inr fs \<Longrightarrow> \<forall>f \<in> set fs. lfLocal f \<noteq> 0"
proof (induction parts arbitrary: fs)
  case (Cons part parts)
  then show ?case
    by (auto simp: Let_def and_then_eq_Inr not_le of_int_u16_nonzero
        split: if_splits option.splits prod.splits)
qed simp

lemma list_flag_Inr:
  "list_flag parse err s = Inr xs \<longleftrightarrow> s = '''' \<and> xs = [] \<or> s \<noteq> '''' \<and> parse s = Inr xs \<and> xs \<noteq> []"
  by (auto simp: list_flag_def split: sum.splits)

text \<open>
  What the client starts with is sane: whenever the flags are accepted there is something to
  forward, no local port is 0, and there are either no subdomains or exactly one non-empty one for
  each HTTP port.
\<close>

theorem client_plan_sane:
  assumes "client_plan addr ports tcp tls subs = Inr pl"
  shows "(plPorts pl \<noteq> [] \<or> plTCP pl \<noteq> [] \<or> plTLS pl \<noteq> []) \<and> 0 \<notin> set (plPorts pl) \<and>
    (\<forall>f \<in> set (plTCP pl). tfLocal f \<noteq> 0) \<and> (\<forall>f \<in> set (plTLS pl). lfLocal f \<noteq> 0) \<and>
    (plSubs pl = [] \<or> length (plSubs pl) = length (plPorts pl)) \<and> '''' \<notin> set (plSubs pl) \<and>
    validateServerAddr addr = None"
proof -
  from assms obtain ps ts ls where
    addr: "validateServerAddr addr = None" and some: "\<not> (ports = '''' \<and> tcp = '''' \<and> tls = '''')"
    and ps: "list_flag parsePorts InvalidPorts ports = Inr ps"
    and ts: "list_flag parseTCPForwards InvalidTCP tcp = Inr ts"
    and ls: "list_flag parseTLSForwards InvalidTLS tls = Inr ls"
    and pl: "pl = \<lparr>plPorts = ps, plSubs = parse_subs subs, plTCP = ts, plTLS = ls\<rparr>"
    and cnt: "parse_subs subs = [] \<or> length (parse_subs subs) = length ps"
    by (auto simp: client_plan_def and_then_eq_Inr Let_def split: option.splits if_splits)
  have "'''' \<notin> set (parse_subs subs)" by (simp add: parse_subs_def)
  moreover have "0 \<notin> set ps" using ps by (auto simp: list_flag_Inr parsePorts_def dest: parsePortParts_nonzero)
  moreover have "\<forall>f \<in> set ts. tfLocal f \<noteq> 0"
    using ts by (auto simp: list_flag_Inr parseTCPForwards_def dest: parseTCPParts_nonzero)
  moreover have "\<forall>f \<in> set ls. lfLocal f \<noteq> 0"
    using ls by (auto simp: list_flag_Inr parseTLSForwards_def dest: parseTLSParts_nonzero)
  ultimately show ?thesis using some ps ts ls cnt addr by (auto simp: pl list_flag_Inr)
qed

lemma backoff_bound: "(next_backoff ^^ n) 1 = min 30 (2 ^ n)"
  by (induction n) (auto simp: next_backoff_def min_def)

lemma sample_plan:
  "client_plan ''h:1'' ''80'' '''' '''' '''' = Inr \<lparr>plPorts = [80], plSubs = [], plTCP = [], plTLS = []\<rparr>"
proof -
  have t: "trimSpace ''80'' = ''80''" by (rule trimSpace_printable) (simp add: printable_def)
  show ?thesis
    by (simp add: client_plan_def validateServerAddr_def serverAddrRe_def host_char_def is_digit_def
        list_flag_def parsePorts_def t atoi_def parse_int_def hasPrefix_def digits_val_def parse_subs_def)
qed

theorem client_plan_sane_witness:
  "client_plan ''h:1'' ''80'' '''' '''' '''' = Inr \<lparr>plPorts = [80], plSubs = [], plTCP = [], plTLS = []\<rparr> \<and>
   validateServerAddr ''h:1'' = None"
  using sample_plan client_plan_sane [OF sample_plan] by simp

end
