(* ===== verification/Protocol.thy ===== *)
theory Protocol
  imports GoStrings
begin

text \<open>
  The wire protocol of \<^verbatim>\<open>internal/protocol/protocol.go\<close>, shared by client and server: the 21-byte
  framed message, the HTTP request and response payloads, the registration and authentication
  payloads and the WebSocket-upgrade test. A \<^verbatim>\<open>bytes.Reader\<close> is the list of bytes still unread.
  Slice expressions and fixed-offset integer reads are checked: where Go would panic the model
  returns \<open>Panic\<close>, and the theory shows that no decoder ever does.
\<close>

section \<open>Constants\<close>

definition MsgAuth :: u8 where "MsgAuth = 0x01"
definition MsgAuthOK :: u8 where "MsgAuthOK = 0x02"
definition MsgAuthErr :: u8 where "MsgAuthErr = 0x03"
definition MsgRegister :: u8 where "MsgRegister = 0x04"
definition MsgRegisterOK :: u8 where "MsgRegisterOK = 0x05"
definition MsgRegisterErr :: u8 where "MsgRegisterErr = 0x06"
definition MsgHTTPReq :: u8 where "MsgHTTPReq = 0x07"
definition MsgHTTPRes :: u8 where "MsgHTTPRes = 0x08"
definition MsgCloseTunnel :: u8 where "MsgCloseTunnel = 0x09"
definition MsgError :: u8 where "MsgError = 0x0A"
definition MsgStreamData :: u8 where "MsgStreamData = 0x0B"
definition MsgStreamClose :: u8 where "MsgStreamClose = 0x0C"
definition MsgUnregister :: u8 where "MsgUnregister = 0x0D"
definition MsgUnregisterOK :: u8 where "MsgUnregisterOK = 0x0E"
definition MsgUnregisterErr :: u8 where "MsgUnregisterErr = 0x0F"
definition MsgRegisterTCP :: u8 where "MsgRegisterTCP = 0x10"
definition MsgTCPOpen :: u8 where "MsgTCPOpen = 0x11"
definition MsgRegisterTLS :: u8 where "MsgRegisterTLS = 0x12"

definition HeaderSize :: nat where "HeaderSize = 21"
definition MaxBodySize :: nat where "MaxBodySize = 32 * 2 ^ 20"
definition MaxFrameSize :: nat where "MaxFrameSize = MaxBodySize + 2 * 2 ^ 20"
definition StreamBufSize :: nat where "StreamBufSize = 32 * 1024"
definition InlineBodyLimit :: nat where "InlineBodyLimit = 4 * 2 ^ 20"
definition MaxHeaders :: nat where "MaxHeaders = 256"
definition MaxValuesPerHeader :: nat where "MaxValuesPerHeader = 64"
definition MaxTunnelsPerClient :: nat where "MaxTunnelsPerClient = 20"
definition StreamRelayBuf :: nat where "StreamRelayBuf = 256"
definition StreamedBodyLen :: u32 where "StreamedBodyLen = 0xFFFFFFFF"
definition maxStringLen :: nat where "maxStringLen = 65535"
definition MaxSubdomainLen :: nat where "MaxSubdomainLen = 63"
definition MaxVersionLen :: nat where "MaxVersionLen = 255"

lemmas msg_defs =
  MsgAuth_def MsgAuthOK_def MsgAuthErr_def MsgRegister_def MsgRegisterOK_def MsgRegisterErr_def
  MsgHTTPReq_def MsgHTTPRes_def MsgCloseTunnel_def MsgError_def MsgStreamData_def
  MsgStreamClose_def MsgUnregister_def MsgUnregisterOK_def MsgUnregisterErr_def
  MsgRegisterTCP_def MsgTCPOpen_def MsgRegisterTLS_def

lemmas limit_defs =
  HeaderSize_def MaxBodySize_def MaxFrameSize_def InlineBodyLimit_def MaxHeaders_def
  MaxValuesPerHeader_def MaxTunnelsPerClient_def maxStringLen_def MaxSubdomainLen_def
  MaxVersionLen_def StreamRelayBuf_def StreamBufSize_def

section \<open>Data\<close>

record Frame =
  ftype :: u8
  TunnelID :: u64
  RequestID :: u64
  Payload :: bytes

type_synonym headers = "(string, string list) gomap"

record HTTPRequest =
  reqMethod :: string
  reqPath :: string
  reqHeaders :: headers
  reqBody :: bytes
  reqBodyStreamed :: bool

record HTTPResponse =
  respStatusCode :: u16
  respHeaders :: headers
  respBody :: bytes
  respBodyStreamed :: bool

text \<open>One constructor per error the package returns; \<open>Wrap\<close> is \<^verbatim>\<open>fmt.Errorf("...: %w", err)\<close>.\<close>

datatype protoErr =
    FrameTooShort nat
  | FramePayloadExceeds nat
  | TruncatedPayload nat nat
  | IoEOF
  | IoUnexpectedEOF
  | StringTooLong nat
  | StringLengthExceeds nat nat
  | TooManyHeaders nat
  | HeaderCountCannotFit nat nat
  | TooManyValues string nat
  | BodyTooLarge nat
  | SubdomainTooLong nat
  | RegisterTooShort nat
  | RegisterTruncated
  | PublicURLTooLong nat
  | RegisterOKTooShort
  | RegisterOKTruncated
  | TCPRegisterTooShort nat
  | VersionTooLong nat
  | Wrap string protoErr
  | HeaderValueErr string protoErr
  | Panic

fun panics :: "protoErr \<Rightarrow> bool" where
  "panics Panic = True"
| "panics (Wrap s e) = panics e"
| "panics (HeaderValueErr k e) = panics e"
| "panics _ = False"

text \<open>\<^verbatim>\<open>err.Error()\<close>; \<open>quote\<close> is the \<^verbatim>\<open>%q\<close> verb (\<^verbatim>\<open>strconv.Quote\<close>).\<close>

fun err_text :: "(string \<Rightarrow> string) \<Rightarrow> protoErr \<Rightarrow> string" where
  "err_text quote (FrameTooShort n) =
     ''frame too short: '' @ dec n @ '' bytes, need at least '' @ dec HeaderSize"
| "err_text quote (FramePayloadExceeds n) =
     ''frame payload exceeds max: '' @ dec n @ '' > '' @ dec MaxFrameSize"
| "err_text quote (TruncatedPayload n m) =
     ''truncated payload: expected '' @ dec n @ '', got '' @ dec m"
| "err_text quote IoEOF = ''EOF''"
| "err_text quote IoUnexpectedEOF = ''unexpected EOF''"
| "err_text quote (StringTooLong n) =
     ''string too long: '' @ dec n @ '' > '' @ dec maxStringLen"
| "err_text quote (StringLengthExceeds n m) =
     ''string length '' @ dec n @ '' exceeds remaining payload '' @ dec m"
| "err_text quote (TooManyHeaders n) =
     ''too many headers: '' @ dec n @ '' > '' @ dec MaxHeaders"
| "err_text quote (HeaderCountCannotFit n m) =
     ''header count '' @ dec n @ '' cannot fit in '' @ dec m @ '' remaining bytes''"
| "err_text quote (TooManyValues k n) =
     ''too many values for header '' @ quote k @ '': '' @ dec n @ '' > '' @ dec MaxValuesPerHeader"
| "err_text quote (BodyTooLarge n) =
     ''body too large: '' @ dec n @ '' > '' @ dec MaxBodySize"
| "err_text quote (SubdomainTooLong n) =
     ''subdomain too long: '' @ dec n @ '' > '' @ dec MaxSubdomainLen"
| "err_text quote (RegisterTooShort n) =
     ''register payload too short: '' @ dec n @ '' bytes''"
| "err_text quote RegisterTruncated = ''truncated register payload''"
| "err_text quote (PublicURLTooLong n) = ''public URL too long: '' @ dec n @ '' > 255''"
| "err_text quote RegisterOKTooShort = ''register response too short''"
| "err_text quote RegisterOKTruncated = ''register response truncated''"
| "err_text quote (TCPRegisterTooShort n) =
     ''tcp register payload too short: '' @ dec n @ '' bytes''"
| "err_text quote (VersionTooLong n) =
     ''version too long: '' @ dec n @ '' > '' @ dec MaxVersionLen"
| "err_text quote (Wrap s e) = s @ '': '' @ err_text quote e"
| "err_text quote (HeaderValueErr k e) = ''header '' @ quote k @ '' value: '' @ err_text quote e"
| "err_text quote Panic = ''''"

section \<open>Checked slices and readers\<close>

text \<open>\<^verbatim>\<open>b[lo:hi]\<close>, \<^verbatim>\<open>b[i]\<close> and \<^verbatim>\<open>binary.BigEndian.UintN(b)\<close>, with the bounds check of the runtime.\<close>

definition slice :: "bytes \<Rightarrow> nat \<Rightarrow> nat \<Rightarrow> protoErr + bytes" where
  "slice b lo hi = (if lo \<le> hi \<and> hi \<le> length b then Inr (take (hi - lo) (drop lo b)) else Inl Panic)"

definition index :: "bytes \<Rightarrow> nat \<Rightarrow> protoErr + u8" where
  "index b i = (if i < length b then Inr (b ! i) else Inl Panic)"

definition uint_at :: "nat \<Rightarrow> bytes \<Rightarrow> protoErr + 'a::len word" where
  "uint_at n b = (if n \<le> length b then Inr (get_be (take n b)) else Inl Panic)"

lemma slice_ok [simp]: "lo \<le> hi \<Longrightarrow> hi \<le> length b \<Longrightarrow> slice b lo hi = Inr (take (hi - lo) (drop lo b))"
  by (simp add: slice_def)

lemma index_ok [simp]: "i < length b \<Longrightarrow> index b i = Inr (b ! i)"
  by (simp add: index_def)

lemma uint_at_ok [simp]: "n \<le> length b \<Longrightarrow> uint_at n b = Inr (get_be (take n b))"
  by (simp add: uint_at_def)

text \<open>\<^verbatim>\<open>io.ReadFull\<close> on a \<^verbatim>\<open>bytes.Reader\<close>, and \<^verbatim>\<open>binary.Read\<close> of a fixed-size integer on top of it.\<close>

definition readFull :: "nat \<Rightarrow> bytes \<Rightarrow> protoErr + bytes \<times> bytes" where
  "readFull n rd =
     (if n \<le> length rd then Inr (take n rd, drop n rd)
      else if rd = [] then Inl IoEOF else Inl IoUnexpectedEOF)"

definition readUint :: "nat \<Rightarrow> bytes \<Rightarrow> protoErr + 'a::len word \<times> bytes" where
  "readUint n rd = and_then (readFull n rd) (\<lambda>(b, rd'). Inr (get_be b, rd'))"

lemma readFull_append [simp, codec]: "length b = n \<Longrightarrow> readFull n (b @ rd) = Inr (b, rd)"
  by (simp add: readFull_def)

lemma readUint_put_be [simp, codec]:
  "LENGTH('a) = 8 * n \<Longrightarrow> readUint n (put_be n w @ rd) = Inr (w :: 'a::len word, rd)"
  by (simp add: readUint_def get_be_put_be)

lemma readFull_Inr:
  "readFull n rd = Inr (b, rd') \<Longrightarrow> rd = b @ rd' \<and> length b = n"
  by (auto simp: readFull_def split: if_splits)

lemma readUint_Inr:
  "readUint n rd = Inr (w :: 'a::len word, rd') \<Longrightarrow> 8 * n \<le> LENGTH('a) \<Longrightarrow>
   rd = put_be n w @ rd' \<and> length rd = n + length rd'"
  by (auto simp: readUint_def and_then_eq_Inr dest!: readFull_Inr intro: put_be_get_be [symmetric])

lemma readFull_no_panic: "readFull n rd = Inl e \<Longrightarrow> \<not> panics e"
  by (auto simp: readFull_def split: if_splits)

lemma readUint_no_panic: "readUint n rd = Inl e \<Longrightarrow> \<not> panics e"
  by (auto simp: readUint_def and_then_eq_Inl dest: readFull_no_panic)

section \<open>Frames\<close>

definition EncodeFrame :: "Frame \<Rightarrow> bytes" where
  "EncodeFrame f =
     ftype f # put_be 8 (TunnelID f) @ put_be 8 (RequestID f)
       @ put_be 4 (of_nat (length (Payload f)) :: u32) @ Payload f"

definition DecodeFrame :: "bytes \<Rightarrow> protoErr + Frame" where
  "DecodeFrame data =
     (if length data < HeaderSize then Inl (FrameTooShort (length data))
      else and_then (and_then (slice data 17 21) (uint_at 4)) (\<lambda>payloadLen :: u32.
        if MaxFrameSize < unat payloadLen then Inl (FramePayloadExceeds (unat payloadLen))
        else if length data < HeaderSize + unat payloadLen
          then Inl (TruncatedPayload (unat payloadLen) (length data - HeaderSize))
        else and_then (index data 0) (\<lambda>t.
          and_then (and_then (slice data 1 9) (uint_at 8)) (\<lambda>tid.
          and_then (and_then (slice data 9 17) (uint_at 8)) (\<lambda>rid.
          and_then (slice data 21 (21 + unat payloadLen)) (\<lambda>p.
            Inr \<lparr>ftype = t, TunnelID = tid, RequestID = rid, Payload = p\<rparr>))))))"

lemma length_EncodeFrame [simp]: "length (EncodeFrame f) = HeaderSize + length (Payload f)"
  by (simp add: EncodeFrame_def HeaderSize_def)

text \<open>The fields of an encoded frame, read back at their fixed offsets.\<close>

lemma EncodeFrame_fields:
  "EncodeFrame f ! 0 = ftype f"
  "take 8 (drop 1 (EncodeFrame f)) = put_be 8 (TunnelID f)"
  "take 8 (drop 9 (EncodeFrame f)) = put_be 8 (RequestID f)"
  "take 4 (drop 17 (EncodeFrame f)) = put_be 4 (of_nat (length (Payload f)) :: u32)"
  "drop 21 (EncodeFrame f) = Payload f"
  by (simp_all add: EncodeFrame_def drop_Cons' drop_append take_append)

lemma DecodeFrame_EncodeFrame:
  assumes "length (Payload f) \<le> MaxFrameSize"
  shows "DecodeFrame (EncodeFrame f @ rest) = Inr f"
proof -
  have u: "unat (of_nat (length (Payload f)) :: u32) = length (Payload f)"
    using assms by (simp add: limit_defs)
  have d: "21 \<le> length (EncodeFrame f)" by (simp add: HeaderSize_def)
  show ?thesis
    using assms d
    by (simp add: DecodeFrame_def EncodeFrame_fields [unfolded One_nat_def] nth_append take_append drop_append
        get_be_put_be u HeaderSize_def)
qed

text \<open>Every accepted message is the encoding of the frame it yields, plus ignored trailing bytes.\<close>

lemma frame_regroup:
  fixes d :: bytes
  assumes "21 + n \<le> length d"
  shows "d = d ! 0 # take 8 (drop 1 d) @ take 8 (drop 9 d) @ take 4 (drop 17 d)
           @ take n (drop 21 d) @ drop (21 + n) d"
proof -
  have split: "\<And>k m. drop k d = take m (drop k d) @ drop (k + m) d"
    by (metis append_take_drop_id drop_drop add.commute)
  have "d = d ! 0 # drop 1 d" using assms by (metis Cons_nth_drop_Suc One_nat_def add_gr_0 drop0 le_less_trans less_le_trans zero_less_numeral)
  also have "drop 1 d = take 8 (drop 1 d) @ take 8 (drop 9 d) @ take 4 (drop 17 d) @ take n (drop 21 d) @ drop (21 + n) d"
    using split [of 1 8] split [of 9 8] split [of 17 4] split [of 21 n] by simp
  finally show ?thesis .
qed

lemma DecodeFrame_InrD:
  assumes "DecodeFrame data = Inr f"
  shows "\<exists>rest. data = EncodeFrame f @ rest \<and> length (Payload f) \<le> MaxFrameSize"
proof -
  let ?n = "unat (get_be (take 4 (drop 17 data)) :: u32)"
  have len: "21 \<le> length data" "?n \<le> MaxFrameSize" "21 + ?n \<le> length data"
    using assms by (auto simp: DecodeFrame_def HeaderSize_def split: if_splits)
  with assms have f: "f = \<lparr>ftype = data ! 0, TunnelID = get_be (take 8 (drop 1 data)),
      RequestID = get_be (take 8 (drop 9 data)), Payload = take ?n (drop 21 data)\<rparr>"
    by (auto simp: DecodeFrame_def HeaderSize_def index_def split: if_splits)
  have be8: "put_be 8 (get_be (take 8 (drop k data)) :: u64) = take 8 (drop k data)"
    if "k + 8 \<le> length data" for k
    using put_be_get_be [where ?'a = "64", of "take 8 (drop k data)"] that by simp
  have be4: "put_be 4 (get_be (take 4 (drop 17 data)) :: u32) = take 4 (drop 17 data)"
    using put_be_get_be [where ?'a = "32", of "take 4 (drop 17 data)"] len by simp
  have pl: "length (Payload f) = ?n" using len f by simp
  have "EncodeFrame f @ drop (21 + ?n) data
      = data ! 0 # take 8 (drop 1 data) @ take 8 (drop 9 data) @ take 4 (drop 17 data)
          @ take ?n (drop 21 data) @ drop (21 + ?n) data"
    unfolding EncodeFrame_def pl using len be8 [of 1] be8 [of 9] be4 by (simp add: f)
  also have "\<dots> = data" by (rule frame_regroup [OF len(3), symmetric])
  finally have "EncodeFrame f @ drop (21 + ?n) data = data" .
  with pl len show ?thesis by metis
qed

lemma DecodeFrame_no_panic: "DecodeFrame data = Inl e \<Longrightarrow> \<not> panics e"
  by (auto simp: DecodeFrame_def HeaderSize_def index_def split: if_splits)

section \<open>Length-prefixed strings\<close>

definition writeString :: "string \<Rightarrow> protoErr + bytes" where
  "writeString s =
     (if length s > maxStringLen then Inl (StringTooLong (length s))
      else Inr (put_be 2 (of_nat (length s) :: u16) @ bytes_of s))"

definition readString :: "bytes \<Rightarrow> protoErr + string \<times> bytes" where
  "readString rd =
     and_then (readUint 2 rd) (\<lambda>(len :: u16, rd').
       if length rd' < unat len then Inl (StringLengthExceeds (unat len) (length rd'))
       else and_then (readFull (unat len) rd') (\<lambda>(b, rd''). Inr (string_of b, rd'')))"

lemma readString_writeString [codec]:
  "writeString s = Inr w \<Longrightarrow> readString (w @ rd) = Inr (s, rd)"
  by (auto simp: writeString_def readString_def limit_defs split: if_splits)

lemma readString_Inr:
  "readString rd = Inr (s, rd') \<Longrightarrow>
   \<exists>w. writeString s = Inr w \<and> rd = w @ rd' \<and> 2 \<le> length w"
  by (auto simp: readString_def and_then_eq_Inr writeString_def limit_defs
      dest!: readUint_Inr readFull_Inr split: if_splits)

lemma readString_no_panic: "readString rd = Inl e \<Longrightarrow> \<not> panics e"
  by (auto simp: readString_def and_then_eq_Inl dest: readUint_no_panic readFull_no_panic
      split: if_splits)

lemma writeString_no_panic: "writeString s = Inl e \<Longrightarrow> \<not> panics e"
  by (auto simp: writeString_def split: if_splits)

lemma writeString_ok: "length s \<le> maxStringLen \<Longrightarrow> \<exists>w. writeString s = Inr w"
  by (simp add: writeString_def)

section \<open>Headers\<close>

text \<open>
  A header map is written in the iteration order of \<^verbatim>\<open>range\<close>, that is the order of the list.
  Reading stores entries one by one, so a repeated key keeps its last values.
\<close>

fun writeValues :: "string \<Rightarrow> string list \<Rightarrow> protoErr + bytes" where
  "writeValues k [] = Inr []"
| "writeValues k (v # vs) =
     and_then (map_err (HeaderValueErr k) (writeString v)) (\<lambda>b.
     and_then (writeValues k vs) (\<lambda>bs. Inr (b @ bs)))"

fun writeHeaderEntries :: "headers \<Rightarrow> protoErr + bytes" where
  "writeHeaderEntries [] = Inr []"
| "writeHeaderEntries ((k, vals) # rest) =
     and_then (map_err (Wrap ''header key'') (writeString k)) (\<lambda>kb.
     and_then (writeValues k vals) (\<lambda>vb.
     and_then (writeHeaderEntries rest) (\<lambda>bs.
       Inr (kb @ put_be 4 (of_nat (length vals) :: u32) @ vb @ bs))))"

definition writeHeaders :: "headers \<Rightarrow> protoErr + bytes" where
  "writeHeaders hs =
     and_then (writeHeaderEntries hs) (\<lambda>bs. Inr (put_be 4 (of_nat (length hs) :: u32) @ bs))"

fun readValues :: "nat \<Rightarrow> bytes \<Rightarrow> protoErr + string list \<times> bytes" where
  "readValues 0 rd = Inr ([], rd)"
| "readValues (Suc n) rd =
     and_then (map_err (Wrap ''read header value'') (readString rd)) (\<lambda>(v, rd').
     and_then (readValues n rd') (\<lambda>(vs, rd''). Inr (v # vs, rd'')))"

fun readHeaderEntries :: "nat \<Rightarrow> headers \<Rightarrow> bytes \<Rightarrow> protoErr + headers \<times> bytes" where
  "readHeaderEntries 0 hs rd = Inr (hs, rd)"
| "readHeaderEntries (Suc n) hs rd =
     and_then (map_err (Wrap ''read header key'') (readString rd)) (\<lambda>(k, rd1).
     and_then (map_err (Wrap ''read header value count'') (readUint 4 rd1)) (\<lambda>(valueCount :: u32, rd2).
       if MaxValuesPerHeader < unat valueCount then Inl (TooManyValues k (unat valueCount))
       else and_then (readValues (unat valueCount) rd2) (\<lambda>(vals, rd3).
         readHeaderEntries n (AList.update k vals hs) rd3)))"

definition readHeaders :: "bytes \<Rightarrow> protoErr + headers \<times> bytes" where
  "readHeaders rd =
     and_then (map_err (Wrap ''read header count'') (readUint 4 rd)) (\<lambda>(count :: u32, rd').
       if MaxHeaders < unat count then Inl (TooManyHeaders (unat count))
       else if length rd' < unat count * 2 then Inl (HeaderCountCannotFit (unat count) (length rd'))
       else readHeaderEntries (unat count) [] rd')"

text \<open>The limits under which a header map survives the trip: the reader's own limits.\<close>

definition header_fits :: "string \<times> string list \<Rightarrow> bool" where
  "header_fits h \<longleftrightarrow> length (fst h) \<le> maxStringLen \<and> length (snd h) \<le> MaxValuesPerHeader \<and>
     list_all (\<lambda>v. length v \<le> maxStringLen) (snd h)"

definition headers_fit :: "headers \<Rightarrow> bool" where
  "headers_fit hs \<longleftrightarrow> distinct (map fst hs) \<and> length hs \<le> MaxHeaders \<and> list_all header_fits hs"

lemma readValues_writeValues:
  "writeValues k vs = Inr w \<Longrightarrow> readValues (length vs) (w @ rd) = Inr (vs, rd)"
  by (induction vs arbitrary: w) (auto simp: and_then_eq_Inr readString_writeString)

lemma writeValues_ok: "list_all (\<lambda>v. length v \<le> maxStringLen) vs \<Longrightarrow> \<exists>w. writeValues k vs = Inr w"
  by (induction vs) (auto dest: writeString_ok)

lemma writeHeaderEntries_ok: "list_all header_fits hs \<Longrightarrow> \<exists>w. writeHeaderEntries hs = Inr w"
proof (induction hs)
  case (Cons h hs)
  then show ?case
    using writeString_ok [of "fst h"] writeValues_ok [of "snd h" "fst h"]
    by (cases h) (auto simp: header_fits_def)
qed simp

lemma writeHeaderEntries_length: "writeHeaderEntries hs = Inr w \<Longrightarrow> 2 * length hs \<le> length w"
  by (induction hs arbitrary: w) (fastforce simp: and_then_eq_Inr)+

lemma readHeaderEntries_writeHeaderEntries:
  "writeHeaderEntries hs = Inr w \<Longrightarrow> list_all header_fits hs \<Longrightarrow> distinct (map fst (acc @ hs)) \<Longrightarrow>
   readHeaderEntries (length hs) acc (w @ rd) = Inr (acc @ hs, rd)"
proof (induction hs arbitrary: w acc rule: writeHeaderEntries.induct)
  case (2 k vals rest)
  then obtain kb vb bs where
    kb: "writeString k = Inr kb" and vb: "writeValues k vals = Inr vb"
    and bs: "writeHeaderEntries rest = Inr bs"
    and w: "w = kb @ put_be 4 (of_nat (length vals) :: u32) @ vb @ bs"
    by (auto simp: and_then_eq_Inr)
  have cnt: "length vals \<le> 64" and new: "k \<notin> fst ` set acc"
    using "2.prems" by (auto simp: header_fits_def limit_defs)
  have "readHeaderEntries (length rest) (acc @ [(k, vals)]) (bs @ rd) = Inr ((acc @ [(k, vals)]) @ rest, rd)"
    by (rule "2.IH" [OF kb [THEN map_err_eq_Inr [THEN iffD2]] vb bs]) (use "2.prems" in auto)
  then show ?case
    using cnt new by (simp add: w readString_writeString [OF kb] readValues_writeValues [OF vb]
        update_fresh_append limit_defs)
qed simp

lemma readHeaders_writeHeaders:
  assumes "headers_fit hs" "writeHeaders hs = Inr w"
  shows "readHeaders (w @ rd) = Inr (hs, rd)"
proof -
  obtain bs where bs: "writeHeaderEntries hs = Inr bs"
    and w: "w = put_be 4 (of_nat (length hs) :: u32) @ bs"
    using assms by (auto simp: writeHeaders_def and_then_eq_Inr)
  have "length hs \<le> 256" using assms by (simp add: headers_fit_def limit_defs)
  then show ?thesis
    using assms writeHeaderEntries_length [OF bs]
      readHeaderEntries_writeHeaderEntries [OF bs, of "[]" rd]
    by (simp add: readHeaders_def w headers_fit_def limit_defs)
qed

lemma writeHeaders_ok: "headers_fit hs \<Longrightarrow> \<exists>w. writeHeaders hs = Inr w"
  using writeHeaderEntries_ok by (fastforce simp: writeHeaders_def headers_fit_def)

text \<open>What the reader accepts is within the limits.\<close>

lemma readString_short: "readString rd = Inr (s, rd') \<Longrightarrow> length s \<le> maxStringLen"
  by (drule readString_Inr) (auto simp: writeString_def split: if_splits)

lemma readValues_fit:
  "readValues n rd = Inr (vs, rd') \<Longrightarrow>
   length vs = n \<and> list_all (\<lambda>v. length v \<le> maxStringLen) vs"
  by (induction n arbitrary: rd vs) (auto simp: and_then_eq_Inr dest: readString_short)

lemma readHeaderEntries_fit:
  "readHeaderEntries n acc rd = Inr (hs, rd') \<Longrightarrow>
   distinct (map fst acc) \<Longrightarrow> list_all header_fits acc \<Longrightarrow>
   distinct (map fst hs) \<and> list_all header_fits hs \<and> length hs \<le> length acc + n"
proof (induction n arbitrary: acc rd)
  case (Suc n)
  then obtain k rd1 vc rd2 vals rd3 where
    k: "readString rd = Inr (k, rd1)" and vc: "\<not> MaxValuesPerHeader < unat (vc :: u32)"
    and vals: "readValues (unat vc) rd2 = Inr (vals, rd3)"
    and rest: "readHeaderEntries n (AList.update k vals acc) rd3 = Inr (hs, rd')"
    by (auto simp: and_then_eq_Inr split: if_splits)
  have fits: "header_fits (k, vals)"
    using readString_short [OF k] readValues_fit [OF vals] vc by (simp add: header_fits_def)
  have "list_all header_fits (AList.update k vals acc)"
    using set_update_subset [of k vals acc] Suc.prems(3) fits by (auto simp: list_all_iff)
  from Suc.IH [OF rest distinct_update [OF Suc.prems(2)] this]
  show ?case using length_update_le [of k vals acc] by auto
qed simp

lemma readHeaders_fit: "readHeaders rd = Inr (hs, rd') \<Longrightarrow> headers_fit hs"
  by (auto simp: readHeaders_def and_then_eq_Inr headers_fit_def dest!: readHeaderEntries_fit
      split: if_splits)

lemma readValues_no_panic: "readValues n rd = Inl e \<Longrightarrow> \<not> panics e"
  by (induction n arbitrary: rd e)
    (auto simp: and_then_eq_Inl map_err_eq_Inl dest: readString_no_panic)

lemma readHeaderEntries_no_panic: "readHeaderEntries n hs rd = Inl e \<Longrightarrow> \<not> panics e"
  by (induction n arbitrary: hs rd e)
    (auto simp: and_then_eq_Inl map_err_eq_Inl
      dest: readString_no_panic readUint_no_panic readValues_no_panic split: if_splits)

lemma readHeaders_no_panic: "readHeaders rd = Inl e \<Longrightarrow> \<not> panics e"
  by (auto simp: readHeaders_def and_then_eq_Inl map_err_eq_Inl
      dest: readUint_no_panic readHeaderEntries_no_panic split: if_splits)

section \<open>Bodies, requests and responses\<close>

definition writeBody :: "bytes \<Rightarrow> bool \<Rightarrow> bytes" where
  "writeBody body streamed =
     (if streamed then put_be 4 StreamedBodyLen
      else put_be 4 (of_nat (length body) :: u32) @ body)"

definition readBody :: "bytes \<Rightarrow> protoErr + (bytes \<times> bool) \<times> bytes" where
  "readBody rd =
     and_then (map_err (Wrap ''read body length'') (readUint 4 rd)) (\<lambda>(bodyLen :: u32, rd').
       if bodyLen = StreamedBodyLen then Inr (([], True), rd')
       else if MaxBodySize < unat bodyLen then Inl (BodyTooLarge (unat bodyLen))
       else and_then (map_err (Wrap ''read body'') (readFull (unat bodyLen) rd')) (\<lambda>(body, rd'').
         Inr ((body, False), rd'')))"

definition EncodeHTTPRequest :: "HTTPRequest \<Rightarrow> protoErr + bytes" where
  "EncodeHTTPRequest req =
     and_then (map_err (Wrap ''method'') (writeString (reqMethod req))) (\<lambda>m.
     and_then (map_err (Wrap ''path'') (writeString (reqPath req))) (\<lambda>p.
     and_then (writeHeaders (reqHeaders req)) (\<lambda>h.
       Inr (m @ p @ h @ writeBody (reqBody req) (reqBodyStreamed req)))))"

definition DecodeHTTPRequest :: "bytes \<Rightarrow> protoErr + HTTPRequest" where
  "DecodeHTTPRequest data =
     and_then (map_err (Wrap ''read method'') (readString data)) (\<lambda>(m, rd1).
     and_then (map_err (Wrap ''read path'') (readString rd1)) (\<lambda>(p, rd2).
     and_then (readHeaders rd2) (\<lambda>(h, rd3).
     and_then (readBody rd3) (\<lambda>((body, streamed), rd4).
       Inr \<lparr>reqMethod = m, reqPath = p, reqHeaders = h, reqBody = body,
            reqBodyStreamed = streamed\<rparr>))))"

definition EncodeHTTPResponse :: "HTTPResponse \<Rightarrow> protoErr + bytes" where
  "EncodeHTTPResponse resp =
     and_then (writeHeaders (respHeaders resp)) (\<lambda>h.
       Inr (put_be 2 (respStatusCode resp) @ h @ writeBody (respBody resp) (respBodyStreamed resp)))"

definition DecodeHTTPResponse :: "bytes \<Rightarrow> protoErr + HTTPResponse" where
  "DecodeHTTPResponse data =
     and_then (map_err (Wrap ''read status code'') (readUint 2 data)) (\<lambda>(code, rd1).
     and_then (readHeaders rd1) (\<lambda>(h, rd2).
     and_then (readBody rd2) (\<lambda>((body, streamed), rd3).
       Inr \<lparr>respStatusCode = code, respHeaders = h, respBody = body,
            respBodyStreamed = streamed\<rparr>)))"

definition body_fits :: "bytes \<Rightarrow> bool \<Rightarrow> bool" where
  "body_fits body streamed \<longleftrightarrow> (if streamed then body = [] else length body \<le> MaxBodySize)"

definition request_fits :: "HTTPRequest \<Rightarrow> bool" where
  "request_fits r \<longleftrightarrow> length (reqMethod r) \<le> maxStringLen \<and> length (reqPath r) \<le> maxStringLen \<and>
     headers_fit (reqHeaders r) \<and> body_fits (reqBody r) (reqBodyStreamed r)"

definition response_fits :: "HTTPResponse \<Rightarrow> bool" where
  "response_fits r \<longleftrightarrow> headers_fit (respHeaders r) \<and> body_fits (respBody r) (respBodyStreamed r)"

lemma readBody_writeBody:
  "body_fits body streamed \<Longrightarrow> readBody (writeBody body streamed @ rd) = Inr ((body, streamed), rd)"
proof (cases streamed)
  case False
  moreover assume "body_fits body streamed"
  ultimately have len: "length body \<le> 33554432" by (simp add: body_fits_def limit_defs)
  then have u: "unat (of_nat (length body) :: u32) = length body" by simp
  moreover have "(of_nat (length body) :: u32) \<noteq> StreamedBodyLen"
  proof
    assume "(of_nat (length body) :: u32) = StreamedBodyLen"
    then have "length body = unat StreamedBodyLen" using u by simp
    with len show False by (simp add: StreamedBodyLen_def)
  qed
  ultimately show ?thesis
    using False len by (simp add: readBody_def writeBody_def limit_defs)
qed (simp add: readBody_def writeBody_def body_fits_def)

lemma readBody_fits: "readBody rd = Inr ((body, streamed), rd') \<Longrightarrow> body_fits body streamed"
  by (auto simp: readBody_def and_then_eq_Inr body_fits_def dest!: readFull_Inr split: if_splits)

lemma readBody_no_panic: "readBody rd = Inl e \<Longrightarrow> \<not> panics e"
  by (auto simp: readBody_def and_then_eq_Inl map_err_eq_Inl
      dest: readUint_no_panic readFull_no_panic split: if_splits)

lemma DecodeHTTPRequest_no_panic: "DecodeHTTPRequest data = Inl e \<Longrightarrow> \<not> panics e"
  by (auto simp: DecodeHTTPRequest_def and_then_eq_Inl map_err_eq_Inl
      dest: readString_no_panic readHeaders_no_panic readBody_no_panic)

lemma DecodeHTTPResponse_no_panic: "DecodeHTTPResponse data = Inl e \<Longrightarrow> \<not> panics e"
  by (auto simp: DecodeHTTPResponse_def and_then_eq_Inl map_err_eq_Inl
      dest: readUint_no_panic readHeaders_no_panic readBody_no_panic)

section \<open>Codecs\<close>

text \<open>
  Client and server share one wire-format definition; what each relies on is that the other's
  encoder and its own decoder fit together. The contract: encoding succeeds on the values in
  the domain and decoding returns them; a strict codec moreover yields only values of the domain.
\<close>

locale wire_codec =
  fixes enc :: "'a \<Rightarrow> protoErr + bytes"
    and decode :: "bytes \<Rightarrow> protoErr + 'a"
    and dom_ok :: "'a \<Rightarrow> bool"
  assumes enc_ok: "dom_ok x \<Longrightarrow> \<exists>b. enc x = Inr b"
    and decode_enc: "dom_ok x \<Longrightarrow> enc x = Inr b \<Longrightarrow> decode b = Inr x"
begin

lemma round_trip: "dom_ok x \<Longrightarrow> and_then (enc x) decode = Inr x"
  using enc_ok decode_enc by fastforce

lemma enc_inj: "dom_ok x \<Longrightarrow> dom_ok y \<Longrightarrow> enc x = enc y \<Longrightarrow> x = y"
  by (metis enc_ok decode_enc Inr_inject)

end

locale strict_codec = wire_codec +
  assumes decode_dom: "decode b = Inr x \<Longrightarrow> dom_ok x"
begin

lemma reencode: "decode b = Inr x \<Longrightarrow> and_then (enc x) decode = Inr x"
  by (rule round_trip) (rule decode_dom)

lemma same_value_same_encoding:
  "decode b = Inr x \<Longrightarrow> decode b' = Inr y \<Longrightarrow> enc x = enc y \<Longrightarrow> x = y"
  by (blast intro: enc_inj decode_dom)

end

interpretation frameC: strict_codec "\<lambda>f. Inr (EncodeFrame f)" DecodeFrame
  "\<lambda>f. length (Payload f) \<le> MaxFrameSize"
  by unfold_locales (use DecodeFrame_EncodeFrame [where rest = "[]"] DecodeFrame_InrD in auto)

interpretation reqC: strict_codec EncodeHTTPRequest DecodeHTTPRequest request_fits
proof unfold_locales
  fix r
  assume r: "request_fits r"
  then show "\<exists>b. EncodeHTTPRequest r = Inr b"
    by (auto simp: EncodeHTTPRequest_def request_fits_def and_then_eq_Inr
        dest!: writeString_ok writeHeaders_ok)
  fix b
  assume "EncodeHTTPRequest r = Inr b"
  with r show "DecodeHTTPRequest b = Inr r"
    by (auto simp: EncodeHTTPRequest_def DecodeHTTPRequest_def request_fits_def and_then_eq_Inr
        readString_writeString readHeaders_writeHeaders readBody_writeBody [where rd = "[]", simplified])
next
  fix b r
  assume "DecodeHTTPRequest b = Inr r"
  then show "request_fits r"
    by (auto simp: DecodeHTTPRequest_def request_fits_def and_then_eq_Inr
        dest: readString_short readHeaders_fit readBody_fits)
qed

interpretation respC: strict_codec EncodeHTTPResponse DecodeHTTPResponse response_fits
proof unfold_locales
  fix r
  assume r: "response_fits r"
  then show "\<exists>b. EncodeHTTPResponse r = Inr b"
    by (auto simp: EncodeHTTPResponse_def response_fits_def dest!: writeHeaders_ok)
  fix b
  assume "EncodeHTTPResponse r = Inr b"
  with r show "DecodeHTTPResponse b = Inr r"
    by (auto simp: EncodeHTTPResponse_def DecodeHTTPResponse_def response_fits_def and_then_eq_Inr
        readHeaders_writeHeaders readBody_writeBody [where rd = "[]", simplified])
next
  fix b r
  assume "DecodeHTTPResponse b = Inr r"
  then show "response_fits r"
    by (auto simp: DecodeHTTPResponse_def response_fits_def and_then_eq_Inr
        dest: readHeaders_fit readBody_fits)
qed

section \<open>Registration and authentication payloads\<close>

definition EncodeRegister :: "u16 \<Rightarrow> string \<Rightarrow> protoErr + bytes" where
  "EncodeRegister port subdomain =
     (if length subdomain > MaxSubdomainLen then Inl (SubdomainTooLong (length subdomain))
      else Inr (put_be 2 port @
        (if subdomain \<noteq> '''' then of_nat (length subdomain) # bytes_of subdomain else [])))"

definition DecodeRegister :: "bytes \<Rightarrow> protoErr + u16 \<times> string" where
  "DecodeRegister payload =
     (if length payload < 2 then Inl (RegisterTooShort (length payload))
      else and_then (and_then (slice payload 0 2) (uint_at 2)) (\<lambda>port.
        if 3 \<le> length payload
        then and_then (index payload 2) (\<lambda>n.
          if MaxSubdomainLen < unat n then Inl (SubdomainTooLong (unat n))
          else if length payload < 3 + unat n then Inl RegisterTruncated
          else and_then (slice payload 3 (3 + unat n)) (\<lambda>sub. Inr (port, string_of sub)))
        else Inr (port, '''')))"

definition EncodeRegisterOK :: "string \<Rightarrow> u64 \<Rightarrow> protoErr + bytes" where
  "EncodeRegisterOK publicURL tunnelID =
     (if length publicURL > 255 then Inl (PublicURLTooLong (length publicURL))
      else Inr (of_nat (length publicURL) # bytes_of publicURL @ put_be 8 tunnelID))"

definition DecodeRegisterOK :: "bytes \<Rightarrow> protoErr + string \<times> u64" where
  "DecodeRegisterOK payload =
     (if length payload < 1 then Inl RegisterOKTooShort
      else and_then (index payload 0) (\<lambda>n.
        if length payload < 1 + unat n + 8 then Inl RegisterOKTruncated
        else and_then (slice payload 1 (1 + unat n)) (\<lambda>url.
          and_then (and_then (slice payload (1 + unat n) (length payload)) (uint_at 8)) (\<lambda>tid.
            Inr (string_of url, tid)))))"

definition EncodeRegisterTCP :: "u16 \<Rightarrow> u16 \<Rightarrow> bytes" where
  "EncodeRegisterTCP localPort remotePort = put_be 2 localPort @ put_be 2 remotePort"

definition DecodeRegisterTCP :: "bytes \<Rightarrow> protoErr + u16 \<times> u16" where
  "DecodeRegisterTCP payload =
     (if length payload < 4 then Inl (TCPRegisterTooShort (length payload))
      else and_then (and_then (slice payload 0 2) (uint_at 2)) (\<lambda>l.
        and_then (and_then (slice payload 2 4) (uint_at 2)) (\<lambda>r. Inr (l, r))))"

definition EncodeAuth :: "string \<Rightarrow> string \<Rightarrow> protoErr + bytes" where
  "EncodeAuth token clientVersion =
     (if length clientVersion > MaxVersionLen then Inl (VersionTooLong (length clientVersion))
      else and_then (map_err (Wrap ''token'') (writeString token)) (\<lambda>t.
        Inr (t @ (case writeString clientVersion of Inl _ \<Rightarrow> [] | Inr v \<Rightarrow> v))))"

definition DecodeAuth :: "bytes \<Rightarrow> protoErr + string \<times> string" where
  "DecodeAuth payload =
     and_then (map_err (Wrap ''read token'') (readString payload)) (\<lambda>(token, rd).
       if length rd < 2 then Inr (token, '''')
       else and_then (map_err (Wrap ''read version'') (readString rd)) (\<lambda>(clientVersion, _).
         Inr (token, clientVersion)))"

definition EncodeAuthOK :: "string \<Rightarrow> protoErr + bytes" where
  "EncodeAuthOK serverVersion =
     (if length serverVersion > MaxVersionLen then Inl (VersionTooLong (length serverVersion))
      else Inr (case writeString serverVersion of Inl _ \<Rightarrow> [] | Inr v \<Rightarrow> v))"

definition DecodeAuthOK :: "bytes \<Rightarrow> protoErr + string" where
  "DecodeAuthOK payload =
     (if payload = [] then Inr ''''
      else and_then (map_err (Wrap ''read version'') (readString payload)) (\<lambda>(v, _). Inr v))"

text \<open>Decoders with fixed offsets, on an encoder's output and in general.\<close>

lemma DecodeRegister_dom: "DecodeRegister b = Inr (p, s) \<Longrightarrow> length s \<le> MaxSubdomainLen"
  by (auto simp: DecodeRegister_def and_then_eq_Inr slice_def split: if_splits)

lemma DecodeRegister_no_panic: "DecodeRegister b = Inl e \<Longrightarrow> \<not> panics e"
  by (auto simp: DecodeRegister_def and_then_eq_Inl split: if_splits)

lemma DecodeRegisterOK_no_panic: "DecodeRegisterOK b = Inl e \<Longrightarrow> \<not> panics e"
  by (auto simp: DecodeRegisterOK_def and_then_eq_Inl index_def split: if_splits)

lemma DecodeRegisterTCP_no_panic: "DecodeRegisterTCP b = Inl e \<Longrightarrow> \<not> panics e"
  by (auto simp: DecodeRegisterTCP_def and_then_eq_Inl split: if_splits)

lemma DecodeAuthOK_no_panic: "DecodeAuthOK b = Inl e \<Longrightarrow> \<not> panics e"
  by (auto simp: DecodeAuthOK_def and_then_eq_Inl map_err_eq_Inl dest: readString_no_panic split: if_splits sum.splits)

lemma DecodeAuth_no_panic: "DecodeAuth b = Inl e \<Longrightarrow> \<not> panics e"
  by (auto simp: DecodeAuth_def and_then_eq_Inl map_err_eq_Inl dest: readString_no_panic
      split: if_splits)

interpretation regC: strict_codec "\<lambda>(port, sub). EncodeRegister port sub" DecodeRegister
  "\<lambda>(port, sub). length sub \<le> MaxSubdomainLen"
proof unfold_locales
  fix x :: "u16 \<times> string" and b
  assume "case x of (port, sub) \<Rightarrow> length sub \<le> MaxSubdomainLen"
    and "(case x of (port, sub) \<Rightarrow> EncodeRegister port sub) = Inr b"
  then show "DecodeRegister b = Inr x"
    by (cases x) (auto simp: EncodeRegister_def DecodeRegister_def limit_defs get_be_put_be
        nth_append split: if_splits)
next
  fix b x
  assume "DecodeRegister b = Inr x"
  then show "case x of (port, sub) \<Rightarrow> length sub \<le> MaxSubdomainLen"
    by (auto dest: DecodeRegister_dom)
qed (auto simp: EncodeRegister_def)

interpretation regOkC: strict_codec "\<lambda>(url, tid). EncodeRegisterOK url tid" DecodeRegisterOK
  "\<lambda>(url, tid). length url \<le> 255"
proof unfold_locales
  fix x :: "string \<times> u64" and b
  assume "case x of (url, tid) \<Rightarrow> length url \<le> 255"
    and "(case x of (url, tid) \<Rightarrow> EncodeRegisterOK url tid) = Inr b"
  then show "DecodeRegisterOK b = Inr x"
    by (cases x) (auto simp: EncodeRegisterOK_def DecodeRegisterOK_def get_be_put_be)
next
  fix b x
  assume "DecodeRegisterOK b = Inr x"
  then show "case x of (url, tid) \<Rightarrow> length url \<le> 255"
    by (auto simp: DecodeRegisterOK_def and_then_eq_Inr slice_def not_less [symmetric] split: if_splits)
qed (auto simp: EncodeRegisterOK_def)

interpretation regTcpC: strict_codec "\<lambda>(l, r). Inr (EncodeRegisterTCP l r)" DecodeRegisterTCP
  "\<lambda>_. True"
  by unfold_locales (auto simp: EncodeRegisterTCP_def DecodeRegisterTCP_def get_be_put_be)

interpretation authC: wire_codec "\<lambda>(token, ver). EncodeAuth token ver" DecodeAuth
  "\<lambda>(token, ver). length token \<le> maxStringLen \<and> length ver \<le> MaxVersionLen"
proof unfold_locales
  fix x :: "string \<times> string" and b
  assume x: "case x of (token, ver) \<Rightarrow> length token \<le> maxStringLen \<and> length ver \<le> MaxVersionLen"
  obtain token ver where tv: "x = (token, ver)" by (cases x)
  obtain t v where w: "writeString token = Inr t" "writeString ver = Inr v"
    using x writeString_ok [of token] writeString_ok [of ver] by (auto simp: tv limit_defs)
  have v2: "2 \<le> length v" using w(2) by (auto simp: writeString_def split: if_splits)
  assume "(case x of (token, ver) \<Rightarrow> EncodeAuth token ver) = Inr b"
  with x w have "b = t @ v" by (simp add: tv EncodeAuth_def)
  then show "DecodeAuth b = Inr x"
    using v2 readString_writeString [OF w(2), of "[]"]
    by (simp add: tv DecodeAuth_def readString_writeString [OF w(1)])
qed (auto simp: EncodeAuth_def writeString_def)

interpretation authOkC: wire_codec EncodeAuthOK DecodeAuthOK "\<lambda>v. length v \<le> MaxVersionLen"
proof unfold_locales
  fix ver :: string and b
  assume v: "length ver \<le> MaxVersionLen"
  then obtain w where w: "writeString ver = Inr w" using writeString_ok [of ver] by (auto simp: limit_defs)
  assume "EncodeAuthOK ver = Inr b"
  with v w have "b = w" by (simp add: EncodeAuthOK_def)
  moreover have "w \<noteq> []" using w by (auto simp: writeString_def numeral_2_eq_2 split: if_splits)
  ultimately show "DecodeAuthOK b = Inr ver"
    using readString_writeString [OF w, of "[]"] by (simp add: DecodeAuthOK_def)
qed (auto simp: EncodeAuthOK_def)

section \<open>WebSocket upgrades\<close>

definition containsWebSocket :: "string list \<Rightarrow> bool" where
  "containsWebSocket vals =
     list_ex (\<lambda>v. list_ex (\<lambda>part. equalFold (trimSpace part) ''websocket'') (split_on CHR '','' v)) vals"

text \<open>Server side: \<^verbatim>\<open>r.Header["Upgrade"]\<close>, the empty list when the key is absent.\<close>

definition IsWebSocketUpgrade :: "headers \<Rightarrow> bool" where
  "IsWebSocketUpgrade hs =
     containsWebSocket (case map_of hs ''Upgrade'' of None \<Rightarrow> [] | Some vs \<Rightarrow> vs)"

text \<open>Client side: any key that equals \<^verbatim>\<open>Upgrade\<close> up to case.\<close>

definition IsWebSocketUpgradeReq :: "HTTPRequest \<Rightarrow> bool" where
  "IsWebSocketUpgradeReq req =
     list_ex (\<lambda>(k, vals). equalFold k ''Upgrade'' \<and> containsWebSocket vals) (reqHeaders req)"

section \<open>Properties\<close>

definition no_panic :: "protoErr + 'a \<Rightarrow> bool" where
  "no_panic r = (case r of Inl e \<Rightarrow> \<not> panics e | Inr _ \<Rightarrow> True)"



text \<open>
  C22. Framing: a message is accepted exactly when it is the encoding of a frame whose payload
  is within the frame limit, followed by any bytes (which are ignored), and then that frame is
  what the decoder returns. This is the round trip and its converse in one statement.
\<close>

theorem DecodeFrame_iff:
  "DecodeFrame data = Inr f \<longleftrightarrow>
     length (Payload f) \<le> MaxFrameSize \<and> (\<exists>rest. data = EncodeFrame f @ rest)"
  using DecodeFrame_InrD DecodeFrame_EncodeFrame by blast

text \<open>
  C24. None of the eight decoders of the protocol package panics, whatever bytes arrive: every slice
  expression and every fixed-offset integer read stays within bounds.
\<close>

theorem decoders_never_panic:
  "no_panic (DecodeFrame d) \<and> no_panic (DecodeHTTPRequest d) \<and> no_panic (DecodeHTTPResponse d) \<and>
   no_panic (DecodeRegister d) \<and> no_panic (DecodeRegisterOK d) \<and> no_panic (DecodeRegisterTCP d) \<and>
   no_panic (DecodeAuth d) \<and> no_panic (DecodeAuthOK d)"
  by (intro conjI)
    (auto simp: no_panic_def split: sum.split dest: DecodeFrame_no_panic DecodeHTTPRequest_no_panic
      DecodeHTTPResponse_no_panic DecodeRegister_no_panic DecodeRegisterOK_no_panic
      DecodeRegisterTCP_no_panic DecodeAuth_no_panic DecodeAuthOK_no_panic)

text \<open>
  C23. A forwarded HTTP request survives the wire: whenever method, path, headers and body are
  within the limits, in whatever order the header map is iterated, encoding succeeds and the
  client decodes the same request, including the marker of a streamed body.
\<close>

theorem HTTPRequest_round_trip:
  assumes "request_fits req"
  shows "\<exists>payload. EncodeHTTPRequest req = Inr payload \<and> DecodeHTTPRequest payload = Inr req"
  using reqC.enc_ok [OF assms] reqC.decode_enc [OF assms] by blast

theorem HTTPRequest_round_trip_witness:
  "\<exists>payload. EncodeHTTPRequest \<lparr>reqMethod = ''GET'', reqPath = ''/a'', reqHeaders = [(''Host'', [''x''])],
       reqBody = [1, 2], reqBodyStreamed = False\<rparr> = Inr payload \<and>
     DecodeHTTPRequest payload = Inr \<lparr>reqMethod = ''GET'', reqPath = ''/a'',
       reqHeaders = [(''Host'', [''x''])], reqBody = [1, 2], reqBodyStreamed = False\<rparr>"
  by (rule HTTPRequest_round_trip)
    (simp add: request_fits_def headers_fit_def header_fits_def body_fits_def limit_defs)

text \<open>
  A response survives the wire in the same way, and whatever the server accepts as a response
  is within the limits and re-encodes to an equivalent payload, so relaying it cannot fail.
\<close>

theorem HTTPResponse_accepted_stable:
  assumes "DecodeHTTPResponse data = Inr resp"
  shows "response_fits resp \<and> and_then (EncodeHTTPResponse resp) DecodeHTTPResponse = Inr resp"
  using respC.decode_dom [OF assms] respC.reencode [OF assms] by simp

theorem HTTPResponse_accepted_stable_witness:
  "response_fits \<lparr>respStatusCode = 200, respHeaders = [], respBody = [7], respBodyStreamed = False\<rparr> \<and>
   and_then (EncodeHTTPResponse \<lparr>respStatusCode = 200, respHeaders = [], respBody = [7],
     respBodyStreamed = False\<rparr>) DecodeHTTPResponse =
   Inr \<lparr>respStatusCode = 200, respHeaders = [], respBody = [7], respBodyStreamed = False\<rparr>"
  by (rule HTTPResponse_accepted_stable [of "[0, 200, 0, 0, 0, 0, 0, 0, 0, 1, 7]"])
    (simp add: DecodeHTTPResponse_def readHeaders_def readBody_def readUint_def readFull_def
      get_be_def limit_defs StreamedBodyLen_def)

text \<open>
  Registration payloads: what the server reads is what the client asked for, for every port and
  every subdomain up to 63 bytes (the empty one included); a longer one is refused by the encoder.
  The server's reply gives the client the same URL and tunnel ID, for URLs up to 255 bytes.
\<close>

theorem register_payload_round_trips:
  "and_then (EncodeRegister port sub) DecodeRegister =
     (if length sub \<le> MaxSubdomainLen then Inr (port, sub) else Inl (SubdomainTooLong (length sub))) \<and>
   and_then (EncodeRegisterOK url tid) DecodeRegisterOK =
     (if length url \<le> 255 then Inr (url, tid) else Inl (PublicURLTooLong (length url))) \<and>
   DecodeRegisterTCP (EncodeRegisterTCP l r) = Inr (l, r)"
  using regC.round_trip [of "(port, sub)"] regOkC.round_trip [of "(url, tid)"]
    regTcpC.round_trip [of "(l, r)"]
  by (auto simp: EncodeRegister_def EncodeRegisterOK_def)

text \<open>
  The handshake: token and client version are recovered from a new client's payload, and the
  payload of an older client, which carries the token alone, is accepted with an empty version.
\<close>

theorem auth_payload_round_trip:
  assumes "length token \<le> maxStringLen" and "length ver \<le> MaxVersionLen"
  shows "and_then (EncodeAuth token ver) DecodeAuth = Inr (token, ver) \<and>
         and_then (writeString token) DecodeAuth = Inr (token, '''')"
proof
  show "and_then (EncodeAuth token ver) DecodeAuth = Inr (token, ver)"
    using authC.round_trip [of "(token, ver)"] assms by simp
  obtain t where "writeString token = Inr t" using writeString_ok assms(1) by blast
  then show "and_then (writeString token) DecodeAuth = Inr (token, '''')"
    using readString_writeString [of token t "[]"] by (simp add: DecodeAuth_def)
qed

theorem auth_payload_round_trip_witness:
  "and_then (EncodeAuth ''secret'' ''1.0'') DecodeAuth = Inr (''secret'', ''1.0'') \<and>
   and_then (writeString ''secret'') DecodeAuth = Inr (''secret'', '''')"
  by (rule auth_payload_round_trip) (simp_all add: limit_defs)

end
