(* ===== verification/Client.thy ===== *)
theory Client
  imports Flags Protocol
begin

text \<open>
  The client's tunnel, \<^verbatim>\<open>internal/client/tunnel.go\<close>: its state, the table of forwards, the connection
  set-up, adding and removing forwards at run time, and the control socket. Objects the code shares
  by pointer (relays, upload streams, cancel signals, result channels) live in lists and are named by
  their index; the maps hold indices. Writes succeed or fail as an argument says, and \<open>ctOut\<close> is what
  was written.
\<close>

section \<open>State\<close>

type_synonym addr = nat

record CForward =
  fwTunnelID :: u64
  fwPort :: u16
  fwURL :: string

record streamRelay =
  srOpen :: bool
  srDone :: bool
  srWritten :: bytes

record bodyStream =
  bsCh :: "bytes list"
  bsClosed :: bool
  bsAborted :: bool

datatype addErr =
    AddBusy
  | AddEncode protoErr
  | AddSend
  | AddRefused string
  | AddDecode protoErr
  | AddTimeout

datatype delErr =
    DelUnknown u16
  | DelBusy
  | DelSend
  | DelRefused string
  | DelTimeout

record ClientTunnel =
  ctToken :: string
  ctPorts :: "u16 list"
  ctSubdomains :: "string list"
  ctTcp :: "(u16 \<times> u16) list"
  ctTls :: "(u16 \<times> string) list"
  ctForwards :: "CForward list"
  ctDone :: bool
  ctRelayObjs :: "streamRelay list"
  ctRelays :: "(u64, addr) gomap"
  ctBodyObjs :: "bodyStream list"
  ctBodyStreams :: "(u64, addr) gomap"
  ctCancelObjs :: "bool list"
  ctRespCancels :: "(u64, addr) gomap"
  ctLocalReqs :: nat
  ctRelaySem :: nat
  ctAddChans :: "(addErr + string) option list"
  ctAddCh :: "addr option"
  ctAddPort :: u16
  ctDelChans :: "(delErr + unit) option list"
  ctDelCh :: "addr option"
  ctDelID :: u64
  ctOut :: "bytes list"

definition maxConcurrentLocalReqs :: nat where "maxConcurrentLocalReqs = 100"
definition maxConcurrentRelays :: nat where "maxConcurrentRelays = 200"

definition NewTunnel ::
  "string \<Rightarrow> u16 list \<Rightarrow> string list \<Rightarrow> (u16 \<times> u16) list \<Rightarrow> (u16 \<times> string) list \<Rightarrow> ClientTunnel" where
  "NewTunnel token ports subs tcp tls =
     \<lparr>ctToken = token, ctPorts = ports, ctSubdomains = subs, ctTcp = tcp, ctTls = tls, ctForwards = [],
      ctDone = False, ctRelayObjs = [], ctRelays = [], ctBodyObjs = [], ctBodyStreams = [],
      ctCancelObjs = [], ctRespCancels = [], ctLocalReqs = 0, ctRelaySem = 0, ctAddChans = [],
      ctAddCh = None, ctAddPort = 0, ctDelChans = [], ctDelCh = None, ctDelID = 0, ctOut = []\<rparr>"

section \<open>The table of forwards\<close>

definition setMapping :: "u64 \<Rightarrow> u16 \<Rightarrow> string \<Rightarrow> ClientTunnel \<Rightarrow> ClientTunnel" where
  "setMapping tunnelID port url ct =
     ct\<lparr>ctForwards := ctForwards ct @ [\<lparr>fwTunnelID = tunnelID, fwPort = port, fwURL = url\<rparr>]\<rparr>"

fun removeFirst :: "u64 \<Rightarrow> CForward list \<Rightarrow> CForward list" where
  "removeFirst tid [] = []"
| "removeFirst tid (f # fs) = (if fwTunnelID f = tid then fs else f # removeFirst tid fs)"

definition removeMapping :: "u64 \<Rightarrow> ClientTunnel \<Rightarrow> ClientTunnel" where
  "removeMapping tunnelID ct = ct\<lparr>ctForwards := removeFirst tunnelID (ctForwards ct)\<rparr>"

definition portFor :: "ClientTunnel \<Rightarrow> u64 \<Rightarrow> u16 option" where
  "portFor ct tunnelID = map_option fwPort (find (\<lambda>f. fwTunnelID f = tunnelID) (ctForwards ct))"

fun join :: "string \<Rightarrow> string list \<Rightarrow> string" where
  "join sep [] = ''''"
| "join sep [s] = s"
| "join sep (s # t # ts) = s @ sep @ join sep (t # ts)"

definition PublicURL :: "ClientTunnel \<Rightarrow> string" where
  "PublicURL ct = join '', '' (map fwURL (ctForwards ct))"

section \<open>Writing\<close>

definition writeFrame :: "bool \<Rightarrow> Frame \<Rightarrow> ClientTunnel \<Rightarrow> ClientTunnel \<times> bool" where
  "writeFrame wok frame ct = (if wok then (ct\<lparr>ctOut := ctOut ct @ [EncodeFrame frame]\<rparr>, True) else (ct, False))"

definition sendStreamClose :: "bool \<Rightarrow> u64 \<Rightarrow> u64 \<Rightarrow> ClientTunnel \<Rightarrow> ClientTunnel" where
  "sendStreamClose wok tunnelID requestID ct =
     fst (writeFrame wok \<lparr>ftype = MsgStreamClose, TunnelID = tunnelID, RequestID = requestID, Payload = []\<rparr> ct)"

section \<open>Connecting\<close>

datatype connErr =
    ConnEncode string protoErr
  | ConnSend string
  | ConnRead string
  | ConnDecode string protoErr
  | ConnRejected string
  | ConnFailed string string
  | ConnUnexpected string u8

text \<open>
  During \<^verbatim>\<open>Connect\<close> every message sent is followed by one read. The other side is an argument: given
  the message it moves on and either the write fails, the read fails, or a message comes back.
\<close>

datatype exchanged = SendFailed | ReadFailed | Reply bytes

type_synonym 's peer = "bytes \<Rightarrow> 's \<Rightarrow> 's \<times> exchanged"

definition exchange :: "'s peer \<Rightarrow> string \<Rightarrow> Frame \<Rightarrow> 's \<Rightarrow> 's \<times> (connErr + Frame)" where
  "exchange peer desc frame s = (case peer (EncodeFrame frame) s of
       (s', SendFailed) \<Rightarrow> (s', Inl (ConnSend desc))
     | (s', ReadFailed) \<Rightarrow> (s', Inl (ConnRead desc))
     | (s', Reply msg) \<Rightarrow>
         (s', case DecodeFrame msg of Inl e \<Rightarrow> Inl (ConnDecode desc e) | Inr f \<Rightarrow> Inr f))"

definition registerOne :: "'s peer \<Rightarrow> u8 \<Rightarrow> bytes \<Rightarrow> string \<Rightarrow> 's \<Rightarrow> 's \<times> (connErr + string \<times> u64)" where
  "registerOne peer msgType payload desc s =
     (case exchange peer desc \<lparr>ftype = msgType, TunnelID = 0, RequestID = 0, Payload = payload\<rparr> s of
        (s', Inl e) \<Rightarrow> (s', Inl e)
      | (s', Inr resp) \<Rightarrow>
          (s', if ftype resp = MsgRegisterErr \<or> ftype resp = MsgError
               then Inl (ConnFailed desc (string_of (Payload resp)))
               else if ftype resp \<noteq> MsgRegisterOK then Inl (ConnUnexpected desc (ftype resp))
               else case DecodeRegisterOK (Payload resp) of
                 Inl e \<Rightarrow> Inl (ConnDecode desc e)
               | Inr (publicURL, tunnelID) \<Rightarrow> Inr (publicURL, tunnelID)))"

definition authenticate :: "'s peer \<Rightarrow> string \<Rightarrow> string \<Rightarrow> 's \<Rightarrow> 's \<times> (connErr + unit)" where
  "authenticate peer token ver s =
     (case EncodeAuth token ver of
        Inl e \<Rightarrow> (s, Inl (ConnEncode ''auth'' e))
      | Inr authPayload \<Rightarrow>
          (case exchange peer ''auth'' \<lparr>ftype = MsgAuth, TunnelID = 0, RequestID = 0, Payload = authPayload\<rparr> s of
             (s', Inl e) \<Rightarrow> (s', Inl e)
           | (s', Inr resp) \<Rightarrow>
               (s', if ftype resp = MsgAuthErr then Inl (ConnRejected (string_of (Payload resp)))
                    else if ftype resp \<noteq> MsgAuthOK then Inl (ConnUnexpected ''auth'' (ftype resp))
                    else Inr ())))"

text \<open>One registration of each kind, and the three loops.\<close>

definition then_map :: "u16 \<Rightarrow> string \<Rightarrow> ClientTunnel \<Rightarrow> 's \<times> (connErr + string \<times> u64) \<Rightarrow> 's \<times> (connErr + ClientTunnel)" where
  "then_map port scheme ct r = (case r of
       (s', Inl e) \<Rightarrow> (s', Inl e)
     | (s', Inr (publicURL, tunnelID)) \<Rightarrow> (s', Inr (setMapping tunnelID port (scheme @ publicURL) ct)))"

fun registerPorts :: "'s peer \<Rightarrow> (u16 \<times> string) list \<Rightarrow> ClientTunnel \<Rightarrow> 's \<Rightarrow> 's \<times> (connErr + ClientTunnel)" where
  "registerPorts peer [] ct s = (s, Inr ct)"
| "registerPorts peer ((port, sub) # ps) ct s =
     (case EncodeRegister port sub of
        Inl e \<Rightarrow> (s, Inl (ConnEncode (''register for port '' @ dec (unat port)) e))
      | Inr payload \<Rightarrow>
          (case then_map port '''' ct (registerOne peer MsgRegister payload (''register for port '' @ dec (unat port)) s) of
             (s', Inl e) \<Rightarrow> (s', Inl e)
           | (s', Inr ct') \<Rightarrow> registerPorts peer ps ct' s'))"

fun registerTCPs :: "'s peer \<Rightarrow> (u16 \<times> u16) list \<Rightarrow> ClientTunnel \<Rightarrow> 's \<Rightarrow> 's \<times> (connErr + ClientTunnel)" where
  "registerTCPs peer [] ct s = (s, Inr ct)"
| "registerTCPs peer ((localPort, remotePort) # fs) ct s =
     (case then_map localPort ''tcp://'' ct (registerOne peer MsgRegisterTCP (EncodeRegisterTCP localPort remotePort)
             (''tcp register for port '' @ dec (unat localPort)) s) of
        (s', Inl e) \<Rightarrow> (s', Inl e)
      | (s', Inr ct') \<Rightarrow> registerTCPs peer fs ct' s')"

fun registerTLSs :: "'s peer \<Rightarrow> (u16 \<times> string) list \<Rightarrow> ClientTunnel \<Rightarrow> 's \<Rightarrow> 's \<times> (connErr + ClientTunnel)" where
  "registerTLSs peer [] ct s = (s, Inr ct)"
| "registerTLSs peer ((port, sub) # fs) ct s =
     (case EncodeRegister port sub of
        Inl e \<Rightarrow> (s, Inl (ConnEncode (''tls register for port '' @ dec (unat port)) e))
      | Inr payload \<Rightarrow>
          (case then_map port ''tls://'' ct (registerOne peer MsgRegisterTLS payload (''tls register for port '' @ dec (unat port)) s) of
             (s', Inl e) \<Rightarrow> (s', Inl e)
           | (s', Inr ct') \<Rightarrow> registerTLSs peer fs ct' s'))"

text \<open>The subdomain of the \<open>i\<close>-th port, empty when fewer subdomains were given.\<close>

definition named_ports :: "ClientTunnel \<Rightarrow> (u16 \<times> string) list" where
  "named_ports ct = map (\<lambda>(i, port). (port, if i < length (ctSubdomains ct) then ctSubdomains ct ! i else ''''))
     (enumerate 0 (ctPorts ct))"

definition Connect :: "'s peer \<Rightarrow> string \<Rightarrow> ClientTunnel \<Rightarrow> 's \<Rightarrow> 's \<times> (connErr + ClientTunnel)" where
  "Connect peer ver ct s =
     (case authenticate peer (ctToken ct) ver s of
        (s1, Inl e) \<Rightarrow> (s1, Inl e)
      | (s1, Inr ()) \<Rightarrow>
          (case registerPorts peer (named_ports ct) ct s1 of
             (s2, Inl e) \<Rightarrow> (s2, Inl e)
           | (s2, Inr ct1) \<Rightarrow>
               (case registerTCPs peer (ctTcp ct) ct1 s2 of
                  (s3, Inl e) \<Rightarrow> (s3, Inl e)
                | (s3, Inr ct2) \<Rightarrow> registerTLSs peer (ctTls ct) ct2 s3)))"

section \<open>Adding and removing forwards\<close>

text \<open>
  A call to \<^verbatim>\<open>AddPort\<close> or \<^verbatim>\<open>RemovePort\<close> is two steps with the read loop running in between: sending the
  request, and the final \<^verbatim>\<open>select\<close>, which takes the timer case when \<open>fired\<close> and is \<^const>\<open>None\<close> while it
  has to wait. A result channel is the slot \<open>ch\<close> of the list of channels.
\<close>

definition addStart :: "bool \<Rightarrow> u16 \<Rightarrow> string \<Rightarrow> ClientTunnel \<Rightarrow> ClientTunnel \<times> (addErr + addr)" where
  "addStart wok port subdomain ct =
     (if ctAddCh ct \<noteq> None then (ct, Inl AddBusy)
      else case EncodeRegister port subdomain of
        Inl e \<Rightarrow> (ct, Inl (AddEncode e))
      | Inr regPayload \<Rightarrow>
          let ch = length (ctAddChans ct);
              ct1 = ct\<lparr>ctAddChans := ctAddChans ct @ [None], ctAddCh := Some ch, ctAddPort := port\<rparr>
          in case writeFrame wok \<lparr>ftype = MsgRegister, TunnelID = 0, RequestID = 0, Payload = regPayload\<rparr> ct1 of
               (ct2, ok) \<Rightarrow> if \<not> ok then (ct2\<lparr>ctAddCh := None\<rparr>, Inl AddSend) else (ct2, Inr ch))"

definition addWait :: "bool \<Rightarrow> addr \<Rightarrow> ClientTunnel \<Rightarrow> (ClientTunnel \<times> (addErr + string)) option" where
  "addWait fired ch ct =
     (if fired then Some (ct\<lparr>ctAddCh := None\<rparr>, Inl AddTimeout)
      else case ctAddChans ct ! ch of
        None \<Rightarrow> None
      | Some result \<Rightarrow> Some (ct\<lparr>ctAddChans := (ctAddChans ct)[ch := None]\<rparr>, result))"

definition putAdd :: "addr \<Rightarrow> addErr + string \<Rightarrow> ClientTunnel \<Rightarrow> ClientTunnel" where
  "putAdd ch r ct = ct\<lparr>ctAddChans := (ctAddChans ct)[ch := Some r]\<rparr>"

definition handleAddResponse :: "Frame \<Rightarrow> string option \<Rightarrow> ClientTunnel \<Rightarrow> ClientTunnel \<times> bool" where
  "handleAddResponse frame err ct =
     (let ct1 = ct\<lparr>ctAddCh := None\<rparr> in
      case ctAddCh ct of
        None \<Rightarrow> (ct1, False)
      | Some ch \<Rightarrow>
          (case err of
             Some msg \<Rightarrow> (putAdd ch (Inl (AddRefused msg)) ct1, True)
           | None \<Rightarrow>
               (case DecodeRegisterOK (Payload frame) of
                  Inl decErr \<Rightarrow> (putAdd ch (Inl (AddDecode decErr)) ct1, True)
                | Inr (url, tunnelID) \<Rightarrow>
                    (putAdd ch (Inr url) (setMapping tunnelID (ctAddPort ct) url ct1), True))))"

definition delStart :: "bool \<Rightarrow> u16 \<Rightarrow> ClientTunnel \<Rightarrow> ClientTunnel \<times> (delErr + addr)" where
  "delStart wok port ct =
     (case find (\<lambda>f. fwPort f = port) (ctForwards ct) of
        None \<Rightarrow> (ct, Inl (DelUnknown port))
      | Some f \<Rightarrow>
          if ctDelCh ct \<noteq> None then (ct, Inl DelBusy)
          else
            let ch = length (ctDelChans ct);
                ct1 = ct\<lparr>ctDelChans := ctDelChans ct @ [None], ctDelCh := Some ch, ctDelID := fwTunnelID f\<rparr>
            in case writeFrame wok \<lparr>ftype = MsgUnregister, TunnelID = fwTunnelID f, RequestID = 0, Payload = []\<rparr> ct1 of
                 (ct2, ok) \<Rightarrow> if \<not> ok then (ct2\<lparr>ctDelCh := None\<rparr>, Inl DelSend) else (ct2, Inr ch))"

definition delWait :: "bool \<Rightarrow> addr \<Rightarrow> ClientTunnel \<Rightarrow> (ClientTunnel \<times> (delErr + unit)) option" where
  "delWait fired ch ct =
     (if fired then Some (ct\<lparr>ctDelCh := None\<rparr>, Inl DelTimeout)
      else case ctDelChans ct ! ch of
        None \<Rightarrow> None
      | Some result \<Rightarrow> Some (ct\<lparr>ctDelChans := (ctDelChans ct)[ch := None]\<rparr>, result))"

definition handleDelResponse :: "string option \<Rightarrow> ClientTunnel \<Rightarrow> ClientTunnel" where
  "handleDelResponse err ct =
     (let ct1 = ct\<lparr>ctDelCh := None\<rparr> in
      case ctDelCh ct of
        None \<Rightarrow> ct1
      | Some ch \<Rightarrow>
          let ct2 = (if err = None then removeMapping (ctDelID ct) ct1 else ct1)
          in ct2\<lparr>ctDelChans := (ctDelChans ct2)[ch := Some (case err of None \<Rightarrow> Inr () | Some msg \<Rightarrow> Inl (DelRefused msg))]\<rparr>)"

section \<open>Streams arriving from the server\<close>

definition relayOf :: "ClientTunnel \<Rightarrow> u64 \<Rightarrow> (addr \<times> streamRelay) option" where
  "relayOf ct rid = (case map_of (ctRelays ct) rid of None \<Rightarrow> None | Some a \<Rightarrow> Some (a, ctRelayObjs ct ! a))"

definition setRelay :: "addr \<Rightarrow> streamRelay \<Rightarrow> ClientTunnel \<Rightarrow> ClientTunnel" where
  "setRelay a r ct = ct\<lparr>ctRelayObjs := (ctRelayObjs ct)[a := r]\<rparr>"

definition setBody :: "addr \<Rightarrow> bodyStream \<Rightarrow> ClientTunnel \<Rightarrow> ClientTunnel" where
  "setBody a b ct = ct\<lparr>ctBodyObjs := (ctBodyObjs ct)[a := b]\<rparr>"

text \<open>
  \<open>lok\<close>: whether the write to the local connection succeeds. A full upload buffer that nobody drains
  within the timeout aborts the upload. A send on a closed channel does not occur here: a stream is
  closed only when it leaves the map.
\<close>

definition clientStreamData :: "bool \<Rightarrow> Frame \<Rightarrow> ClientTunnel \<Rightarrow> ClientTunnel" where
  "clientStreamData lok frame ct =
     (case relayOf ct (RequestID frame) of
        Some (a, r) \<Rightarrow>
          if srDone r then ct
          else if lok \<and> srOpen r then setRelay a (r\<lparr>srWritten := srWritten r @ Payload frame\<rparr>) ct
          else setRelay a (r\<lparr>srDone := True, srOpen := False\<rparr>) ct
      | None \<Rightarrow>
          (case map_of (ctBodyStreams ct) (RequestID frame) of
             None \<Rightarrow> ct
           | Some a \<Rightarrow>
               let bs = ctBodyObjs ct ! a
               in if length (bsCh bs) < StreamRelayBuf then setBody a (bs\<lparr>bsCh := bsCh bs @ [Payload frame]\<rparr>) ct
                  else setBody a (bs\<lparr>bsAborted := True, bsClosed := True\<rparr>)
                         (ct\<lparr>ctBodyStreams := AList.delete (RequestID frame) (ctBodyStreams ct)\<rparr>)))"

definition clientStreamClose :: "Frame \<Rightarrow> ClientTunnel \<Rightarrow> ClientTunnel" where
  "clientStreamClose frame ct =
     (let rid = RequestID frame in
      case relayOf ct rid of
        Some (a, r) \<Rightarrow>
          setRelay a (r\<lparr>srDone := True, srOpen := False\<rparr>) (ct\<lparr>ctRelays := AList.delete rid (ctRelays ct)\<rparr>)
      | None \<Rightarrow>
          (case map_of (ctBodyStreams ct) rid of
             Some a \<Rightarrow>
               setBody a ((ctBodyObjs ct ! a)\<lparr>bsClosed := True\<rparr>)
                 (ct\<lparr>ctBodyStreams := AList.delete rid (ctBodyStreams ct)\<rparr>)
           | None \<Rightarrow>
               (case map_of (ctRespCancels ct) rid of
                  None \<Rightarrow> ct
                | Some a \<Rightarrow>
                    ct\<lparr>ctRespCancels := AList.delete rid (ctRespCancels ct),
                       ctCancelObjs := (ctCancelObjs ct)[a := True]\<rparr>)))"

text \<open>\<^verbatim>\<open>Close\<close>, once the connection is up: all relays end and the server is told.\<close>

definition Close :: "bool \<Rightarrow> ClientTunnel \<Rightarrow> ClientTunnel" where
  "Close wok ct =
     (let ct1 = ct\<lparr>ctDone := True\<rparr>;
          ct2 = fold (\<lambda>(rid, a) c. setRelay a ((ctRelayObjs c ! a)\<lparr>srDone := True, srOpen := False\<rparr>) c) (ctRelays ct1) ct1
      in fst (writeFrame wok \<lparr>ftype = MsgCloseTunnel, TunnelID = 0, RequestID = 0, Payload = []\<rparr>
                (ct2\<lparr>ctRelays := []\<rparr>)))"

end
