(* ===== verification/GoNet.thy ===== *)
theory GoNet
  imports Flags
begin

text \<open>
  The parts of \<^verbatim>\<open>net\<close> and \<^verbatim>\<open>net/netip\<close> that the access checks use: \<^verbatim>\<open>ParseIP\<close>, \<^verbatim>\<open>ParseCIDR\<close>,
  \<^verbatim>\<open>IPNet.Contains\<close>, \<^verbatim>\<open>To4\<close> and \<^verbatim>\<open>IsLoopback\<close>. An \<^verbatim>\<open>IP\<close> is its byte slice, of length 4 or 16.
\<close>

section \<open>Parsing addresses\<close>

definition octet :: "string \<Rightarrow> u8 option" where
  "octet s =
     (if s = [] \<or> \<not> list_all is_digit s \<or> length s > 1 \<and> hd s = CHR ''0'' \<or> digits_val s > 255 then None
      else Some (of_nat (digits_val s)))"

definition parseIPv4 :: "string \<Rightarrow> bytes option" where
  "parseIPv4 s =
     (let fs = map octet (split_on CHR ''.'' s)
      in if length fs = 4 \<and> None \<notin> set fs then Some (map the fs) else None)"

definition hex_val :: "char \<Rightarrow> nat option" where
  "hex_val c =
     (let n = (of_char c :: nat)
      in if 48 \<le> n \<and> n \<le> 57 then Some (n - 48)
         else if 97 \<le> n \<and> n \<le> 102 then Some (n - 87)
         else if 65 \<le> n \<and> n \<le> 70 then Some (n - 55)
         else None)"

definition is_hex :: "char \<Rightarrow> bool" where
  "is_hex c \<longleftrightarrow> hex_val c \<noteq> None"

definition hex_num :: "string \<Rightarrow> nat" where
  "hex_num s = foldl (\<lambda>n c. 16 * n + the (hex_val c)) 0 s"

text \<open>
  The loop of \<^verbatim>\<open>parseIPv6\<close>: the bytes parsed so far, the position of the ellipsis, the rest of the
  text. It returns the bytes, the ellipsis and what is left unread.
\<close>

function ip6_loop :: "bytes \<Rightarrow> nat option \<Rightarrow> string \<Rightarrow> (bytes \<times> nat option \<times> string) option" where
  "ip6_loop ip ell s =
     (if length ip \<ge> 16 then Some (ip, ell, s)
      else
        let g = takeWhile is_hex s; rest = dropWhile is_hex s
        in if g = [] \<or> length g > 4 then None
           else if take 1 rest = ''.'' then
             if ell = None \<and> length ip \<noteq> 12 \<or> length ip + 4 > 16 then None
             else (case parseIPv4 s of None \<Rightarrow> None | Some v4 \<Rightarrow> Some (ip @ v4, ell, []))
           else
             let ip1 = ip @ [of_nat (hex_num g div 256), of_nat (hex_num g mod 256)]
             in case rest of
                  [] \<Rightarrow> Some (ip1, ell, [])
                | c # s1 \<Rightarrow>
                    if c \<noteq> CHR '':'' \<or> s1 = [] then None
                    else if hd s1 = CHR '':'' then
                      if ell \<noteq> None then None
                      else if tl s1 = [] then Some (ip1, Some (length ip1), [])
                      else ip6_loop ip1 (Some (length ip1)) (tl s1)
                    else ip6_loop ip1 ell s1)"
  by pat_completeness auto
termination
  by (relation "measure (\<lambda>(ip, ell, s). 16 - length ip)") (auto split: if_splits)

declare ip6_loop.simps [simp del]

definition expand6 :: "bytes \<Rightarrow> nat option \<Rightarrow> string \<Rightarrow> bytes option" where
  "expand6 ip ell rest =
     (if rest \<noteq> [] then None
      else if length ip < 16 then
        (case ell of None \<Rightarrow> None
         | Some k \<Rightarrow> Some (take k ip @ replicate (16 - length ip) 0 @ drop k ip))
      else if ell \<noteq> None then None else Some ip)"

definition parseIPv6 :: "string \<Rightarrow> bytes option" where
  "parseIPv6 s =
     (if take 2 s = ''::'' then
        if drop 2 s = [] then Some (replicate 16 0)
        else (case ip6_loop [] (Some 0) (drop 2 s) of None \<Rightarrow> None | Some (ip, ell, r) \<Rightarrow> expand6 ip ell r)
      else (case ip6_loop [] None s of None \<Rightarrow> None | Some (ip, ell, r) \<Rightarrow> expand6 ip ell r))"

text \<open>
  \<^verbatim>\<open>netip.ParseAddr\<close> without zones, which both callers refuse: the first of the characters
  \<^verbatim>\<open>.\<close>, \<^verbatim>\<open>:\<close>, \<^verbatim>\<open>%\<close> decides.
\<close>

definition ParseAddr :: "string \<Rightarrow> bytes option" where
  "ParseAddr s =
     (case find (\<lambda>c. c \<in> {CHR ''.'', CHR '':'', CHR ''%''}) s of
        None \<Rightarrow> None
      | Some c \<Rightarrow>
          if CHR ''%'' \<in> set s then None
          else if c = CHR ''.'' then parseIPv4 s
          else parseIPv6 s)"

definition v4_in_v6 :: bytes where
  "v4_in_v6 = [0, 0, 0, 0, 0, 0, 0, 0, 0, 0, 0xFF, 0xFF]"

definition As16 :: "bytes \<Rightarrow> bytes" where
  "As16 ip = (if length ip = 4 then v4_in_v6 @ ip else ip)"

definition ParseIP :: "string \<Rightarrow> bytes option" where
  "ParseIP s = map_option As16 (ParseAddr s)"

definition To4 :: "bytes \<Rightarrow> bytes option" where
  "To4 ip = (if length ip = 4 then Some ip
     else if length ip = 16 \<and> take 12 ip = v4_in_v6 then Some (drop 12 ip) else None)"

definition IsLoopback :: "bytes \<Rightarrow> bool" where
  "IsLoopback ip = (case To4 ip of
     Some ip4 \<Rightarrow> ip4 ! 0 = 127
   | None \<Rightarrow> ip = replicate 15 0 @ [1])"

section \<open>Networks\<close>

text \<open>An \<^verbatim>\<open>IPNet\<close>: address and mask. \<open>CIDRMask n k\<close> has \<open>n\<close> leading ones among \<open>k\<close> bytes.\<close>

record IPNet =
  netIP :: bytes
  netMask :: bytes

definition mask_byte :: "nat \<Rightarrow> u8" where
  "mask_byte n = (if n \<ge> 8 then 0xFF else not (drop_bit n 0xFF))"

definition CIDRMask :: "nat \<Rightarrow> nat \<Rightarrow> bytes" where
  "CIDRMask n k = map (\<lambda>i. mask_byte (n - 8 * i)) [0..<k]"

definition and_bytes :: "bytes \<Rightarrow> bytes \<Rightarrow> bytes" where
  "and_bytes a b = map2 and a b"

definition dtoi :: "string \<Rightarrow> nat option" where
  "dtoi s = (if s = [] \<or> \<not> list_all is_digit s \<or> digits_val s \<ge> 0xFFFFFF then None else Some (digits_val s))"

definition ParseCIDR :: "string \<Rightarrow> IPNet option" where
  "ParseCIDR s = (case cut_at CHR ''/'' s of (addr, ms, found) \<Rightarrow>
     if \<not> found then None
     else case ParseAddr addr of
       None \<Rightarrow> None
     | Some ip \<Rightarrow>
         (case dtoi ms of
            None \<Rightarrow> None
          | Some n \<Rightarrow>
              if n > 8 * length ip then None
              else let m = CIDRMask n (length ip)
                   in Some \<lparr>netIP = and_bytes ip m, netMask = m\<rparr>))"

definition networkNumberAndMask :: "IPNet \<Rightarrow> bytes \<times> bytes" where
  "networkNumberAndMask n =
     (case To4 (netIP n) of
        Some ip4 \<Rightarrow> (ip4, if length (netMask n) = 16 then drop 12 (netMask n) else netMask n)
      | None \<Rightarrow> if length (netIP n) = 16 \<and> length (netMask n) = 16 then (netIP n, netMask n) else ([], []))"

definition Contains :: "IPNet \<Rightarrow> bytes \<Rightarrow> bool" where
  "Contains n ip0 = (case networkNumberAndMask n of (nn, m) \<Rightarrow>
     let ip = (case To4 ip0 of Some x \<Rightarrow> x | None \<Rightarrow> ip0)
     in length ip = length nn \<and> and_bytes nn m = and_bytes ip m)"

section \<open>Dotted addresses\<close>

text \<open>The text of an IPv4 address, and that it is read back as that address.\<close>

definition dotted :: "bytes \<Rightarrow> string" where
  "dotted ip = dec (unat (ip ! 0)) @ ''.'' @ dec (unat (ip ! 1)) @ ''.'' @ dec (unat (ip ! 2)) @ ''.'' @ dec (unat (ip ! 3))"

lemma dec_no_leading_zero: "length (dec n) > 1 \<Longrightarrow> hd (dec n) \<noteq> CHR ''0''"
proof (induction n rule: dec.induct)
  case (1 n)
  show ?case
  proof (cases "n < 10")
    case True
    then show ?thesis using 1(2) by (simp add: dec.simps [of n])
  next
    case False
    then have d: "dec n = dec (n div 10) @ [char_of (48 + n mod 10)]" by (simp add: dec.simps [of n])
    show ?thesis
    proof (cases "n div 10 < 10")
      case True
      then have "n div 10 \<in> {1..9}" using False by (auto simp: Suc_le_eq div_greater_zero_iff)
      then have "char_of (48 + n div 10) \<noteq> CHR ''0''"
        by (auto simp: char_of_eq_iff [of "48 + n div 10" "CHR ''0''"] take_bit_eq_mod simp flip: of_char_eq_iff)
      then show ?thesis using True d by (simp add: dec.simps [of "n div 10"])
    next
      case big: False
      then have "length (dec (n div 10)) > 1" by (simp add: dec.simps [of "n div 10"])
      then show ?thesis using 1(1) False d by simp
    qed
  qed
qed

lemma octet_dec: "octet (dec (unat (b :: u8))) = Some b"
proof -
  have "\<not> (length (dec (unat b)) > 1 \<and> hd (dec (unat b)) = CHR ''0'')" using dec_no_leading_zero by blast
  then show ?thesis using dec_digits [of "unat b"] by (simp add: octet_def)
qed

lemma split_dotted:
  "split_on CHR ''.'' (dotted ip) =
     [dec (unat (ip ! 0)), dec (unat (ip ! 1)), dec (unat (ip ! 2)), dec (unat (ip ! 3))]"
  by (simp add: dotted_def split_on_append split_on_single dec_no_char)

lemma bytes4: "length ip = 4 \<Longrightarrow> [ip ! 0, ip ! 1, ip ! 2, ip ! 3] = (ip :: bytes)"
  by (auto simp: length_Suc_conv numeral_eq_Suc)

lemma parseIPv4_dotted: "length ip = 4 \<Longrightarrow> parseIPv4 (dotted ip) = Some ip"
  using bytes4 [of ip] by (simp add: parseIPv4_def split_dotted octet_dec Let_def)

lemma set_dotted: "c \<in> set (dotted ip) \<Longrightarrow> is_digit c \<or> c = CHR ''.''"
  using dec_digits by (auto simp: dotted_def list_all_iff)

lemma find_dotted: "find (\<lambda>c. c \<in> {CHR ''.'', CHR '':'', CHR ''%''}) (dotted ip) = Some CHR ''.''"
proof -
  obtain c where c: "find (\<lambda>c. c \<in> {CHR ''.'', CHR '':'', CHR ''%''}) (dotted ip) = Some c"
    by (cases "find (\<lambda>c. c \<in> {CHR ''.'', CHR '':'', CHR ''%''}) (dotted ip)")
      (auto simp: find_None_iff dotted_def)
  then have "c \<in> set (dotted ip)" "c \<in> {CHR ''.'', CHR '':'', CHR ''%''}" using find_in_set by fast+
  with set_dotted [of c ip] c show ?thesis by (auto simp: is_digit_def)
qed

lemma ParseAddr_dotted: "length ip = 4 \<Longrightarrow> ParseAddr (dotted ip) = Some ip"
  using set_dotted [of "CHR ''%''" ip] unfolding ParseAddr_def find_dotted
  by (auto simp: parseIPv4_dotted is_digit_def)

lemma ParseIP_dotted: "length ip = 4 \<Longrightarrow> ParseIP (dotted ip) = Some (v4_in_v6 @ ip)"
  by (simp add: ParseIP_def ParseAddr_dotted As16_def)

lemma To4_mapped [simp]: "length ip = 4 \<Longrightarrow> To4 (v4_in_v6 @ ip) = Some ip"
  by (simp add: To4_def v4_in_v6_def)

section \<open>What a network contains\<close>

lemma bit_FF: "bit (0xFF :: u8) j \<longleftrightarrow> j < 8"
proof -
  have m: "(0xFF :: u8) = - 1" by simp
  show ?thesis unfolding m by (simp add: bit_minus_1_iff)
qed

lemma bit_mask_byte: "bit (mask_byte n) j \<longleftrightarrow> j < 8 \<and> 8 \<le> n + j"
proof (cases "8 \<le> n")
  case True
  then have "bit (mask_byte n) j \<longleftrightarrow> j < 8" unfolding mask_byte_def by (simp only: if_True bit_FF)
  with True show ?thesis by auto
next
  case False
  then have "bit (mask_byte n) j \<longleftrightarrow> j < 8 \<and> \<not> n + j < 8"
    unfolding mask_byte_def by (simp only: if_False bit_not_iff bit_drop_bit_eq o_def bit_FF possible_bit_word) simp
  then show ?thesis by auto
qed

lemma and_bytes_eq_iff:
  assumes "length a = length m" "length b = length m"
  shows "and_bytes a m = and_bytes b m \<longleftrightarrow> (\<forall>i < length m. and (a ! i) (m ! i) = and (b ! i) (m ! i))"
  using assms by (auto simp: and_bytes_def list_eq_iff_nth_eq)

lemma and_mask_byte_eq_iff:
  "and a (mask_byte n) = and b (mask_byte n) \<longleftrightarrow> (\<forall>j < 8. 8 \<le> n + j \<longrightarrow> bit a j = bit (b :: u8) j)"
  by (auto simp: bit_eq_iff bit_and_iff bit_mask_byte)

lemma and_bytes_idem:
  assumes "length a = length m"
  shows "and_bytes (and_bytes a m) m = and_bytes a m"
  using assms by (auto simp: and_bytes_def list_eq_iff_nth_eq and.assoc)

lemma length_CIDRMask [simp]: "length (CIDRMask n k) = k"
  by (simp add: CIDRMask_def)

lemma length_and_bytes [simp]: "length (and_bytes a m) = min (length a) (length m)"
  by (simp add: and_bytes_def)

text \<open>Bit \<open>k\<close> of an address, counted from the most significant bit of its first byte.\<close>

definition addr_bit :: "bytes \<Rightarrow> nat \<Rightarrow> bool" where
  "addr_bit ip k = bit (ip ! (k div 8)) (7 - k mod 8)"

lemma CIDRMask_agree:
  assumes "length a = k" "length b = k" "n \<le> 8 * k"
  shows "and_bytes a (CIDRMask n k) = and_bytes b (CIDRMask n k) \<longleftrightarrow> (\<forall>i < n. addr_bit a i = addr_bit b i)"
proof -
  have "and_bytes a (CIDRMask n k) = and_bytes b (CIDRMask n k) \<longleftrightarrow>
      (\<forall>i < k. \<forall>j < 8. 8 \<le> n - 8 * i + j \<longrightarrow> bit (a ! i) j = bit (b ! i) j)"
    using assms by (simp add: and_bytes_eq_iff CIDRMask_def and_mask_byte_eq_iff)
  also have "\<dots> \<longleftrightarrow> (\<forall>i < n. addr_bit a i = addr_bit b i)" (is "?l \<longleftrightarrow> ?r")
  proof
    assume l: ?l
    show ?r
    proof (intro allI impI)
      fix q assume q: "q < n"
      define d m where "d = q div 8" and "m = q mod 8"
      have qdm: "q = 8 * d + m" "m < 8" by (simp_all add: d_def m_def)
      have "d < k" "7 - m < 8" "8 \<le> n - 8 * d + (7 - m)" using q assms(3) qdm by linarith+
      with l have "bit (a ! d) (7 - m) = bit (b ! d) (7 - m)" by blast
      then show "addr_bit a q = addr_bit b q" by (simp only: addr_bit_def d_def m_def)
    qed
  next
    assume r: ?r
    show ?l
    proof (intro allI impI)
      fix i j assume ij: "i < k" "j < (8 :: nat)" "8 \<le> n - 8 * i + j"
      define c where "c = 7 - j"
      have c: "c < 8" "7 - c = j" "8 * i + c < n" using ij by (simp_all add: c_def)
      then have "(8 * i + c) div 8 = i" "(8 * i + c) mod 8 = c" by simp_all
      then show "bit (a ! i) j = bit (b ! i) j"
        using r [rule_format, OF c(3)] c(2) by (simp add: addr_bit_def)
    qed
  qed
  finally show ?thesis .
qed

lemma Contains_v4:
  assumes "length ip = 4" "length x = 4" "n \<le> 32"
  shows "Contains \<lparr>netIP = and_bytes ip (CIDRMask n 4), netMask = CIDRMask n 4\<rparr> (v4_in_v6 @ x) \<longleftrightarrow>
    (\<forall>i < n. addr_bit x i = addr_bit ip i)"
proof -
  have "To4 (and_bytes ip (CIDRMask n 4)) = Some (and_bytes ip (CIDRMask n 4))"
    using assms by (simp add: To4_def)
  then show ?thesis
    using assms CIDRMask_agree [of x 4 ip n]
    by (auto simp: Contains_def networkNumberAndMask_def and_bytes_idem Let_def)
qed

lemma ParseCIDR_dotted:
  assumes "length ip = 4" "n \<le> 32"
  shows "ParseCIDR (dotted ip @ ''/'' @ dec n) = Some \<lparr>netIP = and_bytes ip (CIDRMask n 4), netMask = CIDRMask n 4\<rparr>"
proof -
  have "CHR ''/'' \<notin> set (dotted ip)" using set_dotted [of "CHR ''/''" ip] by (auto simp: is_digit_def)
  then have "cut_at CHR ''/'' (dotted ip @ CHR ''/'' # dec n) = (dotted ip, dec n, True)" by (rule cut_at_found)
  moreover have "dtoi (dec n) = Some n" using dec_digits [of n] assms(2) by (simp add: dtoi_def)
  ultimately show ?thesis using assms by (simp add: ParseCIDR_def ParseAddr_dotted Let_def)
qed

end
