(* ===== verification/Protect.thy ===== *)
theory Protect
  imports GoNet Protocol
begin

text \<open>
  Access control for public traffic, \<^verbatim>\<open>internal/server/protect.go\<close>, and for the admin API,
  \<^verbatim>\<open>internal/server/admin.go\<close>. A request is the record of what the handlers read of an
  \<^verbatim>\<open>http.Request\<close>; \<open>rqBasicAuth\<close> is the result of \<^verbatim>\<open>r.BasicAuth()\<close>. SHA-256 is an argument, and comparing
  two byte strings in constant time is comparing them.
\<close>

record Request =
  rqMethod :: string
  rqHost :: string
  rqRemoteAddr :: string
  rqPath :: string
  rqRawQuery :: string
  rqTLS :: bool
  rqHeader :: headers
  rqBasicAuth :: "(string \<times> string) option"

definition header_values :: "headers \<Rightarrow> string \<Rightarrow> string list" where
  "header_values hs k = (case map_of hs k of None \<Rightarrow> [] | Some vs \<Rightarrow> vs)"

record Protector =
  ptUser :: string
  ptPassHash :: bytes
  ptAllow :: "IPNet list"
  ptHops :: int

datatype protectErr = NegativeHops | BasicAuthFormat | InvalidAllowed string

section \<open>Construction\<close>

definition with_bits :: "string \<Rightarrow> string" where
  "with_bits part =
     (if CHR ''/'' \<notin> set part then
        (case ParseIP part of
           None \<Rightarrow> part
         | Some ip \<Rightarrow> part @ ''/'' @ dec (if To4 ip = None then 128 else 32))
      else part)"

fun allow_list :: "string list \<Rightarrow> protectErr + IPNet list" where
  "allow_list [] = Inr []"
| "allow_list (part0 # parts) =
     (let part = trimSpace part0
      in if part = '''' then allow_list parts
         else case ParseCIDR (with_bits part) of
           None \<Rightarrow> Inl (InvalidAllowed (with_bits part))
         | Some cidr \<Rightarrow> and_then (allow_list parts) (\<lambda>cs. Inr (cidr # cs)))"

definition NewProtector :: "(bytes \<Rightarrow> bytes) \<Rightarrow> string \<Rightarrow> string \<Rightarrow> int \<Rightarrow> protectErr + Protector" where
  "NewProtector sha basicAuth allowIPs trustedHops =
     (if trustedHops < 0 then Inl NegativeHops
      else case cut_at CHR '':'' basicAuth of (user, pass, ok) \<Rightarrow>
        if basicAuth \<noteq> '''' \<and> (\<not> ok \<or> user = '''') then Inl BasicAuthFormat
        else and_then (allow_list (split_on CHR '','' allowIPs)) (\<lambda>allow.
          Inr \<lparr>ptUser = (if basicAuth \<noteq> '''' then user else ''''),
               ptPassHash = (if basicAuth \<noteq> '''' then sha (bytes_of pass) else replicate 32 0),
               ptAllow = allow, ptHops = trustedHops\<rparr>))"

section \<open>Checks\<close>

definition enabled :: "Protector \<Rightarrow> bool" where
  "enabled p \<longleftrightarrow> ptUser p \<noteq> '''' \<or> ptAllow p \<noteq> []"

definition remoteHost :: "Request \<Rightarrow> string" where
  "remoteHost r = (case SplitHostPort (rqRemoteAddr r) of None \<Rightarrow> rqRemoteAddr r | Some (host, _) \<Rightarrow> host)"

definition xff_entries :: "string list \<Rightarrow> string list" where
  "xff_entries hs = concat (map (\<lambda>h. filter (\<lambda>p. p \<noteq> '''') (map trimSpace (split_on CHR '','' h))) hs)"

definition clientIP :: "Protector \<Rightarrow> Request \<Rightarrow> string" where
  "clientIP p r =
     (if ptHops p \<le> 0 then remoteHost r
      else
        let xff = xff_entries (header_values (rqHeader r) ''X-Forwarded-For'');
            idx = int (length xff) - ptHops p
        in if idx < 0 \<or> idx \<ge> int (length xff) then remoteHost r else xff ! nat idx)"

definition ipAllowed :: "Protector \<Rightarrow> Request \<Rightarrow> bool" where
  "ipAllowed p r = (case ParseIP (clientIP p r) of
     None \<Rightarrow> False | Some ip \<Rightarrow> list_ex (\<lambda>cidr. Contains cidr ip) (ptAllow p))"

definition basicAuthOK :: "(bytes \<Rightarrow> bytes) \<Rightarrow> Protector \<Rightarrow> Request \<Rightarrow> bool" where
  "basicAuthOK sha p r = (case rqBasicAuth r of
     None \<Rightarrow> False
   | Some (user, pass) \<Rightarrow> bytes_of user = bytes_of (ptUser p) \<and> sha (bytes_of pass) = ptPassHash p)"

datatype verdict = Allowed | Forbidden | Unauthorized

definition Allow :: "(bytes \<Rightarrow> bytes) \<Rightarrow> Protector \<Rightarrow> Request \<Rightarrow> verdict" where
  "Allow sha p r =
     (if \<not> enabled p then Allowed
      else if ptAllow p \<noteq> [] \<and> \<not> ipAllowed p r then Forbidden
      else if ptUser p \<noteq> '''' \<and> \<not> basicAuthOK sha p r then Unauthorized
      else Allowed)"

section \<open>The admin API\<close>

definition peerIsLoopback :: "string \<Rightarrow> bool" where
  "peerIsLoopback remoteAddr =
     (let host = (case SplitHostPort remoteAddr of None \<Rightarrow> remoteAddr | Some (h, _) \<Rightarrow> h)
      in case ParseIP host of None \<Rightarrow> False | Some ip \<Rightarrow> IsLoopback ip)"

definition hostIsLoopback :: "string \<Rightarrow> bool" where
  "hostIsLoopback host0 =
     (let host = (case SplitHostPort host0 of Some (h, _) \<Rightarrow> h | None \<Rightarrow> host0)
      in if host = ''localhost'' then True
         else case ParseIP host of None \<Rightarrow> False | Some ip \<Rightarrow> IsLoopback ip)"

definition header_get :: "headers \<Rightarrow> string \<Rightarrow> string" where
  "header_get hs k = (case header_values hs k of [] \<Rightarrow> '''' | v # _ \<Rightarrow> v)"

definition tokenOK :: "string \<Rightarrow> Request \<Rightarrow> bool" where
  "tokenOK token r =
     (if token = '''' then False
      else let got = header_get (rqHeader r) ''Authorization''
           in length got > 7 \<and> drop 7 got = token)"

text \<open>\<^verbatim>\<open>guard\<close>: whether the wrapped handler runs; otherwise the answer is 401.\<close>

definition guard :: "string \<Rightarrow> Request \<Rightarrow> bool" where
  "guard token r \<longleftrightarrow> (peerIsLoopback (rqRemoteAddr r) \<and> hostIsLoopback (rqHost r)) \<or> tokenOK token r"

section \<open>Forwarded addresses\<close>

text \<open>
  What a chain of reverse proxies makes of the \<^verbatim>\<open>X-Forwarded-For\<close> lines a client sends: each proxy
  appends the address it saw, either to the last line or as a line of its own.
\<close>

definition add_hop :: "bool \<times> string \<Rightarrow> string list \<Rightarrow> string list" where
  "add_hop = (\<lambda>(own_line, a) hs.
     if own_line \<or> hs = [] then hs @ [a] else butlast hs @ [last hs @ '', '' @ a])"

definition address_text :: "string \<Rightarrow> bool" where
  "address_text a \<longleftrightarrow> a \<noteq> '''' \<and> list_all printable a \<and> CHR '','' \<notin> set a"

lemma xff_entries_append: "xff_entries (hs @ hs') = xff_entries hs @ xff_entries hs'"
  by (simp add: xff_entries_def)

lemma xff_entries_line:
  "xff_entries [s @ CHR '','' # t] = xff_entries [s] @ xff_entries [t]"
  by (simp add: xff_entries_def split_on_append_sep)

lemma xff_entries_address:
  assumes "address_text a"
  shows "xff_entries [a] = [a]" "xff_entries [CHR '' '' # a] = [a]"
  using assms trimSpace_printable [of a] trimSpace_space_printable [of a]
  by (auto simp: xff_entries_def address_text_def split_on_single list_all_iff)

lemma xff_entries_hop:
  assumes "address_text a"
  shows "xff_entries (add_hop (own, a) hs) = xff_entries hs @ [a]"
proof (cases "own \<or> hs = []")
  case True
  then show ?thesis using xff_entries_address(1) [OF assms]
    by (auto simp: add_hop_def xff_entries_append)
next
  case False
  have "xff_entries hs = xff_entries (butlast hs) @ xff_entries [last hs]"
    using False by (metis append_butlast_last_id xff_entries_append)
  then show ?thesis using False xff_entries_address(2) [OF assms] xff_entries_line [of "last hs" "CHR '' '' # a"]
    by (simp add: add_hop_def xff_entries_append)
qed

lemma xff_entries_hops:
  "\<forall>(own, a) \<in> set hops. address_text a \<Longrightarrow> xff_entries (fold add_hop hops hs) = xff_entries hs @ map snd hops"
proof (induction hops arbitrary: hs)
  case (Cons h hops)
  obtain own a where h: "h = (own, a)" by fastforce
  then show ?case using Cons xff_entries_hop [of a own hs] by auto
qed simp

text \<open>
  C20. The client address cannot be spoofed. Behind \<open>N\<close> trusted proxies, whatever
  \<^verbatim>\<open>X-Forwarded-For\<close> lines the client sends itself, the address the allowlist is applied to is the
  one the outermost trusted proxy saw; without trusted proxies it is the peer's address, whatever
  headers are sent.
\<close>

theorem clientIP_unspoofable:
  assumes "hops \<noteq> []" "\<forall>(own, a) \<in> set hops. address_text a"
    and "header_values (rqHeader r) ''X-Forwarded-For'' = fold add_hop hops attacker"
  shows "(ptHops p = int (length hops) \<longrightarrow> clientIP p r = snd (hd hops)) \<and>
    (ptHops p = 0 \<longrightarrow> clientIP p r = remoteHost r)"
proof -
  let ?n = "length (xff_entries attacker)"
  have e: "xff_entries (header_values (rqHeader r) ''X-Forwarded-For'') = xff_entries attacker @ map snd hops"
    using assms(2,3) by (simp add: xff_entries_hops)
  have "(xff_entries attacker @ map snd hops) ! ?n = snd (hd hops)"
    using assms(1) by (cases hops) (auto simp: nth_append)
  then show ?thesis using assms(1) unfolding clientIP_def e by (auto simp: Let_def)
qed

definition sample_xff_request :: Request where
  "sample_xff_request = \<lparr>rqMethod = ''GET'', rqHost = ''app.x.io'', rqRemoteAddr = ''10.0.0.1:999'', rqPath = ''/'',
     rqRawQuery = '''', rqTLS = False, rqHeader = [(''X-Forwarded-For'', [''1.1.1.1, 9.9.9.9''])], rqBasicAuth = None\<rparr>"

theorem clientIP_unspoofable_witness:
  "clientIP \<lparr>ptUser = '''', ptPassHash = [], ptAllow = [], ptHops = 1\<rparr> sample_xff_request = ''9.9.9.9''"
  using clientIP_unspoofable [of "[(False, ''9.9.9.9'')]" sample_xff_request "[''1.1.1.1'']"
      "\<lparr>ptUser = '''', ptPassHash = [], ptAllow = [], ptHops = 1\<rparr>"]
  by (simp add: sample_xff_request_def header_values_def add_hop_def address_text_def printable_def)

section \<open>Allowlists\<close>

text \<open>An entry of an IPv4 allowlist: an address, alone or with a prefix length.\<close>

type_synonym cidr_entry = "bytes \<times> nat option"

definition entry_text :: "cidr_entry \<Rightarrow> string" where
  "entry_text = (\<lambda>(ip, n). case n of None \<Rightarrow> dotted ip | Some k \<Rightarrow> dotted ip @ ''/'' @ dec k)"

definition entry_ok :: "cidr_entry \<Rightarrow> bool" where
  "entry_ok = (\<lambda>(ip, n). length ip = 4 \<and> (case n of None \<Rightarrow> True | Some k \<Rightarrow> k \<le> 32))"

definition entry_bits :: "cidr_entry \<Rightarrow> nat" where
  "entry_bits = (\<lambda>(ip, n). case n of None \<Rightarrow> 32 | Some k \<Rightarrow> k)"

definition entry_net :: "cidr_entry \<Rightarrow> IPNet" where
  "entry_net en = \<lparr>netIP = and_bytes (fst en) (CIDRMask (entry_bits en) 4), netMask = CIDRMask (entry_bits en) 4\<rparr>"

lemma entry_text_chars: "c \<in> set (entry_text en) \<Longrightarrow> is_digit c \<or> c = CHR ''.'' \<or> c = CHR ''/''"
  using dec_digits
  by (auto simp: entry_text_def list_all_iff split: prod.splits option.splits dest: set_dotted)

lemma entry_text_trim: "trimSpace (entry_text en) = entry_text en"
  by (rule trimSpace_printable) (auto dest!: entry_text_chars simp: is_digit_def printable_def)

lemma with_bits_entry:
  assumes "entry_ok en"
  shows "with_bits (entry_text en) = dotted (fst en) @ ''/'' @ dec (entry_bits en)"
proof -
  obtain ip n where en: "en = (ip, n)" by fastforce
  have "CHR ''/'' \<notin> set (dotted ip)" using set_dotted [of "CHR ''/''" ip] by (auto simp: is_digit_def)
  then show ?thesis using assms
    by (cases n) (auto simp: en with_bits_def entry_text_def entry_ok_def entry_bits_def ParseIP_dotted)
qed

lemma ParseCIDR_entry: "entry_ok en \<Longrightarrow> ParseCIDR (with_bits (entry_text en)) = Some (entry_net en)"
  using ParseCIDR_dotted [of "fst en" "entry_bits en"]
  by (auto simp: with_bits_entry entry_net_def entry_ok_def entry_bits_def split: option.splits)

lemma entry_text_nonempty: "entry_text en \<noteq> ''''"
  by (auto simp: entry_text_def dotted_def split: prod.splits option.splits)

lemma allow_list_entries: "list_all entry_ok ens \<Longrightarrow> allow_list (map entry_text ens) = Inr (map entry_net ens)"
  by (induction ens) (simp_all add: entry_text_trim entry_text_nonempty ParseCIDR_entry)

lemma Contains_entry:
  assumes "entry_ok en" "length x = 4"
  shows "Contains (entry_net en) (v4_in_v6 @ x) \<longleftrightarrow> (\<forall>i < entry_bits en. addr_bit x i = addr_bit (fst en) i)"
  unfolding entry_net_def using assms
  by (intro Contains_v4) (auto simp: entry_ok_def entry_bits_def split: option.splits)


text \<open>
  Basic authentication: a protector made from \<^verbatim>\<open>user:pass\<close> lets a request through exactly when
  the address filter does and the request carries that user and that password. SHA-256 enters
  through the hypothesis that the presented password does not collide with the right one.
\<close>

theorem basic_auth_exact:
  assumes "NewProtector sha (user @ '':'' @ pass) allow hops = Inr p" "CHR '':'' \<notin> set user"
    and "\<And>u w. rqBasicAuth r = Some (u, w) \<Longrightarrow> sha (bytes_of w) = sha (bytes_of pass) \<Longrightarrow> w = pass"
  shows "Allow sha p r = Allowed \<longleftrightarrow>
    (ptAllow p = [] \<or> ipAllowed p r) \<and> rqBasicAuth r = Some (user, pass)"
proof -
  have "cut_at CHR '':'' (user @ CHR '':'' # pass) = (user, pass, True)" by (rule cut_at_found [OF assms(2)])
  then have "ptUser p = user \<and> user \<noteq> '''' \<and> ptPassHash p = sha (bytes_of pass)"
    using assms(1) by (auto simp: NewProtector_def and_then_eq_Inr split: if_splits)
  then show ?thesis using assms(3)
    by (auto simp: Allow_def enabled_def basicAuthOK_def split: option.splits)
qed

definition sample_auth_request :: Request where
  "sample_auth_request = sample_xff_request\<lparr>rqBasicAuth := Some (''bob'', ''pw'')\<rparr>"

lemma allow_list_empty: "allow_list (split_on CHR '','' '''') = Inr []"
  using trimSpace_printable [of "[]"] by simp

theorem basic_auth_exact_witness:
  "Allow (\<lambda>b. b) \<lparr>ptUser = ''bob'', ptPassHash = bytes_of ''pw'', ptAllow = [], ptHops = 0\<rparr> sample_auth_request = Allowed"
  using basic_auth_exact [of "\<lambda>b. b" "''bob''" "''pw''" "''''" 0 _ sample_auth_request] allow_list_empty
  by (simp add: NewProtector_def sample_auth_request_def)


section \<open>Who may call the admin API\<close>

text \<open>
  The admin API: without a token it answers only callers on a loopback address that also address
  it by a loopback host; every other caller has to send an \<^verbatim>\<open>Authorization\<close> value that is seven
  characters followed by the configured, non-empty token. A bearer token is accepted from anywhere,
  and so is a local caller from any 127.x address by the name \<^verbatim>\<open>localhost\<close>.
\<close>

theorem admin_guard_exact:
  "(guard token r \<longrightarrow> peerIsLoopback (rqRemoteAddr r) \<and> hostIsLoopback (rqHost r) \<or>
      token \<noteq> '''' \<and> (\<exists>pre. length pre = 7 \<and> header_get (rqHeader r) ''Authorization'' = pre @ token)) \<and>
   (token \<noteq> '''' \<and> header_get (rqHeader r) ''Authorization'' = ''Bearer '' @ token \<longrightarrow> guard token r) \<and>
   (length ip = 4 \<and> ip ! 0 = 127 \<and> rqRemoteAddr r = dotted ip \<and> rqHost r = ''localhost'' \<longrightarrow> guard token r)"
proof (intro conjI impI)
  assume "guard token r"
  moreover have "\<exists>pre. length pre = 7 \<and> header_get (rqHeader r) ''Authorization'' = pre @ token"
    if "length (header_get (rqHeader r) ''Authorization'') > 7" "drop 7 (header_get (rqHeader r) ''Authorization'') = token"
    using that append_take_drop_id [of 7 "header_get (rqHeader r) ''Authorization''"]
    by (intro exI [of _ "take 7 (header_get (rqHeader r) ''Authorization'')"]) simp
  ultimately show "peerIsLoopback (rqRemoteAddr r) \<and> hostIsLoopback (rqHost r) \<or>
      token \<noteq> '''' \<and> (\<exists>pre. length pre = 7 \<and> header_get (rqHeader r) ''Authorization'' = pre @ token)"
    by (auto simp: guard_def tokenOK_def Let_def split: if_splits)
next
  assume a: "length ip = 4 \<and> ip ! 0 = 127 \<and> rqRemoteAddr r = dotted ip \<and> rqHost r = ''localhost''"
  have "CHR '':'' \<notin> set (dotted ip)" using set_dotted [of "CHR '':''" ip] by (auto simp: is_digit_def)
  then have "peerIsLoopback (rqRemoteAddr r)"
    using a by (simp add: peerIsLoopback_def SplitHostPort_def ParseIP_dotted IsLoopback_def)
  then show "guard token r" using a by (simp add: guard_def hostIsLoopback_def SplitHostPort_def)
qed (auto simp: guard_def tokenOK_def)

theorem admin_guard_exact_witness:
  "guard ''s3cret'' (sample_xff_request\<lparr>rqHeader := [(''Authorization'', [''Bearer s3cret''])]\<rparr>)"
  using admin_guard_exact [of "''s3cret''" "sample_xff_request\<lparr>rqHeader := [(''Authorization'', [''Bearer s3cret''])]\<rparr>" "[]"]
  by (simp add: header_get_def header_values_def)

end
