(* ===== verification/Registry.thy ===== *)
theory Registry
  imports Protocol
begin

text \<open>
  The tunnel registry of \<^verbatim>\<open>internal/server/registry.go\<close> and the naming rules around it: which
  subdomains are valid (\<^verbatim>\<open>validSubdomain\<close>, handler.go), which one a host name addresses
  (\<^verbatim>\<open>extractSubdomain\<close>, proxy.go), and how fresh names and identifiers are made. A
  \<^verbatim>\<open>*ClientHandler\<close> is the number of the connection it serves. Random bytes and the clock are
  arguments; \<^const>\<open>None\<close> stands for a failing \<^verbatim>\<open>crypto/rand\<close>.
\<close>

type_synonym hid = nat

record Tunnel =
  tunID :: u64
  tunSubdomain :: string
  tunHandler :: hid

record Registry =
  regTunnels :: "(string, Tunnel) gomap"

datatype regErr = SubdomainTaken string | RandFailed

text \<open>The text of \<open>RandFailed\<close> ends in the error of \<^verbatim>\<open>crypto/rand\<close>, here \<open>cause\<close>.\<close>

fun reg_err_text :: "(string \<Rightarrow> string) \<Rightarrow> string \<Rightarrow> regErr \<Rightarrow> string" where
  "reg_err_text quote cause (SubdomainTaken s) = ''subdomain '' @ quote s @ '' already taken''"
| "reg_err_text quote cause RandFailed = ''crypto/rand failed: '' @ cause"

definition NewRegistry :: Registry where
  "NewRegistry = \<lparr>regTunnels = []\<rparr>"

definition Register :: "string \<Rightarrow> hid \<Rightarrow> bytes option \<Rightarrow> Registry \<Rightarrow> Registry \<times> (regErr + Tunnel)" where
  "Register subdomain handler rnd r =
     (if map_of (regTunnels r) subdomain \<noteq> None then (r, Inl (SubdomainTaken subdomain))
      else case rnd of
        None \<Rightarrow> (r, Inl RandFailed)
      | Some idBytes \<Rightarrow>
          (let t = \<lparr>tunID = get_be idBytes, tunSubdomain = subdomain, tunHandler = handler\<rparr>
           in (r\<lparr>regTunnels := AList.update subdomain t (regTunnels r)\<rparr>, Inr t)))"

definition Unregister :: "string \<Rightarrow> Registry \<Rightarrow> Registry" where
  "Unregister subdomain r = r\<lparr>regTunnels := AList.delete subdomain (regTunnels r)\<rparr>"

definition Get :: "Registry \<Rightarrow> string \<Rightarrow> Tunnel option" where
  "Get r subdomain = map_of (regTunnels r) subdomain"

record TunnelInfo =
  tiID :: u64
  tiSubdomain :: string

definition Snapshot :: "Registry \<Rightarrow> TunnelInfo list" where
  "Snapshot r = map (\<lambda>(_, t). \<lparr>tiID = tunID t, tiSubdomain = tunSubdomain t\<rparr>) (regTunnels r)"

definition generateTunnelID :: "bytes option \<Rightarrow> nat \<Rightarrow> u64" where
  "generateTunnelID rnd now = (case rnd of None \<Rightarrow> of_nat now | Some b \<Rightarrow> get_be b)"

text \<open>\<^verbatim>\<open>%016x\<close> of a clock value below \<open>16 ^ 16\<close>, and \<^verbatim>\<open>%x\<close> of eight random bytes.\<close>

definition hex16 :: "nat \<Rightarrow> string" where
  "hex16 n = map (\<lambda>i. hex_digit (n div 16 ^ i mod 16)) (rev [0..<16])"

definition generateSubdomain :: "bytes option \<Rightarrow> nat \<Rightarrow> string" where
  "generateSubdomain rnd now = (case rnd of None \<Rightarrow> hex16 now | Some b \<Rightarrow> hex_bytes b)"

section \<open>Names\<close>

definition subdomain_char :: "char \<Rightarrow> bool" where
  "subdomain_char c \<longleftrightarrow>
     (let n = (of_char c :: nat) in
        97 \<le> n \<and> n \<le> 122 \<or> 65 \<le> n \<and> n \<le> 90 \<or> 48 \<le> n \<and> n \<le> 57 \<or> c = CHR ''-'')"

definition validSubdomain :: "string \<Rightarrow> bool" where
  "validSubdomain s \<longleftrightarrow>
     (if s = '''' then True
      else if length s > MaxSubdomainLen then False
      else list_all subdomain_char s)"

definition extractSubdomain :: "string \<Rightarrow> string \<Rightarrow> string" where
  "extractSubdomain host0 baseDomain0 =
     (let host = before CHR '':'' host0;
          baseDomain = before CHR '':'' baseDomain0;
          suffix = ''.'' @ baseDomain
      in if host = baseDomain \<or> \<not> hasSuffix host suffix then ''''
         else let pre = trimSuffix host suffix
              in if pre = '''' \<or> CHR ''.'' \<in> set pre then ''''
                 else if \<not> validSubdomain pre then '''' else pre)"

lemma subdomain_char_no_sep: "subdomain_char c \<Longrightarrow> c \<noteq> CHR ''.'' \<and> c \<noteq> CHR '':''"
  by (auto simp: subdomain_char_def Let_def)

lemma validSubdomain_no_sep:
  "validSubdomain s \<Longrightarrow> CHR ''.'' \<notin> set s \<and> CHR '':'' \<notin> set s"
  by (auto simp: validSubdomain_def list_all_iff dest: subdomain_char_no_sep split: if_splits)

lemma extractSubdomain_public_host:
  assumes "validSubdomain sub" "sub \<noteq> ''''"
  shows "extractSubdomain (sub @ ''.'' @ base) base = sub"
proof -
  let ?b = "before CHR '':'' base"
  have h: "before CHR '':'' (sub @ ''.'' @ base) = sub @ ''.'' @ ?b"
    using validSubdomain_no_sep [OF assms(1)] by simp
  have "sub @ ''.'' @ ?b \<noteq> ?b"
    by (metis append_assoc append_self_conv2 append_is_Nil_conv list.discI)
  then show ?thesis
    using assms validSubdomain_no_sep [OF assms(1)]
      hasSuffix_append [of sub "''.'' @ ?b"] trimSuffix_append [of sub "''.'' @ ?b"]
    by (simp add: extractSubdomain_def h Let_def)
qed

lemma extractSubdomain_sound:
  assumes "extractSubdomain host base = sub" "sub \<noteq> ''''"
  shows "validSubdomain sub \<and> before CHR '':'' host = sub @ ''.'' @ before CHR '':'' base"
  using assms hasSuffixD [of "before CHR '':'' host" "''.'' @ before CHR '':'' base"]
  by (auto simp: extractSubdomain_def Let_def split: if_splits)

lemma hex_digit_subdomain: "n < 16 \<Longrightarrow> subdomain_char (hex_digit n)"
  by (auto simp: hex_digit_def subdomain_char_def Let_def)

lemma hex_bytes_subdomain: "list_all subdomain_char (hex_bytes b)"
proof -
  have "unat w div 16 < 16" for w :: u8 using unat_u8_less [of w] by simp
  then show ?thesis by (auto simp: hex_bytes_def list_all_iff intro: hex_digit_subdomain)
qed

lemma length_hex_bytes: "length (hex_bytes b) = 2 * length b"
  by (induction b) (auto simp: hex_bytes_def)

lemma generateSubdomain_valid:
  assumes "\<And>b. rnd = Some b \<Longrightarrow> length b = 8"
  shows "validSubdomain (generateSubdomain rnd now) \<and> length (generateSubdomain rnd now) = 16"
proof (cases rnd)
  case None
  then show ?thesis
    by (simp add: generateSubdomain_def validSubdomain_def hex16_def limit_defs list_all_iff
        hex_digit_subdomain)
next
  case (Some b)
  then show ?thesis using assms [of b] hex_bytes_subdomain [of b] length_hex_bytes [of b]
    by (simp add: generateSubdomain_def validSubdomain_def limit_defs)
qed

section \<open>Registry laws\<close>

definition reg_inv :: "Registry \<Rightarrow> bool" where
  "reg_inv r \<longleftrightarrow> distinct (map fst (regTunnels r)) \<and> list_all (\<lambda>(s, t). tunSubdomain t = s) (regTunnels r)"

lemma reg_inv_New [simp]: "reg_inv NewRegistry"
  by (simp add: reg_inv_def NewRegistry_def)

lemma Get_New [simp]: "Get NewRegistry s = None"
  by (simp add: Get_def NewRegistry_def)

lemma reg_inv_Register: "reg_inv r \<Longrightarrow> reg_inv (fst (Register s h rnd r))"
proof -
  assume r: "reg_inv r"
  have "list_all (\<lambda>(s, t). tunSubdomain t = s)
      (AList.update s \<lparr>tunID = i, tunSubdomain = s, tunHandler = h\<rparr> (regTunnels r))" for i
    using r set_update_subset [of s _ "regTunnels r"] by (fastforce simp: reg_inv_def list_all_iff)
  with r show ?thesis
    by (auto simp: Register_def reg_inv_def Let_def gomap split: option.splits)
qed

lemma reg_inv_Unregister: "reg_inv r \<Longrightarrow> reg_inv (Unregister s r)"
  using set_delete_subset [of s "regTunnels r"]
  by (auto simp: Unregister_def reg_inv_def gomap list_all_iff)

lemma Get_Unregister [simp]: "reg_inv r \<Longrightarrow> Get (Unregister s r) = (Get r)(s := None)"
  by (auto simp: Unregister_def Get_def reg_inv_def gomap)

lemma Get_Register_ok:
  "reg_inv r \<Longrightarrow> Register s h rnd r = (r', Inr t) \<Longrightarrow>
   Get r s = None \<and> Get r' = (Get r)(s \<mapsto> t) \<and> tunSubdomain t = s \<and> tunHandler t = h \<and>
   (\<exists>b. rnd = Some b \<and> tunID t = get_be b)"
  by (cases "map_of (regTunnels r) s")
    (auto simp: Register_def Get_def reg_inv_def Let_def gomap split: option.splits)

lemma Register_err:
  "Register s h rnd r = (r', Inl e) \<Longrightarrow> r' = r \<and> (Get r s \<noteq> None \<or> rnd = None)"
  by (auto simp: Register_def Get_def Let_def split: option.splits if_splits)

lemma Get_subdomain: "reg_inv r \<Longrightarrow> Get r s = Some t \<Longrightarrow> tunSubdomain t = s"
  by (auto simp: Get_def reg_inv_def list_all_iff dest: map_of_SomeD)

lemma Snapshot_subdomains:
  "reg_inv r \<Longrightarrow> map tiSubdomain (Snapshot r) = map fst (regTunnels r)"
  by (auto simp: Snapshot_def reg_inv_def list_all_iff)

section \<open>Properties\<close>

text \<open>
  Host routing: a host name addresses the subdomain \<open>sub\<close> exactly when \<open>sub\<close> is a non-empty
  valid label and the host, with any port cut off, is \<open>sub\<close>, a dot and the base domain. In
  particular the public URL the server hands out for a tunnel, port included, leads back to it.
\<close>

theorem extractSubdomain_iff:
  "extractSubdomain host base = sub \<and> sub \<noteq> '''' \<longleftrightarrow>
     sub \<noteq> '''' \<and> validSubdomain sub \<and>
     before CHR '':'' host = sub @ ''.'' @ before CHR '':'' base"
proof
  assume "extractSubdomain host base = sub \<and> sub \<noteq> ''''"
  then show "sub \<noteq> '''' \<and> validSubdomain sub \<and>
     before CHR '':'' host = sub @ ''.'' @ before CHR '':'' base"
    using extractSubdomain_sound by blast
next
  assume a: "sub \<noteq> '''' \<and> validSubdomain sub \<and>
     before CHR '':'' host = sub @ ''.'' @ before CHR '':'' base"
  have "extractSubdomain host base = extractSubdomain (before CHR '':'' host) (before CHR '':'' base)"
    by (simp add: extractSubdomain_def)
  with a extractSubdomain_public_host [of sub "before CHR '':'' base"]
  show "extractSubdomain host base = sub \<and> sub \<noteq> ''''" by simp
qed

lemma Snapshot_names:
  assumes "reg_inv r"
  shows "distinct (map tiSubdomain (Snapshot r))" "set (map tiSubdomain (Snapshot r)) = dom (Get r)"
proof -
  show "distinct (map tiSubdomain (Snapshot r))"
    using assms by (simp add: Snapshot_subdomains) (simp add: reg_inv_def)
  show "set (map tiSubdomain (Snapshot r)) = dom (Get r)"
    using assms gm.keys_dom [of "regTunnels r"] unfolding Snapshot_subdomains [OF assms]
    by (simp add: Get_def [abs_def] reg_inv_def)
qed

text \<open>
  C27. The registry implements a first-come-first-served map: registering a free name stores a
  tunnel for that handler and nothing else, a taken name is refused and changes nothing, removing
  a name frees it alone, and the snapshot lists every registered name exactly once.
\<close>

theorem registry_refines_map:
  assumes "reg_inv r"
  shows "(case Register s h rnd r of
       (r', Inr t) \<Rightarrow> reg_inv r' \<and> Get r s = None \<and> Get r' = (Get r)(s \<mapsto> t) \<and>
         tunSubdomain t = s \<and> tunHandler t = h
     | (r', Inl e) \<Rightarrow> r' = r \<and> (Get r s \<noteq> None \<or> rnd = None)) \<and>
    reg_inv (Unregister s r) \<and> Get (Unregister s r) = (Get r)(s := None) \<and>
    distinct (map tiSubdomain (Snapshot r)) \<and> set (map tiSubdomain (Snapshot r)) = dom (Get r)"
proof (intro conjI)
  obtain r' res where reg: "Register s h rnd r = (r', res)" by fastforce
  show "case Register s h rnd r of
       (r', Inr t) \<Rightarrow> reg_inv r' \<and> Get r s = None \<and> Get r' = (Get r)(s \<mapsto> t) \<and>
         tunSubdomain t = s \<and> tunHandler t = h
     | (r', Inl e) \<Rightarrow> r' = r \<and> (Get r s \<noteq> None \<or> rnd = None)"
    using Get_Register_ok [OF assms, of s h rnd r'] Register_err [of s h rnd r r']
      reg_inv_Register [OF assms, of s h rnd] reg
    by (cases res) auto
qed (use assms in \<open>simp_all only: reg_inv_Unregister Get_Unregister Snapshot_names simp_thms\<close>)

theorem registry_refines_map_witness:
  "(case Register ''app'' 3 (Some [1,2,3,4,5,6,7,8]) NewRegistry of
       (r', Inr t) \<Rightarrow> reg_inv r' \<and> Get NewRegistry ''app'' = None \<and>
         Get r' = (Get NewRegistry)(''app'' \<mapsto> t) \<and> tunSubdomain t = ''app'' \<and> tunHandler t = 3
     | (r', Inl e) \<Rightarrow> r' = NewRegistry \<and>
         (Get NewRegistry ''app'' \<noteq> None \<or> Some [1,2,3,4,5,6,7,8::u8] = None)) \<and>
    reg_inv (Unregister ''app'' NewRegistry) \<and>
    Get (Unregister ''app'' NewRegistry) = (Get NewRegistry)(''app'' := None) \<and>
    distinct (map tiSubdomain (Snapshot NewRegistry)) \<and>
    set (map tiSubdomain (Snapshot NewRegistry)) = dom (Get NewRegistry)"
  by (rule registry_refines_map [OF reg_inv_New])

end
