(* ===== verification/Handler.thy ===== *)
theory Handler
  imports Registry PortAlloc
begin

text \<open>
  The server side of one client connection, \<^verbatim>\<open>internal/server/handler.go\<close>. A handler is a record
  with the fields of \<^verbatim>\<open>ClientHandler\<close>; what several handlers share (the two registries, the port
  allocator, the public ports with an open listener) is the record \<open>Shared\<close>. Every frame handler is a function
  on the pair of the two. What the code takes from outside is an argument: the random bytes, the
  clock, whether a write or a listen succeeds, and which case a \<^verbatim>\<open>select\<close> with two ready cases takes.

  Channels: \<^const>\<open>None\<close> is the nil channel, \<open>Some q\<close> a channel with buffered elements \<open>q\<close>; a
  signalling channel is the truth value of being closed. A \<^verbatim>\<open>pendingReq\<close> is shared by pointer between
  the map \<^verbatim>\<open>h.pending\<close> and the goroutine that waits for it; it is stored once, under its request ID,
  and \<open>hPending\<close> lists the keys of the map.
\<close>

section \<open>State\<close>

record tcpTunnel =
  ttID :: u64
  ttPublicPort :: u16
  ttLocalPort :: u16

record pendingReq =
  prResponse :: "HTTPResponse list option"
  prStreamData :: "bytes list option"
  prStreamClosed :: bool
  prDone :: bool
  prReady :: "bool option"

record Shared =
  shRegistry :: Registry
  shTLS :: "Registry option"
  shAlloc :: "PortAllocator option"
  shListeners :: "u16 list"

record ClientHandler =
  hSelf :: hid
  hHasConn :: bool
  hTunnels :: "(u64, Tunnel) gomap"
  hTunnelCount :: int
  hBaseDomain :: string
  hExpectedToken :: string
  hExpectedHash :: bytes
  hAuthenticated :: bool
  hClientVersion :: string
  hTcpHost :: string
  hTcpTunnels :: "(u64, tcpTunnel) gomap"
  hTlsTunnels :: "(u64, Tunnel) gomap"
  hPending :: "u64 list"
  hReqs :: "(u64, pendingReq) gomap"
  hRequestIDSeq :: u64
  hDone :: bool
  hOut :: "bytes list"

text \<open>What is fixed for a server process: its version, SHA-256 and the \<^verbatim>\<open>%q\<close> verb.\<close>

record config =
  cfVersion :: string
  cfSha256 :: "bytes \<Rightarrow> bytes"
  cfQuote :: "string \<Rightarrow> string"

text \<open>What one call draws from its environment.\<close>

record env =
  eSubRand :: "bytes option"
  eIdRand :: "bytes option"
  eRandErr :: string
  eNow :: nat
  eWriteOk :: bool
  eListenErr :: "string option"
  ePickDone :: bool

type_synonym hstate = "Shared \<times> ClientHandler"

definition NewClientHandler :: "config \<Rightarrow> hid \<Rightarrow> string \<Rightarrow> string \<Rightarrow> string \<Rightarrow> ClientHandler" where
  "NewClientHandler cf self baseDomain expectedToken tcpHost =
     \<lparr>hSelf = self, hHasConn = True, hTunnels = [], hTunnelCount = 0, hBaseDomain = baseDomain,
      hExpectedToken = expectedToken,
      hExpectedHash = (if expectedToken \<noteq> '''' then cfSha256 cf (bytes_of expectedToken)
                       else replicate 32 0),
      hAuthenticated = False, hClientVersion = '''', hTcpHost = tcpHost, hTcpTunnels = [],
      hTlsTunnels = [], hPending = [], hReqs = [], hRequestIDSeq = 0, hDone = False, hOut = []\<rparr>"

section \<open>Pending requests\<close>

definition closeReady :: "pendingReq \<Rightarrow> pendingReq" where
  "closeReady pr = (case prReady pr of None \<Rightarrow> pr | Some _ \<Rightarrow> pr\<lparr>prReady := Some True\<rparr>)"

definition closeDone :: "pendingReq \<Rightarrow> pendingReq" where
  "closeDone pr = pr\<lparr>prDone := True\<rparr>"

definition closeStream :: "pendingReq \<Rightarrow> pendingReq" where
  "closeStream pr = (case prStreamData pr of None \<Rightarrow> pr | Some _ \<Rightarrow> pr\<lparr>prStreamClosed := True\<rparr>)"

definition updReq :: "u64 \<Rightarrow> (pendingReq \<Rightarrow> pendingReq) \<Rightarrow> ClientHandler \<Rightarrow> ClientHandler" where
  "updReq rid f h = h\<lparr>hReqs := (case map_of (hReqs h) rid of None \<Rightarrow> hReqs h
                                | Some pr \<Rightarrow> AList.update rid (f pr) (hReqs h))\<rparr>"

definition lookupPending :: "ClientHandler \<Rightarrow> u64 \<Rightarrow> pendingReq option" where
  "lookupPending h rid = (if rid \<in> set (hPending h) then map_of (hReqs h) rid else None)"

definition addPending :: "u64 \<Rightarrow> pendingReq \<Rightarrow> ClientHandler \<Rightarrow> ClientHandler" where
  "addPending rid pr h =
     h\<lparr>hPending := List.insert rid (hPending h), hReqs := AList.update rid pr (hReqs h)\<rparr>"

definition removePending :: "u64 \<Rightarrow> ClientHandler \<Rightarrow> ClientHandler" where
  "removePending rid h = h\<lparr>hPending := removeAll rid (hPending h)\<rparr>"

definition nextRequestID :: "ClientHandler \<Rightarrow> u64 \<times> ClientHandler" where
  "nextRequestID h = (let n = hRequestIDSeq h + 1 in (n, h\<lparr>hRequestIDSeq := n\<rparr>))"

section \<open>Writing\<close>

definition writeMessage :: "bool \<Rightarrow> u8 \<Rightarrow> u64 \<Rightarrow> u64 \<Rightarrow> bytes \<Rightarrow> ClientHandler \<Rightarrow> ClientHandler \<times> bool" where
  "writeMessage wok msgType tunnelID requestID payload h =
     (let frame = EncodeFrame \<lparr>ftype = msgType, TunnelID = tunnelID, RequestID = requestID,
                               Payload = payload\<rparr>
      in if \<not> hHasConn h then (h, False)
         else if wok then (h\<lparr>hOut := hOut h @ [frame]\<rparr>, True)
         else (h, False))"

definition registerErr :: "bool \<Rightarrow> string \<Rightarrow> ClientHandler \<Rightarrow> ClientHandler" where
  "registerErr wok msg h = fst (writeMessage wok MsgRegisterErr 0 0 (bytes_of msg) h)"

definition SendStreamData :: "bool \<Rightarrow> u64 \<Rightarrow> bytes \<Rightarrow> ClientHandler \<Rightarrow> ClientHandler \<times> bool" where
  "SendStreamData wok requestID data h = writeMessage wok MsgStreamData 0 requestID data h"

definition SendStreamClose :: "bool \<Rightarrow> u64 \<Rightarrow> ClientHandler \<Rightarrow> ClientHandler \<times> bool" where
  "SendStreamClose wok requestID h = writeMessage wok MsgStreamClose 0 requestID [] h"

section \<open>Teardown\<close>

definition closeTCPTunnel :: "tcpTunnel \<Rightarrow> Shared \<Rightarrow> Shared" where
  "closeTCPTunnel tt sh =
     sh\<lparr>shListeners := removeAll (ttPublicPort tt) (shListeners sh),
        shAlloc := map_option (\<lambda>a. Release a (ttPublicPort tt)) (shAlloc sh)\<rparr>"

definition unregisterAll :: "(u64, Tunnel) gomap \<Rightarrow> Registry \<Rightarrow> Registry" where
  "unregisterAll ts r = fold (\<lambda>(_, t). Unregister (tunSubdomain t)) ts r"

text \<open>\<^verbatim>\<open>closeOnce.Do\<close>: the body runs once, on the first call.\<close>

definition cleanup :: "hstate \<Rightarrow> hstate" where
  "cleanup st = (case st of (sh, h) \<Rightarrow>
     if hDone h then (sh, h)
     else
       let sh1 = sh\<lparr>shRegistry := unregisterAll (hTunnels h) (shRegistry sh)\<rparr>;
           sh2 = fold (\<lambda>(_, tt). closeTCPTunnel tt) (hTcpTunnels h) sh1;
           sh3 = sh2\<lparr>shTLS := map_option (unregisterAll (hTlsTunnels h)) (shTLS sh2)\<rparr>;
           h1 = fold (\<lambda>rid. updReq rid (\<lambda>pr. closeDone (closeStream pr))) (hPending h) h
       in (sh3, h1\<lparr>hPending := [], hDone := True\<rparr>))"

section \<open>Authentication and registration\<close>

definition handleAuth :: "config \<Rightarrow> env \<Rightarrow> Frame \<Rightarrow> hstate \<Rightarrow> hstate" where
  "handleAuth cf e frame st = (case st of (sh, h) \<Rightarrow>
     case DecodeAuth (Payload frame) of
       Inl err \<Rightarrow>
         cleanup (sh, fst (writeMessage (eWriteOk e) MsgAuthErr 0 0 (bytes_of ''malformed auth'') h))
     | Inr (token, clientVersion) \<Rightarrow>
         if hExpectedToken h \<noteq> '''' \<and> hExpectedHash h \<noteq> cfSha256 cf (bytes_of token)
         then cleanup (sh, fst (writeMessage (eWriteOk e) MsgAuthErr 0 0 (bytes_of ''invalid token'') h))
         else
           let h1 = h\<lparr>hAuthenticated := True, hClientVersion := clientVersion\<rparr>
           in case EncodeAuthOK (cfVersion cf) of
                Inl _ \<Rightarrow> (sh, fst (writeMessage (eWriteOk e) MsgAuthOK 0 0 [] h1))
              | Inr p \<Rightarrow> (sh, fst (writeMessage (eWriteOk e) MsgAuthOK 0 0 p h1)))"

definition too_many :: string where
  "too_many = ''too many tunnels: max '' @ dec MaxTunnelsPerClient @ '' per client''"

definition public_url :: "string \<Rightarrow> string \<Rightarrow> string" where
  "public_url sub base = sub @ ''.'' @ base"

definition reply_payload :: "protoErr + bytes \<Rightarrow> bytes" where
  "reply_payload r = (case r of Inl _ \<Rightarrow> [] | Inr p \<Rightarrow> p)"

definition handleRegister :: "config \<Rightarrow> env \<Rightarrow> Frame \<Rightarrow> hstate \<Rightarrow> hstate" where
  "handleRegister cf e frame st = (case st of (sh, h) \<Rightarrow>
     let fail = (\<lambda>msg. (sh, registerErr (eWriteOk e) msg h)) in
     case DecodeRegister (Payload frame) of
       Inl err \<Rightarrow> fail (err_text (cfQuote cf) err)
     | Inr (localPort, requested) \<Rightarrow>
         if localPort = 0 then fail ''invalid port: 0''
         else if \<not> validSubdomain requested then fail ''invalid subdomain characters''
         else
           let sub = (if requested = '''' then generateSubdomain (eSubRand e) (eNow e) else requested);
               url = public_url sub (hBaseDomain h)
           in if length url > 255 then fail ''public URL too long''
              else if hTunnelCount h \<ge> int MaxTunnelsPerClient then fail too_many
              else case Register sub (hSelf h) (eIdRand e) (shRegistry sh) of
                (r', Inl err) \<Rightarrow> fail (reg_err_text (cfQuote cf) (eRandErr e) err)
              | (r', Inr t) \<Rightarrow>
                  (sh\<lparr>shRegistry := r'\<rparr>,
                   fst (writeMessage (eWriteOk e) MsgRegisterOK (tunID t) 0
                     (reply_payload (EncodeRegisterOK url (tunID t)))
                     (h\<lparr>hTunnels := AList.update (tunID t) t (hTunnels h),
                        hTunnelCount := hTunnelCount h + 1\<rparr>))))"

definition handleUnregister :: "env \<Rightarrow> Frame \<Rightarrow> hstate \<Rightarrow> hstate" where
  "handleUnregister e frame st = (case st of (sh, h) \<Rightarrow>
     case map_of (hTunnels h) (TunnelID frame) of
       None \<Rightarrow> (sh, fst (writeMessage (eWriteOk e) MsgUnregisterErr (TunnelID frame) 0
                       (bytes_of ''unknown tunnel'') h))
     | Some t \<Rightarrow>
         (sh\<lparr>shRegistry := Unregister (tunSubdomain t) (shRegistry sh)\<rparr>,
          fst (writeMessage (eWriteOk e) MsgUnregisterOK (TunnelID frame) 0 []
            (h\<lparr>hTunnels := AList.delete (TunnelID frame) (hTunnels h),
               hTunnelCount := hTunnelCount h - 1\<rparr>))))"

definition handleRegisterTLS :: "config \<Rightarrow> env \<Rightarrow> Frame \<Rightarrow> hstate \<Rightarrow> hstate" where
  "handleRegisterTLS cf e frame st = (case st of (sh, h) \<Rightarrow>
     let fail = (\<lambda>msg. (sh, registerErr (eWriteOk e) msg h)) in
     case DecodeRegister (Payload frame) of
       Inl err \<Rightarrow> fail (err_text (cfQuote cf) err)
     | Inr (localPort, requested) \<Rightarrow>
         if localPort = 0 then fail ''invalid port: 0''
         else case shTLS sh of
           None \<Rightarrow> fail ''tls passthrough not enabled on this server''
         | Some tls \<Rightarrow>
             if \<not> validSubdomain requested then fail ''invalid subdomain characters''
             else
               let sub = (if requested = '''' then generateSubdomain (eSubRand e) (eNow e) else requested);
                   url = public_url sub (hBaseDomain h)
               in if length url > 255 then fail ''public URL too long''
                  else if hTunnelCount h \<ge> int MaxTunnelsPerClient then fail too_many
                  else case Register sub (hSelf h) (eIdRand e) tls of
                    (r', Inl err) \<Rightarrow> fail (reg_err_text (cfQuote cf) (eRandErr e) err)
                  | (r', Inr t) \<Rightarrow>
                      (sh\<lparr>shTLS := Some r'\<rparr>,
                       fst (writeMessage (eWriteOk e) MsgRegisterOK (tunID t) 0
                         (reply_payload (EncodeRegisterOK url (tunID t)))
                         (h\<lparr>hTlsTunnels := AList.update (tunID t) t (hTlsTunnels h),
                            hTunnelCount := hTunnelCount h + 1\<rparr>))))"

definition handleRegisterTCP :: "config \<Rightarrow> env \<Rightarrow> Frame \<Rightarrow> hstate \<Rightarrow> hstate" where
  "handleRegisterTCP cf e frame st = (case st of (sh, h) \<Rightarrow>
     let fail = (\<lambda>sh' h' msg. (sh', registerErr (eWriteOk e) msg h')) in
     case DecodeRegisterTCP (Payload frame) of
       Inl err \<Rightarrow> fail sh h (err_text (cfQuote cf) err)
     | Inr (localPort, remotePort) \<Rightarrow>
         if localPort = 0 then fail sh h ''invalid port: 0''
         else case shAlloc sh of
           None \<Rightarrow> fail sh h ''tcp tunnels not enabled on this server''
         | Some alloc \<Rightarrow>
             if hTunnelCount h \<ge> int MaxTunnelsPerClient then fail sh h too_many
             else case Allocate alloc remotePort of
               (alloc', Inl err) \<Rightarrow> fail (sh\<lparr>shAlloc := Some alloc'\<rparr>) h (alloc_err_text err)
             | (alloc', Inr publicPort) \<Rightarrow>
                 case eListenErr e of
                   Some err \<Rightarrow>
                     fail (sh\<lparr>shAlloc := Some (Release alloc' publicPort)\<rparr>) h
                       (''listen on public port '' @ dec (unat publicPort) @ '': '' @ err)
                 | None \<Rightarrow>
                     let tt = \<lparr>ttID = generateTunnelID (eIdRand e) (eNow e),
                               ttPublicPort = publicPort, ttLocalPort = localPort\<rparr>;
                         sh1 = sh\<lparr>shAlloc := Some alloc',
                                  shListeners := publicPort # shListeners sh\<rparr>;
                         h1 = h\<lparr>hTcpTunnels := AList.update (ttID tt) tt (hTcpTunnels h),
                                hTunnelCount := hTunnelCount h + 1\<rparr>;
                         url = hTcpHost h @ '':'' @ dec (unat publicPort)
                     in case EncodeRegisterOK url (ttID tt) of
                          Inl err \<Rightarrow> fail (closeTCPTunnel tt sh1) h1 (err_text (cfQuote cf) err)
                        | Inr p \<Rightarrow>
                            (sh1, fst (writeMessage (eWriteOk e) MsgRegisterOK (ttID tt) 0 p h1)))"

section \<open>Responses and streams from the client\<close>

definition handleTCPReady :: "Frame \<Rightarrow> hstate \<Rightarrow> hstate" where
  "handleTCPReady frame st = (case st of (sh, h) \<Rightarrow>
     case lookupPending h (RequestID frame) of
       None \<Rightarrow> (sh, h)
     | Some _ \<Rightarrow> (sh, updReq (RequestID frame) closeReady h))"

text \<open>
  The response channel has capacity one. The remaining two cases of the \<^verbatim>\<open>select\<close> (request already
  done, five seconds passed) leave the state alone.
\<close>

definition handleHTTPRes :: "env \<Rightarrow> Frame \<Rightarrow> hstate \<Rightarrow> hstate" where
  "handleHTTPRes e frame st = (case st of (sh, h) \<Rightarrow>
     case DecodeHTTPResponse (Payload frame) of
       Inl _ \<Rightarrow> (sh, h)
     | Inr resp \<Rightarrow>
         (case lookupPending h (RequestID frame) of
            None \<Rightarrow> (sh, h)
          | Some pr \<Rightarrow>
              let h1 = (if prStreamData pr = None then removePending (RequestID frame) h else h)
              in case prResponse pr of
                   None \<Rightarrow> (sh, h1)
                 | Some q \<Rightarrow>
                     if length q < 1 \<and> \<not> (prDone pr \<and> ePickDone e)
                     then (sh, updReq (RequestID frame) (\<lambda>pr. pr\<lparr>prResponse := Some (q @ [resp])\<rparr>) h1)
                     else (sh, h1)))"

text \<open>
  A send on a closed channel panics and the panic is recovered, so the chunk is dropped. A full
  channel that nobody drains within the timeout closes the stream.
\<close>

definition handleStreamData :: "env \<Rightarrow> Frame \<Rightarrow> hstate \<Rightarrow> hstate" where
  "handleStreamData e frame st = (case st of (sh, h) \<Rightarrow>
     case lookupPending h (RequestID frame) of
       None \<Rightarrow> (sh, h)
     | Some pr \<Rightarrow>
         (case prStreamData pr of
            None \<Rightarrow> (sh, h)
          | Some q \<Rightarrow>
              if prStreamClosed pr \<or> prDone pr \<and> ePickDone e then (sh, h)
              else if length q < StreamRelayBuf
                then (sh, updReq (RequestID frame)
                        (\<lambda>pr. pr\<lparr>prStreamData := Some (q @ [Payload frame])\<rparr>) h)
              else if prDone pr then (sh, h)
              else (sh, fst (SendStreamClose (eWriteOk e) (RequestID frame)
                          (updReq (RequestID frame) closeStream
                            (removePending (RequestID frame) h))))))"

definition handleStreamClose :: "Frame \<Rightarrow> hstate \<Rightarrow> hstate" where
  "handleStreamClose frame st = (case st of (sh, h) \<Rightarrow>
     case lookupPending h (RequestID frame) of
       None \<Rightarrow> (sh, h)
     | Some pr \<Rightarrow>
         let h1 = removePending (RequestID frame) h
         in if prStreamData pr = None then (sh, h1)
            else (sh, updReq (RequestID frame) (\<lambda>pr. closeStream (closeReady pr)) h1))"

section \<open>Dispatch\<close>

definition handleFrame :: "config \<Rightarrow> env \<Rightarrow> Frame \<Rightarrow> hstate \<Rightarrow> hstate" where
  "handleFrame cf e frame st = (case st of (sh, h) \<Rightarrow>
     if \<not> hAuthenticated h \<and> ftype frame \<noteq> MsgAuth
     then (sh, fst (writeMessage (eWriteOk e) MsgAuthErr 0 0 (bytes_of ''authenticate first'') h))
     else if ftype frame = MsgAuth then handleAuth cf e frame st
     else if ftype frame = MsgRegister then handleRegister cf e frame st
     else if ftype frame = MsgUnregister then handleUnregister e frame st
     else if ftype frame = MsgRegisterTCP then handleRegisterTCP cf e frame st
     else if ftype frame = MsgRegisterTLS then handleRegisterTLS cf e frame st
     else if ftype frame = MsgTCPOpen then handleTCPReady frame st
     else if ftype frame = MsgHTTPRes then handleHTTPRes e frame st
     else if ftype frame = MsgStreamData then handleStreamData e frame st
     else if ftype frame = MsgStreamClose then handleStreamClose frame st
     else if ftype frame = MsgCloseTunnel then cleanup st
     else st)"

text \<open>
  The read loop: \<open>msgs\<close> are the messages \<^verbatim>\<open>ReadMessage\<close> returns before its first error, each with
  the environment of its handling; a message that is no frame is skipped; the deferred
  \<^verbatim>\<open>cleanup\<close> runs at the end.
\<close>

fun RunLoop :: "config \<Rightarrow> (env \<times> bytes) list \<Rightarrow> hstate \<Rightarrow> hstate" where
  "RunLoop cf [] st = cleanup st"
| "RunLoop cf ((e, msg) # msgs) st =
     (case DecodeFrame msg of
        Inl _ \<Rightarrow> RunLoop cf msgs st
      | Inr frame \<Rightarrow> RunLoop cf msgs (handleFrame cf e frame st))"

section \<open>What the helpers leave alone\<close>

lemma writeMessage_fields [simp]:
  "hSelf (fst (writeMessage w m t r p h)) = hSelf h"
  "hHasConn (fst (writeMessage w m t r p h)) = hHasConn h"
  "hTunnels (fst (writeMessage w m t r p h)) = hTunnels h"
  "hTunnelCount (fst (writeMessage w m t r p h)) = hTunnelCount h"
  "hBaseDomain (fst (writeMessage w m t r p h)) = hBaseDomain h"
  "hExpectedToken (fst (writeMessage w m t r p h)) = hExpectedToken h"
  "hExpectedHash (fst (writeMessage w m t r p h)) = hExpectedHash h"
  "hAuthenticated (fst (writeMessage w m t r p h)) = hAuthenticated h"
  "hTcpHost (fst (writeMessage w m t r p h)) = hTcpHost h"
  "hTcpTunnels (fst (writeMessage w m t r p h)) = hTcpTunnels h"
  "hTlsTunnels (fst (writeMessage w m t r p h)) = hTlsTunnels h"
  "hPending (fst (writeMessage w m t r p h)) = hPending h"
  "hReqs (fst (writeMessage w m t r p h)) = hReqs h"
  "hRequestIDSeq (fst (writeMessage w m t r p h)) = hRequestIDSeq h"
  "hDone (fst (writeMessage w m t r p h)) = hDone h"
  by (simp_all add: writeMessage_def Let_def)

lemma hOut_writeMessage:
  "hOut (fst (writeMessage w m t r p h)) =
     hOut h @ (if hHasConn h \<and> w
               then [EncodeFrame \<lparr>ftype = m, TunnelID = t, RequestID = r, Payload = p\<rparr>] else [])"
  by (simp add: writeMessage_def Let_def)

lemma snd_writeMessage: "snd (writeMessage w m t r p h) = (hHasConn h \<and> w)"
  by (simp add: writeMessage_def Let_def)

text \<open>
  The resources of a handler: what its teardown gives back, and what decides whether it may take
  more. Stream and response traffic does not touch them.
\<close>

record resources =
  rsSelf :: hid
  rsBase :: string
  rsToken :: string
  rsHash :: bytes
  rsAuth :: bool
  rsHost :: string
  rsTunnels :: "(u64, Tunnel) gomap"
  rsTcp :: "(u64, tcpTunnel) gomap"
  rsTls :: "(u64, Tunnel) gomap"
  rsCount :: int
  rsDone :: bool

definition resources_of :: "ClientHandler \<Rightarrow> resources" where
  "resources_of h = \<lparr>rsSelf = hSelf h, rsBase = hBaseDomain h, rsToken = hExpectedToken h,
     rsHash = hExpectedHash h, rsAuth = hAuthenticated h, rsHost = hTcpHost h, rsTunnels = hTunnels h,
     rsTcp = hTcpTunnels h, rsTls = hTlsTunnels h, rsCount = hTunnelCount h, rsDone = hDone h\<rparr>"

lemma resources_of_eq_iff:
  "resources_of h' = resources_of h \<longleftrightarrow>
     hSelf h' = hSelf h \<and> hBaseDomain h' = hBaseDomain h \<and> hExpectedToken h' = hExpectedToken h \<and>
     hExpectedHash h' = hExpectedHash h \<and> hAuthenticated h' = hAuthenticated h \<and>
     hTcpHost h' = hTcpHost h \<and> hTunnels h' = hTunnels h \<and> hTcpTunnels h' = hTcpTunnels h \<and>
     hTlsTunnels h' = hTlsTunnels h \<and> hTunnelCount h' = hTunnelCount h \<and> hDone h' = hDone h"
  by (simp add: resources_of_def)

named_theorems frame_cond \<open>operations that leave the resources of a handler alone\<close>

lemma resources_writeMessage [frame_cond]:
  "resources_of (fst (writeMessage w m t r p h)) = resources_of h"
  by (simp add: resources_of_eq_iff)

lemma resources_registerErr [frame_cond]: "resources_of (registerErr w msg h) = resources_of h"
  by (simp add: registerErr_def frame_cond)

lemma resources_updReq [frame_cond]: "resources_of (updReq rid f h) = resources_of h"
  by (simp add: updReq_def resources_of_def)

lemma resources_addPending [frame_cond]: "resources_of (addPending rid pr h) = resources_of h"
  by (simp add: addPending_def resources_of_def)

lemma resources_removePending [frame_cond]: "resources_of (removePending rid h) = resources_of h"
  by (simp add: removePending_def resources_of_def)

lemma resources_fold_updReq [frame_cond]:
  "resources_of (fold (\<lambda>rid. updReq rid f) rids h) = resources_of h"
  by (induction rids arbitrary: h) (simp_all add: frame_cond)

lemma resources_send [frame_cond]:
  "resources_of (fst (SendStreamData w rid d h)) = resources_of h"
  "resources_of (fst (SendStreamClose w rid h)) = resources_of h"
  by (simp_all add: SendStreamData_def SendStreamClose_def frame_cond)

text \<open>The frames that carry traffic leave the shared state and the resources alone.\<close>

definition same_resources :: "hstate \<Rightarrow> hstate \<Rightarrow> bool" where
  "same_resources st st' \<longleftrightarrow> fst st' = fst st \<and> resources_of (snd st') = resources_of (snd st)"

lemma traffic_same_resources:
  "same_resources st (handleTCPReady frame st)"
  "same_resources st (handleHTTPRes e frame st)"
  "same_resources st (handleStreamData e frame st)"
  "same_resources st (handleStreamClose frame st)"
  by (auto simp: same_resources_def handleTCPReady_def handleHTTPRes_def handleStreamData_def
      handleStreamClose_def frame_cond Let_def split: prod.splits option.splits sum.splits)

section \<open>Teardown as bulk operations on the pools\<close>

definition subdomains :: "(u64, Tunnel) gomap \<Rightarrow> string list" where
  "subdomains ts = map (\<lambda>(_, t). tunSubdomain t) ts"

definition public_ports :: "(u64, tcpTunnel) gomap \<Rightarrow> u16 list" where
  "public_ports ts = map (\<lambda>(_, tt). ttPublicPort tt) ts"

definition release_all :: "resources \<Rightarrow> Shared \<Rightarrow> Shared" where
  "release_all r sh =
     sh\<lparr>shRegistry := fold Unregister (subdomains (rsTunnels r)) (shRegistry sh),
        shTLS := map_option (fold Unregister (subdomains (rsTls r))) (shTLS sh),
        shAlloc := map_option (fold (\<lambda>p a. Release a p) (public_ports (rsTcp r))) (shAlloc sh),
        shListeners := fold removeAll (public_ports (rsTcp r)) (shListeners sh)\<rparr>"

lemma unregisterAll_eq: "unregisterAll ts r = fold Unregister (subdomains ts) r"
  by (induction ts arbitrary: r) (auto simp: unregisterAll_def subdomains_def)

lemma fold_closeTCPTunnel:
  "fold (\<lambda>(_, tt). closeTCPTunnel tt) ts sh =
     sh\<lparr>shAlloc := map_option (fold (\<lambda>p a. Release a p) (public_ports ts)) (shAlloc sh),
        shListeners := fold removeAll (public_ports ts) (shListeners sh)\<rparr>"
  by (induction ts arbitrary: sh)
    (auto simp: public_ports_def closeTCPTunnel_def option.map_comp o_def option.map_id0)

lemma unregisterAll_map: "map_option (unregisterAll ts) m = map_option (fold Unregister (subdomains ts)) m"
  by (cases m) (simp_all add: unregisterAll_eq)

lemma cleanup_eq:
  "\<not> hDone h \<Longrightarrow> fst (cleanup (sh, h)) = release_all (resources_of h) sh"
  "hDone h \<Longrightarrow> cleanup (sh, h) = (sh, h)"
  by (simp_all add: cleanup_def Let_def release_all_def resources_of_def unregisterAll_eq
      fold_closeTCPTunnel unregisterAll_map)

lemma resources_cleanup: "resources_of (snd (cleanup (sh, h))) = (resources_of h)\<lparr>rsDone := True\<rparr>"
proof (cases "hDone h")
  case False
  let ?h = "fold (\<lambda>rid. updReq rid (\<lambda>pr. closeDone (closeStream pr))) (hPending h) h"
  have "resources_of (?h\<lparr>hPending := [], hDone := True\<rparr>) = (resources_of ?h)\<lparr>rsDone := True\<rparr>"
    by (simp add: resources_of_def)
  then show ?thesis using False by (simp add: cleanup_def Let_def frame_cond)
qed (simp add: cleanup_eq resources_of_def)

section \<open>The contract of a connection\<close>

text \<open>
  What one frame may do to the shared state and to the resources of the connection it arrives on,
  whatever its bytes are. Everything else a handler does is traffic.
\<close>

inductive res_step :: "config \<Rightarrow> Shared \<times> resources \<Rightarrow> Shared \<times> resources \<Rightarrow> bool" for cf where
  res_keep: "res_step cf (sh, r) (sh, r)"
| res_auth: "rsToken r = '''' \<or> rsHash r = cfSha256 cf (bytes_of token) \<Longrightarrow>
    res_step cf (sh, r) (sh, r\<lparr>rsAuth := True\<rparr>)"
| res_down: "\<not> rsDone r \<Longrightarrow> res_step cf (sh, r) (release_all r sh, r\<lparr>rsDone := True\<rparr>)"
| res_http: "rsAuth r \<Longrightarrow> rsCount r < int MaxTunnelsPerClient \<Longrightarrow> sub \<noteq> '''' \<Longrightarrow> validSubdomain sub \<Longrightarrow>
    Register sub (rsSelf r) rnd (shRegistry sh) = (g, Inr t) \<Longrightarrow> map_of (rsTunnels r) (tunID t) = None \<Longrightarrow>
    res_step cf (sh, r) (sh\<lparr>shRegistry := g\<rparr>,
      r\<lparr>rsTunnels := AList.update (tunID t) t (rsTunnels r), rsCount := rsCount r + 1\<rparr>)"
| res_drop: "rsAuth r \<Longrightarrow> map_of (rsTunnels r) i = Some t \<Longrightarrow>
    res_step cf (sh, r) (sh\<lparr>shRegistry := Unregister (tunSubdomain t) (shRegistry sh)\<rparr>,
      r\<lparr>rsTunnels := AList.delete i (rsTunnels r), rsCount := rsCount r - 1\<rparr>)"
| res_tls: "rsAuth r \<Longrightarrow> rsCount r < int MaxTunnelsPerClient \<Longrightarrow> sub \<noteq> '''' \<Longrightarrow> validSubdomain sub \<Longrightarrow>
    shTLS sh = Some g0 \<Longrightarrow> Register sub (rsSelf r) rnd g0 = (g, Inr t) \<Longrightarrow> map_of (rsTls r) (tunID t) = None \<Longrightarrow>
    res_step cf (sh, r) (sh\<lparr>shTLS := Some g\<rparr>,
      r\<lparr>rsTls := AList.update (tunID t) t (rsTls r), rsCount := rsCount r + 1\<rparr>)"
| res_tcp: "rsAuth r \<Longrightarrow> rsCount r < int MaxTunnelsPerClient \<Longrightarrow> shAlloc sh = Some a \<Longrightarrow>
    Allocate a pref = (a', Inr p) \<Longrightarrow> ttPublicPort tt = p \<Longrightarrow> map_of (rsTcp r) (ttID tt) = None \<Longrightarrow>
    res_step cf (sh, r) (sh\<lparr>shAlloc := Some a', shListeners := p # shListeners sh\<rparr>,
      r\<lparr>rsTcp := AList.update (ttID tt) tt (rsTcp r), rsCount := rsCount r + 1\<rparr>)"
| res_full: "rsAuth r \<Longrightarrow> shAlloc sh = Some a \<Longrightarrow> Allocate a pref = (a', Inl err) \<Longrightarrow>
    res_step cf (sh, r) (sh\<lparr>shAlloc := Some a'\<rparr>, r)"
| res_nolisten: "rsAuth r \<Longrightarrow> shAlloc sh = Some a \<Longrightarrow> Allocate a pref = (a', Inr p) \<Longrightarrow>
    res_step cf (sh, r) (sh\<lparr>shAlloc := Some (Release a' p)\<rparr>, r)"

text \<open>
  The two conditions under which the contract is met: the 64-bit identifier drawn is none the
  connection already uses, and the advertised TCP host leaves room for \<^verbatim>\<open>:65535\<close> in a
  255-byte URL.
\<close>

definition fresh_id :: "env \<Rightarrow> ClientHandler \<Rightarrow> bool" where
  "fresh_id e h \<longleftrightarrow>
     (let i = generateTunnelID (eIdRand e) (eNow e)
      in map_of (hTunnels h) i = None \<and> map_of (hTcpTunnels h) i = None \<and> map_of (hTlsTunnels h) i = None)"

definition good_rand :: "env \<Rightarrow> bool" where
  "good_rand e \<longleftrightarrow> (case eSubRand e of None \<Rightarrow> True | Some b \<Rightarrow> length b = 8)"

definition short_host :: "ClientHandler \<Rightarrow> bool" where
  "short_host h \<longleftrightarrow> length (hTcpHost h) \<le> 249"

abbreviation meets :: "config \<Rightarrow> hstate \<Rightarrow> hstate \<Rightarrow> bool" where
  "meets cf st st' \<equiv> res_step cf (fst st, resources_of (snd st)) (fst st', resources_of (snd st'))"

lemma meets_same: "same_resources st st' \<Longrightarrow> meets cf st st'"
  by (simp add: same_resources_def res_keep)

lemma meets_cleanup: "meets cf (sh, h) (cleanup (sh, h))"
proof (cases "hDone h")
  case True
  then show ?thesis by (simp add: cleanup_eq res_keep)
next
  case False
  then have "\<not> rsDone (resources_of h)" by (simp add: resources_of_def)
  from res_down [OF this] show ?thesis using False by (simp add: cleanup_eq resources_cleanup)
qed

lemma meets_cleanup_write:
  "meets cf (sh, h) (cleanup (sh, fst (writeMessage w m t r p h)))"
  using meets_cleanup [of cf sh "fst (writeMessage w m t r p h)"] by (simp add: frame_cond)

lemma meets_auth: "meets cf (sh, h) (handleAuth cf e frame (sh, h))"
proof (cases "DecodeAuth (Payload frame)")
  case (Inl err)
  then show ?thesis using meets_cleanup_write by (simp add: handleAuth_def)
next
  case (Inr tv)
  obtain token version where tv: "tv = (token, version)" by fastforce
  show ?thesis
  proof (cases "hExpectedToken h \<noteq> '''' \<and> hExpectedHash h \<noteq> cfSha256 cf (bytes_of token)")
    case True
    then show ?thesis using meets_cleanup_write Inr tv by (simp add: handleAuth_def)
  next
    case False
    let ?h = "h\<lparr>hAuthenticated := True, hClientVersion := version\<rparr>"
    have r: "resources_of ?h = (resources_of h)\<lparr>rsAuth := True\<rparr>" by (simp add: resources_of_def)
    have "res_step cf (sh, resources_of h) (sh, resources_of ?h)"
      unfolding r by (rule res_auth [of _ _ token]) (use False in \<open>simp add: resources_of_def\<close>)
    then show ?thesis using False Inr tv
      by (auto simp: handleAuth_def Let_def frame_cond split: sum.splits)
  qed
qed

text \<open>The name a registration asks for: the requested one, or a generated one.\<close>

definition wanted_name :: "env \<Rightarrow> string \<Rightarrow> string" where
  "wanted_name e requested = (if requested = '''' then generateSubdomain (eSubRand e) (eNow e) else requested)"

lemma wanted_name_valid:
  "good_rand e \<Longrightarrow> validSubdomain requested \<Longrightarrow> wanted_name e requested \<noteq> '''' \<and> validSubdomain (wanted_name e requested)"
  using generateSubdomain_valid [of "eSubRand e" "eNow e"]
  by (auto simp: wanted_name_def good_rand_def split: option.splits)

definition reg_accepts :: "env \<Rightarrow> Frame \<Rightarrow> ClientHandler \<Rightarrow> string option" where
  "reg_accepts e frame h = (case DecodeRegister (Payload frame) of
       Inl _ \<Rightarrow> None
     | Inr (localPort, requested) \<Rightarrow>
         if localPort \<noteq> 0 \<and> validSubdomain requested \<and>
            length (public_url (wanted_name e requested) (hBaseDomain h)) \<le> 255 \<and>
            hTunnelCount h < int MaxTunnelsPerClient
         then Some (wanted_name e requested) else None)"

lemma reg_accepts_valid:
  "good_rand e \<Longrightarrow> reg_accepts e frame h = Some sub \<Longrightarrow>
   sub \<noteq> '''' \<and> validSubdomain sub \<and> length (public_url sub (hBaseDomain h)) \<le> 255 \<and>
   hTunnelCount h < int MaxTunnelsPerClient"
  using wanted_name_valid [of e] by (auto simp: reg_accepts_def split: sum.splits if_splits)

definition reg_done :: "env \<Rightarrow> string \<Rightarrow> Tunnel \<Rightarrow> ClientHandler \<Rightarrow> ClientHandler" where
  "reg_done e sub t h = fst (writeMessage (eWriteOk e) MsgRegisterOK (tunID t) 0
     (reply_payload (EncodeRegisterOK (public_url sub (hBaseDomain h)) (tunID t))) h)"

lemma handleRegister_ok:
  assumes "reg_accepts e frame h = Some sub" "Register sub (hSelf h) (eIdRand e) (shRegistry sh) = (g, Inr t)"
  shows "handleRegister cf e frame (sh, h) = (sh\<lparr>shRegistry := g\<rparr>, reg_done e sub t
     (h\<lparr>hTunnels := AList.update (tunID t) t (hTunnels h), hTunnelCount := hTunnelCount h + 1\<rparr>))"
  using assms by (auto simp: handleRegister_def reg_accepts_def reg_done_def wanted_name_def Let_def
      split: sum.splits if_splits)

lemma handleRegister_refused:
  assumes "\<And>sub. reg_accepts e frame h = Some sub \<Longrightarrow> \<exists>g err. Register sub (hSelf h) (eIdRand e) (shRegistry sh) = (g, Inl err)"
  shows "\<exists>msg. handleRegister cf e frame (sh, h) = (sh, registerErr (eWriteOk e) msg h)"
proof (cases "reg_accepts e frame h")
  case None
  then show ?thesis
    by (auto simp: handleRegister_def reg_accepts_def wanted_name_def Let_def split: sum.splits if_splits)
next
  case (Some sub)
  with assms obtain g err where "Register sub (hSelf h) (eIdRand e) (shRegistry sh) = (g, Inl err)" by blast
  with Some show ?thesis
    by (auto simp: handleRegister_def reg_accepts_def wanted_name_def Let_def split: sum.splits if_splits)
qed

lemma handleRegisterTLS_ok:
  assumes "reg_accepts e frame h = Some sub" "shTLS sh = Some g0"
    "Register sub (hSelf h) (eIdRand e) g0 = (g, Inr t)"
  shows "handleRegisterTLS cf e frame (sh, h) = (sh\<lparr>shTLS := Some g\<rparr>, reg_done e sub t
     (h\<lparr>hTlsTunnels := AList.update (tunID t) t (hTlsTunnels h), hTunnelCount := hTunnelCount h + 1\<rparr>))"
  using assms by (auto simp: handleRegisterTLS_def reg_accepts_def reg_done_def wanted_name_def Let_def
      split: sum.splits if_splits)

lemma handleRegisterTLS_refused:
  assumes "\<And>sub g0. reg_accepts e frame h = Some sub \<Longrightarrow> shTLS sh = Some g0 \<Longrightarrow>
     \<exists>g err. Register sub (hSelf h) (eIdRand e) g0 = (g, Inl err)"
  shows "\<exists>msg. handleRegisterTLS cf e frame (sh, h) = (sh, registerErr (eWriteOk e) msg h)"
proof (cases "shTLS sh = None \<or> reg_accepts e frame h = None")
  case True
  then show ?thesis
    by (cases "shTLS sh")
      (auto simp: handleRegisterTLS_def reg_accepts_def wanted_name_def Let_def split: sum.splits if_splits)
next
  case False
  then obtain sub g0 where s: "reg_accepts e frame h = Some sub" "shTLS sh = Some g0" by auto
  with assms obtain g err where "Register sub (hSelf h) (eIdRand e) g0 = (g, Inl err)" by blast
  with s show ?thesis
    by (auto simp: handleRegisterTLS_def reg_accepts_def wanted_name_def Let_def split: sum.splits if_splits)
qed

lemma same_registerErr: "same_resources (sh, h) (sh, registerErr w msg h)"
  by (simp add: same_resources_def frame_cond)

lemma resources_reg_done [frame_cond]: "resources_of (reg_done e sub t h) = resources_of h"
  by (simp add: reg_done_def frame_cond)

lemma Register_id_fresh:
  assumes "Register s c (eIdRand e) g = (g', Inr t)" "fresh_id e h"
  shows "map_of (hTunnels h) (tunID t) = None \<and> map_of (hTlsTunnels h) (tunID t) = None"
  using assms by (auto simp: Register_def fresh_id_def generateTunnelID_def Let_def
      split: if_splits option.splits)

lemma meets_register:
  assumes "hAuthenticated h" "fresh_id e h" "good_rand e"
  shows "meets cf (sh, h) (handleRegister cf e frame (sh, h))"
proof (cases "\<exists>sub g t. reg_accepts e frame h = Some sub \<and>
    Register sub (hSelf h) (eIdRand e) (shRegistry sh) = (g, Inr t)")
  case True
  then obtain sub g t where acc: "reg_accepts e frame h = Some sub"
    and reg: "Register sub (hSelf h) (eIdRand e) (shRegistry sh) = (g, Inr t)" by blast
  let ?r = "resources_of h"
  have "res_step cf (sh, ?r) (sh\<lparr>shRegistry := g\<rparr>,
      ?r\<lparr>rsTunnels := AList.update (tunID t) t (rsTunnels ?r), rsCount := rsCount ?r + 1\<rparr>)"
    by (rule res_http [where sub = sub and rnd = "eIdRand e"])
      (use assms reg_accepts_valid [OF assms(3) acc] reg Register_id_fresh [OF reg assms(2)]
       in \<open>simp_all add: resources_of_def\<close>)
  then show ?thesis
    by (simp add: handleRegister_ok [OF acc reg] frame_cond) (simp add: resources_of_def)
next
  case False
  then have "\<exists>msg. handleRegister cf e frame (sh, h) = (sh, registerErr (eWriteOk e) msg h)"
    by (intro handleRegister_refused) (metis prod.exhaust sum.exhaust)
  then show ?thesis using meets_same [OF same_registerErr] by metis
qed

lemma meets_registerTLS:
  assumes "hAuthenticated h" "fresh_id e h" "good_rand e"
  shows "meets cf (sh, h) (handleRegisterTLS cf e frame (sh, h))"
proof (cases "\<exists>sub g0 g t. reg_accepts e frame h = Some sub \<and> shTLS sh = Some g0 \<and>
    Register sub (hSelf h) (eIdRand e) g0 = (g, Inr t)")
  case True
  then obtain sub g0 g t where acc: "reg_accepts e frame h = Some sub" and tls: "shTLS sh = Some g0"
    and reg: "Register sub (hSelf h) (eIdRand e) g0 = (g, Inr t)" by blast
  let ?r = "resources_of h"
  have "res_step cf (sh, ?r) (sh\<lparr>shTLS := Some g\<rparr>,
      ?r\<lparr>rsTls := AList.update (tunID t) t (rsTls ?r), rsCount := rsCount ?r + 1\<rparr>)"
    by (rule res_tls [where sub = sub and rnd = "eIdRand e"])
      (use assms reg_accepts_valid [OF assms(3) acc] reg tls Register_id_fresh [OF reg assms(2)]
       in \<open>simp_all add: resources_of_def\<close>)
  then show ?thesis
    by (simp add: handleRegisterTLS_ok [OF acc tls reg] frame_cond) (simp add: resources_of_def)
next
  case False
  then have "\<exists>msg. handleRegisterTLS cf e frame (sh, h) = (sh, registerErr (eWriteOk e) msg h)"
    by (intro handleRegisterTLS_refused) (metis prod.exhaust sum.exhaust)
  then show ?thesis using meets_same [OF same_registerErr] by metis
qed

lemma length_tcp_url:
  assumes "short_host h"
  shows "\<exists>p. EncodeRegisterOK (hTcpHost h @ '':'' @ dec (unat (port :: u16))) i = Inr p"
proof -
  have "length (dec (unat port)) \<le> 5"
    by (rule length_dec) (use unat_u16_less [of port] in simp_all)
  with assms show ?thesis by (simp add: EncodeRegisterOK_def short_host_def)
qed

text \<open>What a TCP registration that passes the first checks is granted.\<close>

definition tcp_accepts :: "Frame \<Rightarrow> ClientHandler \<Rightarrow> (u16 \<times> u16) option" where
  "tcp_accepts frame h = (case DecodeRegisterTCP (Payload frame) of
       Inl _ \<Rightarrow> None
     | Inr (localPort, remotePort) \<Rightarrow>
         if localPort \<noteq> 0 \<and> hTunnelCount h < int MaxTunnelsPerClient then Some (localPort, remotePort) else None)"

definition new_tcp :: "env \<Rightarrow> u16 \<Rightarrow> u16 \<Rightarrow> tcpTunnel" where
  "new_tcp e publicPort localPort =
     \<lparr>ttID = generateTunnelID (eIdRand e) (eNow e), ttPublicPort = publicPort, ttLocalPort = localPort\<rparr>"

lemma handleRegisterTCP_ok:
  assumes "tcp_accepts frame h = Some (lp, rp)" "shAlloc sh = Some a" "Allocate a rp = (a', Inr p)"
    "eListenErr e = None" "EncodeRegisterOK (hTcpHost h @ '':'' @ dec (unat p)) (ttID (new_tcp e p lp)) = Inr pl"
  shows "handleRegisterTCP cf e frame (sh, h) =
     (sh\<lparr>shAlloc := Some a', shListeners := p # shListeners sh\<rparr>,
      fst (writeMessage (eWriteOk e) MsgRegisterOK (ttID (new_tcp e p lp)) 0 pl
        (h\<lparr>hTcpTunnels := AList.update (ttID (new_tcp e p lp)) (new_tcp e p lp) (hTcpTunnels h),
           hTunnelCount := hTunnelCount h + 1\<rparr>)))"
  using assms by (auto simp: handleRegisterTCP_def tcp_accepts_def new_tcp_def Let_def
      split: sum.splits if_splits)

lemma handleRegisterTCP_nolisten:
  assumes "tcp_accepts frame h = Some (lp, rp)" "shAlloc sh = Some a" "Allocate a rp = (a', Inr p)"
    "eListenErr e = Some err"
  shows "\<exists>msg. handleRegisterTCP cf e frame (sh, h) =
     (sh\<lparr>shAlloc := Some (Release a' p)\<rparr>, registerErr (eWriteOk e) msg h)"
  using assms by (auto simp: handleRegisterTCP_def tcp_accepts_def Let_def split: sum.splits if_splits)

lemma handleRegisterTCP_full:
  assumes "tcp_accepts frame h = Some (lp, rp)" "shAlloc sh = Some a" "Allocate a rp = (a', Inl err)"
  shows "\<exists>msg. handleRegisterTCP cf e frame (sh, h) =
     (sh\<lparr>shAlloc := Some a'\<rparr>, registerErr (eWriteOk e) msg h)"
  using assms by (auto simp: handleRegisterTCP_def tcp_accepts_def Let_def split: sum.splits if_splits)

lemma handleRegisterTCP_refused:
  assumes "tcp_accepts frame h = None \<or> shAlloc sh = None"
  shows "\<exists>msg. handleRegisterTCP cf e frame (sh, h) = (sh, registerErr (eWriteOk e) msg h)"
  using assms by (cases "shAlloc sh")
    (auto simp: handleRegisterTCP_def tcp_accepts_def Let_def split: sum.splits if_splits)

lemma meets_registerTCP:
  assumes auth: "hAuthenticated h" and fresh: "fresh_id e h" and "short_host h"
  shows "meets cf (sh, h) (handleRegisterTCP cf e frame (sh, h))"
proof (cases "tcp_accepts frame h = None \<or> shAlloc sh = None")
  case True
  from handleRegisterTCP_refused [OF this] show ?thesis using meets_same [OF same_registerErr] by metis
next
  case False
  then obtain lp rp a where acc: "tcp_accepts frame h = Some (lp, rp)" and a: "shAlloc sh = Some a" by auto
  have room: "hTunnelCount h < int MaxTunnelsPerClient"
    using acc by (auto simp: tcp_accepts_def split: sum.splits if_splits)
  have rauth: "rsAuth (resources_of h)" using auth by (simp add: resources_of_def)
  obtain a' res where al: "Allocate a rp = (a', res)" by fastforce
  show ?thesis
  proof (cases res)
    case (Inl err)
    from handleRegisterTCP_full [OF acc a al [unfolded Inl]] res_full [OF rauth a al [unfolded Inl]]
    show ?thesis by (metis fst_conv snd_conv resources_registerErr)
  next
    case (Inr p)
    show ?thesis
    proof (cases "eListenErr e")
      case (Some err)
      from handleRegisterTCP_nolisten [OF acc a al [unfolded Inr] Some] res_nolisten [OF rauth a al [unfolded Inr]]
      show ?thesis by (metis fst_conv snd_conv resources_registerErr)
    next
      case None
      obtain pl where pl: "EncodeRegisterOK (hTcpHost h @ '':'' @ dec (unat p)) (ttID (new_tcp e p lp)) = Inr pl"
        using length_tcp_url [OF assms(3)] by blast
      let ?r = "resources_of h" and ?tt = "new_tcp e p lp"
      have "res_step cf (sh, ?r) (sh\<lparr>shAlloc := Some a', shListeners := p # shListeners sh\<rparr>,
          ?r\<lparr>rsTcp := AList.update (ttID ?tt) ?tt (rsTcp ?r), rsCount := rsCount ?r + 1\<rparr>)"
        by (rule res_tcp [OF rauth _ a al [unfolded Inr]])
          (use room fresh in \<open>simp_all add: resources_of_def new_tcp_def fresh_id_def Let_def\<close>)
      then show ?thesis
        by (simp add: handleRegisterTCP_ok [OF acc a al [unfolded Inr] None pl] frame_cond)
          (simp add: resources_of_def)
    qed
  qed
qed

lemma meets_unregister:
  assumes "hAuthenticated h"
  shows "meets cf (sh, h) (handleUnregister e frame (sh, h))"
proof (cases "map_of (hTunnels h) (TunnelID frame)")
  case None
  then show ?thesis by (simp add: handleUnregister_def frame_cond res_keep)
next
  case (Some t)
  let ?r = "resources_of h"
  have "res_step cf (sh, ?r) (sh\<lparr>shRegistry := Unregister (tunSubdomain t) (shRegistry sh)\<rparr>,
      ?r\<lparr>rsTunnels := AList.delete (TunnelID frame) (rsTunnels ?r), rsCount := rsCount ?r - 1\<rparr>)"
    by (rule res_drop) (use assms Some in \<open>simp_all add: resources_of_def\<close>)
  with Some show ?thesis by (simp add: handleUnregister_def frame_cond) (simp add: resources_of_def)
qed

lemma meets_if: "(P \<Longrightarrow> meets cf st x) \<Longrightarrow> (\<not> P \<Longrightarrow> meets cf st y) \<Longrightarrow> meets cf st (if P then x else y)"
  by simp

lemma meets_handleFrame:
  assumes "fresh_id e h" "good_rand e" "short_host h"
  shows "meets cf (sh, h) (handleFrame cf e frame (sh, h))"
proof (cases "hAuthenticated h \<or> ftype frame = MsgAuth")
  case False
  then show ?thesis by (simp add: handleFrame_def frame_cond res_keep)
next
  case True
  then have auth: "ftype frame \<noteq> MsgAuth \<Longrightarrow> hAuthenticated h" by simp
  show ?thesis unfolding handleFrame_def prod.case
    by (intro meets_if meets_auth traffic_same_resources [THEN meets_same] meets_cleanup
        meets_register [OF auth assms(1,2)] meets_registerTLS [OF auth assms(1,2)]
        meets_registerTCP [OF auth assms(1,3)] meets_unregister [OF auth] res_keep)
      (use True in simp_all)
qed

end
