(* ===== verification/Session.thy ===== *)
theory Session
  imports Handler
begin

text \<open>
  Whole sessions of one connection: the authentication gate over complete message sequences, and
  what a client gets back from a registration.
\<close>

section \<open>The authentication gate\<close>

text \<open>The tokens a message sequence presents.\<close>

definition presented :: "(env \<times> bytes) list \<Rightarrow> string list" where
  "presented msgs = concat (map (\<lambda>(_, msg).
     case DecodeFrame msg of
       Inl _ \<Rightarrow> []
     | Inr frame \<Rightarrow>
         if ftype frame = MsgAuth
         then (case DecodeAuth (Payload frame) of Inl _ \<Rightarrow> [] | Inr (token, _) \<Rightarrow> [token]) else []) msgs)"

lemma presented_Cons:
  "presented ((e, msg) # msgs) =
     (case DecodeFrame msg of
       Inl _ \<Rightarrow> []
     | Inr frame \<Rightarrow>
         if ftype frame = MsgAuth
         then (case DecodeAuth (Payload frame) of Inl _ \<Rightarrow> [] | Inr (token, _) \<Rightarrow> [token]) else []) @ presented msgs"
  by (simp add: presented_def)

text \<open>A connection that has not authenticated and holds nothing, with every reply an error.\<close>

definition locked :: "config \<Rightarrow> string \<Rightarrow> ClientHandler \<Rightarrow> bool" where
  "locked cf token h \<longleftrightarrow>
     \<not> hAuthenticated h \<and> hTunnels h = [] \<and> hTcpTunnels h = [] \<and> hTlsTunnels h = [] \<and>
     hExpectedToken h = token \<and> hExpectedHash h = cfSha256 cf (bytes_of token) \<and>
     (\<forall>out \<in> set (hOut h). \<exists>msg. out = EncodeFrame \<lparr>ftype = MsgAuthErr, TunnelID = 0, RequestID = 0, Payload = msg\<rparr>)"

lemma locked_write:
  "locked cf token h \<Longrightarrow> locked cf token (fst (writeMessage w MsgAuthErr 0 0 p h))"
  by (auto simp: locked_def hOut_writeMessage)

lemma hOut_updReq [simp]: "hOut (updReq rid f h) = hOut h"
  by (simp add: updReq_def)

lemma hOut_fold_updReq [simp]: "hOut (fold (\<lambda>rid. updReq rid f) rids h) = hOut h"
  by (induction rids arbitrary: h) simp_all

lemma hOut_cleanup [simp]: "hOut (snd (cleanup (sh, h))) = hOut h"
  by (simp add: cleanup_def Let_def)

lemma locked_cleanup:
  assumes "locked cf token h"
  shows "fst (cleanup (sh, h)) = sh \<and> locked cf token (snd (cleanup (sh, h)))"
proof
  have r: "rsTunnels (resources_of h) = []" "rsTcp (resources_of h) = []" "rsTls (resources_of h) = []"
    using assms by (simp_all add: locked_def resources_of_def)
  have "release_all (resources_of h) sh = sh"
    by (simp add: release_all_def r subdomains_def public_ports_def option.map_id0 id_def [symmetric])
  then show "fst (cleanup (sh, h)) = sh" by (cases "hDone h") (simp_all add: cleanup_eq)
  have "resources_of (snd (cleanup (sh, h))) = (resources_of h)\<lparr>rsDone := True\<rparr>"
    by (rule resources_cleanup)
  then show "locked cf token (snd (cleanup (sh, h)))"
    using assms by (auto simp: locked_def resources_of_def)
qed

lemma locked_frame:
  assumes "locked cf token h" "token \<noteq> ''''"
    and bad: "\<And>tok v. ftype frame = MsgAuth \<Longrightarrow> DecodeAuth (Payload frame) = Inr (tok, v) \<Longrightarrow>
      cfSha256 cf (bytes_of token) \<noteq> cfSha256 cf (bytes_of tok)"
  shows "fst (handleFrame cf e frame (sh, h)) = sh \<and> locked cf token (snd (handleFrame cf e frame (sh, h)))"
proof (cases "ftype frame = MsgAuth")
  case False
  then show ?thesis using assms(1) locked_write [OF assms(1)] by (simp add: handleFrame_def locked_def)
next
  case True
  have h: "handleFrame cf e frame (sh, h) = handleAuth cf e frame (sh, h)"
    using True by (simp add: handleFrame_def)
  show ?thesis
  proof (cases "DecodeAuth (Payload frame)")
    case (Inl err)
    then show ?thesis using locked_cleanup [OF locked_write [OF assms(1)]]
      by (simp add: h handleAuth_def)
  next
    case (Inr tv)
    obtain tok v where tv: "tv = (tok, v)" by fastforce
    have "hExpectedToken h \<noteq> '''' \<and> hExpectedHash h \<noteq> cfSha256 cf (bytes_of tok)"
      using assms bad [OF True] Inr tv by (auto simp: locked_def)
    then show ?thesis using locked_cleanup [OF locked_write [OF assms(1)]] Inr tv
      by (simp add: h handleAuth_def)
  qed
qed

lemma locked_RunLoop:
  assumes "token \<noteq> ''''" "locked cf token h"
    and "\<forall>tok \<in> set (presented msgs). cfSha256 cf (bytes_of token) \<noteq> cfSha256 cf (bytes_of tok)"
  shows "fst (RunLoop cf msgs (sh, h)) = sh \<and> locked cf token (snd (RunLoop cf msgs (sh, h)))"
  using assms(2,3)
proof (induction msgs arbitrary: sh h)
  case Nil
  then show ?case using locked_cleanup by simp
next
  case (Cons m msgs)
  obtain e msg where m: "m = (e, msg)" by fastforce
  show ?case
  proof (cases "DecodeFrame msg")
    case (Inl err)
    then show ?thesis using Cons m by (simp add: presented_Cons)
  next
    case (Inr frame)
    have f: "fst (handleFrame cf e frame (sh, h)) = sh \<and> locked cf token (snd (handleFrame cf e frame (sh, h)))"
      by (rule locked_frame [OF Cons.prems(1) assms(1)])
        (use Cons.prems(2) Inr m in \<open>auto simp: presented_Cons\<close>)
    obtain h' where h': "handleFrame cf e frame (sh, h) = (sh, h')"
      using f by (metis prod.collapse)
    have "set (presented msgs) \<subseteq> set (presented (m # msgs))"
      unfolding m presented_Cons set_append by (rule Un_upper2)
    with Cons.prems(2) have
      "\<forall>tok \<in> set (presented msgs). cfSha256 cf (bytes_of token) \<noteq> cfSha256 cf (bytes_of tok)" by blast
    from Cons.IH [OF _ this] f show ?thesis by (simp add: m Inr h')
  qed
qed

lemma locked_New: "token \<noteq> '''' \<Longrightarrow> locked cf token (NewClientHandler cf self base token host)"
  by (simp add: locked_def NewClientHandler_def)

text \<open>
  C12. The authentication gate: whatever messages a client sends, in whatever order and number, if
  none of them presents the server's token, then the session from connect to teardown leaves the
  registries, the port allocator and the listeners exactly as they were, the client never becomes
  authenticated, and all it is ever sent are authentication errors. SHA-256 enters through one
  hypothesis: no token the client actually presents collides with the server's.
\<close>

theorem session_without_token_is_inert:
  assumes "token \<noteq> ''''" "token \<notin> set (presented msgs)"
    and "\<forall>tok \<in> set (presented msgs).
      cfSha256 cf (bytes_of tok) = cfSha256 cf (bytes_of token) \<longrightarrow> tok = token"
  shows "case RunLoop cf msgs (sh, NewClientHandler cf self base token host) of
     (sh', h') \<Rightarrow> sh' = sh \<and> \<not> hAuthenticated h' \<and>
       (\<forall>out \<in> set (hOut h'). \<exists>msg. out =
          EncodeFrame \<lparr>ftype = MsgAuthErr, TunnelID = 0, RequestID = 0, Payload = msg\<rparr>)"
proof -
  have "\<forall>tok \<in> set (presented msgs). cfSha256 cf (bytes_of token) \<noteq> cfSha256 cf (bytes_of tok)"
    using assms(2,3) by metis
  note * = locked_RunLoop [OF assms(1) locked_New [OF assms(1)] this, of sh self base host]
  obtain sh' h' where "RunLoop cf msgs (sh, NewClientHandler cf self base token host) = (sh', h')"
    by fastforce
  with * show ?thesis by (simp add: locked_def)
qed
definition sample_config :: config where
  "sample_config = \<lparr>cfVersion = ''1.2'', cfSha256 = (\<lambda>b. b), cfQuote = (\<lambda>s. s)\<rparr>"

definition sample_env :: env where
  "sample_env = \<lparr>eSubRand = Some [1, 2, 3, 4, 5, 6, 7, 8], eIdRand = Some [0, 0, 0, 0, 0, 0, 0, 7],
     eRandErr = '''', eNow = 5, eWriteOk = True, eListenErr = None, ePickDone = False\<rparr>"

definition sample_shared :: Shared where
  "sample_shared = \<lparr>shRegistry = NewRegistry, shTLS = Some NewRegistry,
     shAlloc = Some (NewPortAllocator 9000 9001), shListeners = []\<rparr>"

definition auth_msg :: "bytes \<Rightarrow> bytes" where
  "auth_msg payload = EncodeFrame \<lparr>ftype = MsgAuth, TunnelID = 0, RequestID = 0, Payload = payload\<rparr>"

lemma presented_wrong: "presented [(sample_env, auth_msg [0, 2, 110, 111])] = [''no'']"
  using DecodeFrame_EncodeFrame [where rest = "[]"]
  by (simp add: presented_def auth_msg_def MaxFrameSize_def MaxBodySize_def DecodeAuth_def readString_def
      readFull_def readUint_def get_be_def string_of_def limit_defs char_of_def bit_0)

theorem session_without_token_is_inert_witness:
  "case RunLoop sample_config [(sample_env, auth_msg [0, 2, 110, 111])]
      (sample_shared, NewClientHandler sample_config 1 ''x.io'' ''yes'' ''x.io'') of
     (sh', h') \<Rightarrow> sh' = sample_shared \<and> \<not> hAuthenticated h' \<and>
       (\<forall>out \<in> set (hOut h'). \<exists>msg. out =
          EncodeFrame \<lparr>ftype = MsgAuthErr, TunnelID = 0, RequestID = 0, Payload = msg\<rparr>)"
  by (rule session_without_token_is_inert) (simp_all add: presented_wrong sample_config_def)

section \<open>Being admitted\<close>

lemma EncodeAuth_InrD:
  assumes "EncodeAuth token ver = Inr payload"
  shows "length payload \<le> MaxFrameSize \<and> DecodeAuth payload = Inr (token, ver)"
proof
  have len: "length token \<le> maxStringLen" "length ver \<le> MaxVersionLen"
    using assms by (auto simp: EncodeAuth_def and_then_eq_Inr writeString_def split: if_splits)
  then show "length payload \<le> MaxFrameSize"
    using assms by (auto simp: EncodeAuth_def and_then_eq_Inr writeString_def limit_defs split: if_splits)
  show "DecodeAuth payload = Inr (token, ver)"
    using authC.round_trip [of "(token, ver)"] len assms by simp
qed

text \<open>
  A client that opens with the server's token is admitted, and so is any client of a server
  without a token: the handler becomes authenticated, records the client's version, and the one
  frame sent back decodes to the server's version; the session then goes on with the remaining
  messages.
\<close>

theorem token_holder_is_admitted:
  assumes "expected = '''' \<or> expected = token" "EncodeAuth token ver = Inr payload"
    and "length (cfVersion cf) \<le> MaxVersionLen" "eWriteOk e"
  shows "\<exists>h1 p. RunLoop cf ((e, auth_msg payload) # msgs) (sh, NewClientHandler cf self base expected host) =
       RunLoop cf msgs (sh, h1) \<and>
     hAuthenticated h1 \<and> hClientVersion h1 = ver \<and> DecodeAuthOK p = Inr (cfVersion cf) \<and>
     hOut h1 = [EncodeFrame \<lparr>ftype = MsgAuthOK, TunnelID = 0, RequestID = 0, Payload = p\<rparr>]"
proof -
  obtain p where p: "EncodeAuthOK (cfVersion cf) = Inr p" "DecodeAuthOK p = Inr (cfVersion cf)"
    using authOkC.round_trip [OF assms(3)] by (auto simp: and_then_eq_Inr)
  let ?h = "NewClientHandler cf self base expected host"
  have dec: "DecodeFrame (auth_msg payload) =
      Inr \<lparr>ftype = MsgAuth, TunnelID = 0, RequestID = 0, Payload = payload\<rparr>"
    using DecodeFrame_EncodeFrame [where rest = "[]"] EncodeAuth_InrD [OF assms(2)]
    by (simp add: auth_msg_def)
  have auth: "DecodeAuth payload = Inr (token, ver)" using EncodeAuth_InrD [OF assms(2)] by simp
  have ok: "\<not> (hExpectedToken ?h \<noteq> '''' \<and> hExpectedHash ?h \<noteq> cfSha256 cf (bytes_of token))"
    using assms(1) by (auto simp: NewClientHandler_def)
  let ?h1 = "fst (writeMessage True MsgAuthOK 0 0 p (?h\<lparr>hAuthenticated := True, hClientVersion := ver\<rparr>))"
  have "RunLoop cf ((e, auth_msg payload) # msgs) (sh, ?h) = RunLoop cf msgs (sh, ?h1)"
    using ok assms(4) by (auto simp: dec handleFrame_def handleAuth_def auth p Let_def)
  moreover have "hAuthenticated ?h1" "hClientVersion ?h1 = ver"
    "hOut ?h1 = [EncodeFrame \<lparr>ftype = MsgAuthOK, TunnelID = 0, RequestID = 0, Payload = p\<rparr>]"
    by (simp_all add: writeMessage_def Let_def NewClientHandler_def)
  ultimately show ?thesis using p(2) by blast
qed

lemma sample_auth: "EncodeAuth ''yes'' '''' = Inr [0, 3, 121, 101, 115, 0, 0]"
  by (simp add: EncodeAuth_def writeString_def limit_defs bytes_of_def put_be_def)

theorem token_holder_is_admitted_witness:
  "\<exists>h1 p. RunLoop sample_config ((sample_env, auth_msg [0, 3, 121, 101, 115, 0, 0]) # [])
       (sample_shared, NewClientHandler sample_config 1 ''x.io'' ''yes'' ''x.io'') =
       RunLoop sample_config [] (sample_shared, h1) \<and>
     hAuthenticated h1 \<and> hClientVersion h1 = '''' \<and> DecodeAuthOK p = Inr (cfVersion sample_config) \<and>
     hOut h1 = [EncodeFrame \<lparr>ftype = MsgAuthOK, TunnelID = 0, RequestID = 0, Payload = p\<rparr>]"
  by (rule token_holder_is_admitted [OF _ sample_auth])
    (simp_all add: sample_config_def sample_env_def limit_defs)

section \<open>Registering a subdomain\<close>

definition reg_success :: "env \<Rightarrow> string \<Rightarrow> hstate \<Rightarrow> hstate \<Rightarrow> bool" where
  "reg_success e sub st st' \<longleftrightarrow> (case (st, st') of ((sh, h), (sh', h')) \<Rightarrow>
     \<exists>t p. tunSubdomain t = sub \<and> tunHandler t = hSelf h \<and>
       Get (shRegistry sh') = (Get (shRegistry sh))(sub \<mapsto> t) \<and>
       map_of (hTunnels h') (tunID t) = Some t \<and> hTunnelCount h' = hTunnelCount h + 1 \<and>
       hOut h' = hOut h @ [EncodeFrame \<lparr>ftype = MsgRegisterOK, TunnelID = tunID t, RequestID = 0, Payload = p\<rparr>] \<and>
       DecodeRegisterOK p = Inr (public_url sub (hBaseDomain h), tunID t) \<and>
       extractSubdomain (public_url sub (hBaseDomain h)) (hBaseDomain h) = sub)"

definition reg_refusal :: "hstate \<Rightarrow> hstate \<Rightarrow> bool" where
  "reg_refusal st st' \<longleftrightarrow> (case (st, st') of ((sh, h), (sh', h')) \<Rightarrow>
     \<exists>msg. sh' = sh \<and> h' = h\<lparr>hOut := hOut h @
       [EncodeFrame \<lparr>ftype = MsgRegisterErr, TunnelID = 0, RequestID = 0, Payload = bytes_of msg\<rparr>]\<rparr>)"

lemma reg_refusal_registerErr:
  "hHasConn h \<Longrightarrow> st' = (sh, registerErr True msg h) \<Longrightarrow> reg_refusal (sh, h) st'"
  by (auto simp: reg_refusal_def registerErr_def writeMessage_def Let_def)

lemma reg_success_ok:
  assumes "reg_inv (shRegistry sh)" "hHasConn h" "eWriteOk e" "good_rand e"
    and acc: "reg_accepts e frame h = Some sub"
    and reg: "Register sub (hSelf h) (eIdRand e) (shRegistry sh) = (g, Inr t)"
  shows "reg_success e sub (sh, h) (handleRegister cf e frame (sh, h))"
proof -
  let ?url = "public_url sub (hBaseDomain h)"
  have v: "sub \<noteq> ''''" "validSubdomain sub" "length ?url \<le> 255"
    using reg_accepts_valid [OF assms(4) acc] by simp_all
  obtain p where p: "EncodeRegisterOK ?url (tunID t) = Inr p" "DecodeRegisterOK p = Inr (?url, tunID t)"
    using regOkC.round_trip [of "(?url, tunID t)"] v(3) by (auto simp: and_then_eq_Inr)
  show ?thesis
    unfolding handleRegister_ok [OF acc reg] reg_success_def prod.case
    by (intro exI [of _ t] exI [of _ p])
      (use Get_Register_ok [OF assms(1) reg] p v assms extractSubdomain_public_host [of sub "hBaseDomain h"]
       in \<open>simp add: reg_done_def hOut_writeMessage reply_payload_def gomap, simp add: public_url_def update_conv\<close>)
qed

text \<open>
  A registration frame of an authenticated client has exactly two outcomes. If the payload
  decodes to a non-zero port and a valid name, the public URL fits, the client has fewer than
  \<open>MaxTunnelsPerClient\<close> tunnels and the wanted name is free, then that name and no other is added
  to the registry for this connection, and the reply decodes to the public URL, whose host the proxy
  maps back to this very name. Otherwise one error frame is sent and nothing else changes.
\<close>

theorem register_outcome:
  assumes "reg_inv (shRegistry sh)" "hAuthenticated h" "hHasConn h" "eWriteOk e" "good_rand e"
    and "ftype frame = MsgRegister"
  shows "case reg_accepts e frame h of
       Some sub \<Rightarrow>
         if Get (shRegistry sh) sub = None \<and> eIdRand e \<noteq> None
         then reg_success e sub (sh, h) (handleFrame cf e frame (sh, h))
         else reg_refusal (sh, h) (handleFrame cf e frame (sh, h))
     | None \<Rightarrow> reg_refusal (sh, h) (handleFrame cf e frame (sh, h))"
proof -
  have f: "handleFrame cf e frame (sh, h) = handleRegister cf e frame (sh, h)"
    using assms(2,6) by (simp add: handleFrame_def msg_defs)
  have refused: "reg_refusal (sh, h) (handleRegister cf e frame (sh, h))"
    if "\<And>sub. reg_accepts e frame h = Some sub \<Longrightarrow>
      \<exists>g err. Register sub (hSelf h) (eIdRand e) (shRegistry sh) = (g, Inl err)"
    using handleRegister_refused [OF that] reg_refusal_registerErr [OF assms(3)] assms(4) by metis
  show ?thesis
  proof (cases "reg_accepts e frame h")
    case None
    then show ?thesis using refused by (simp add: f)
  next
    case (Some sub)
    obtain g res where reg: "Register sub (hSelf h) (eIdRand e) (shRegistry sh) = (g, res)" by fastforce
    show ?thesis
    proof (cases res)
      case (Inl err)
      then show ?thesis using refused Register_err [of sub "hSelf h" "eIdRand e" "shRegistry sh" g err] reg Some
        by (auto simp: f)
    next
      case (Inr t)
      with reg reg_success_ok [OF assms(1,3,4,5) Some, of g t cf] Get_Register_ok [OF assms(1) reg [unfolded Inr]]
      show ?thesis by (auto simp: f Some)
    qed
  qed
qed

definition sample_client :: ClientHandler where
  "sample_client = (NewClientHandler sample_config 1 ''x.io'' ''yes'' ''x.io'')\<lparr>hAuthenticated := True\<rparr>"

definition sample_register :: Frame where
  "sample_register = \<lparr>ftype = MsgRegister, TunnelID = 0, RequestID = 0,
     Payload = [0x1F, 0x90, 3, 97, 112, 112]\<rparr>"

lemma sample_accepts: "reg_accepts sample_env sample_register sample_client = Some ''app''"
  by (simp add: reg_accepts_def sample_register_def sample_client_def DecodeRegister_def index_def
      uint_at_def slice_def get_be_def string_of_def limit_defs char_of_def bit_0 wanted_name_def
      validSubdomain_def subdomain_char_def public_url_def NewClientHandler_def)

theorem register_outcome_witness:
  "reg_success sample_env ''app'' (sample_shared, sample_client)
     (handleFrame sample_config sample_env sample_register (sample_shared, sample_client))"
  using register_outcome [of sample_shared sample_client sample_env sample_register sample_config]
  by (simp add: sample_accepts)
    (simp add: sample_shared_def sample_client_def sample_env_def sample_register_def
      NewClientHandler_def good_rand_def)

end
