(* ===== verification/Forward.thy ===== *)
theory Forward
  imports Session
begin

text \<open>
  Requests the server sends through a tunnel, \<^verbatim>\<open>internal/server/handler.go\<close>: \<^verbatim>\<open>startForward\<close>,
  \<^verbatim>\<open>awaitResponse\<close>, \<^verbatim>\<open>finishForward\<close> and \<^verbatim>\<open>forward\<close> for HTTP, and \<^verbatim>\<open>relayPublicConn\<close> for raw
  connections. Between its two halves a forward waits while the read loop of the same connection
  handles frames; those frames are an explicit argument, so the interleaving is part of the
  statement. A wait that nothing ends is the result \<^const>\<open>None\<close>.
\<close>

section \<open>HTTP requests\<close>

datatype fwdErr =
    FwdEncode protoErr
  | FwdTooLarge nat
  | FwdWrite
  | FwdTimeout

definition finishForward :: "u64 \<Rightarrow> ClientHandler \<Rightarrow> ClientHandler" where
  "finishForward rid h = updReq rid closeDone (removePending rid h)"

definition startForward ::
  "bool \<Rightarrow> u64 \<Rightarrow> HTTPRequest \<Rightarrow> bytes list option \<Rightarrow> ClientHandler \<Rightarrow> ClientHandler \<times> (fwdErr + u64)" where
  "startForward wok tunnelID req streamData h0 =
     (let (requestID, h1) = nextRequestID h0;
          pr = \<lparr>prResponse = Some [], prStreamData = streamData, prStreamClosed = False,
                prDone = False, prReady = None\<rparr>;
          h2 = addPending requestID pr h1
      in case EncodeHTTPRequest req of
           Inl err \<Rightarrow> (finishForward requestID h2, Inl (FwdEncode err))
         | Inr payload \<Rightarrow>
             if length payload > MaxFrameSize
             then (finishForward requestID h2, Inl (FwdTooLarge (length payload)))
             else case writeMessage wok MsgHTTPReq tunnelID requestID payload h2 of
               (h3, ok) \<Rightarrow> if \<not> ok then (finishForward requestID h3, Inl FwdWrite)
                           else (h3, Inr requestID))"

text \<open>
  \<open>fired\<close> says that the timer case is taken. The response case is enabled when the channel holds a
  response; with neither, the call keeps waiting.
\<close>

definition awaitResponse :: "bool \<Rightarrow> u64 \<Rightarrow> ClientHandler \<Rightarrow> (ClientHandler \<times> (fwdErr + HTTPResponse)) option" where
  "awaitResponse fired rid h =
     (if fired then Some (finishForward rid h, Inl FwdTimeout)
      else case map_of (hReqs h) rid of
        None \<Rightarrow> None
      | Some pr \<Rightarrow>
          (case prResponse pr of
             Some (resp # q) \<Rightarrow> Some (updReq rid (\<lambda>pr. pr\<lparr>prResponse := Some q\<rparr>) h, Inr resp)
           | _ \<Rightarrow> None))"

definition frames_between :: "config \<Rightarrow> (env \<times> Frame) list \<Rightarrow> hstate \<Rightarrow> hstate" where
  "frames_between cf fs st = fold (\<lambda>(e, f). handleFrame cf e f) fs st"

definition forward ::
  "config \<Rightarrow> bool \<Rightarrow> bool \<Rightarrow> (env \<times> Frame) list \<Rightarrow> u64 \<Rightarrow> HTTPRequest \<Rightarrow> bytes list option \<Rightarrow> hstate \<Rightarrow>
   (hstate \<times> (fwdErr + u64 \<times> HTTPResponse)) option" where
  "forward cf wok fired fs tunnelID req streamData st = (case st of (sh, h) \<Rightarrow>
     case startForward wok tunnelID req streamData h of
       (h1, Inl err) \<Rightarrow> Some ((sh, h1), Inl err)
     | (h1, Inr requestID) \<Rightarrow>
         (case frames_between cf fs (sh, h1) of (sh2, h2) \<Rightarrow>
            (case awaitResponse fired requestID h2 of
               None \<Rightarrow> None
             | Some (h3, Inl err) \<Rightarrow> Some ((sh2, h3), Inl err)
             | Some (h3, Inr resp) \<Rightarrow>
                 Some ((sh2, if streamData = None then finishForward requestID h3 else h3),
                       Inr (requestID, resp)))))"

definition forwardCleanup :: "u64 \<Rightarrow> bytes list option \<Rightarrow> ClientHandler \<Rightarrow> ClientHandler" where
  "forwardCleanup rid streamData h = (if streamData \<noteq> None then finishForward rid h else h)"

section \<open>Raw connections\<close>

text \<open>
  One public connection: whether it is still open, the bytes written to it, and how far the relay
  has come.
\<close>

datatype relayPhase = AwaitReady | Pumping | Ended

record relay =
  rlReq :: u64
  rlPhase :: relayPhase
  rlConnOpen :: bool
  rlDraining :: bool
  rlOut :: bytes

definition relayEnd :: "ClientHandler \<times> relay \<Rightarrow> ClientHandler \<times> relay" where
  "relayEnd st = (case st of (h, rl) \<Rightarrow>
     (updReq (rlReq rl) closeDone (removePending (rlReq rl) h), rl\<lparr>rlPhase := Ended, rlConnOpen := False\<rparr>))"

definition relayOpen :: "bool \<Rightarrow> u64 \<Rightarrow> ClientHandler \<Rightarrow> ClientHandler \<times> relay" where
  "relayOpen wok tunnelID h0 =
     (let (requestID, h1) = nextRequestID h0;
          pr = \<lparr>prResponse = None, prStreamData = Some [], prStreamClosed = False,
                prDone = False, prReady = Some False\<rparr>;
          h2 = addPending requestID pr h1;
          rl = \<lparr>rlReq = requestID, rlPhase = AwaitReady, rlConnOpen = True, rlDraining = False, rlOut = []\<rparr>
      in case writeMessage wok MsgTCPOpen tunnelID requestID [] h2 of
           (h3, ok) \<Rightarrow> if \<not> ok then relayEnd (h3, rl) else (h3, rl))"

datatype wakeup = WakeReady | WakeTimer | WakeDone

text \<open>The first \<^verbatim>\<open>select\<close>, and the prefix after it. A case that is not enabled leaves the relay waiting.\<close>

definition relayReady :: "wakeup \<Rightarrow> bool \<Rightarrow> bytes \<Rightarrow> ClientHandler \<times> relay \<Rightarrow> ClientHandler \<times> relay" where
  "relayReady wk wok prefix st = (case st of (h, rl) \<Rightarrow>
     if rlPhase rl \<noteq> AwaitReady then st
     else case wk of
       WakeReady \<Rightarrow>
         if (case map_of (hReqs h) (rlReq rl) of None \<Rightarrow> False | Some pr \<Rightarrow> prReady pr = Some True)
         then if length prefix > 0
           then (case SendStreamData wok (rlReq rl) prefix h of
                   (h1, ok) \<Rightarrow> if \<not> ok then relayEnd (h1, rl)
                               else (h1, rl\<lparr>rlPhase := Pumping, rlDraining := True\<rparr>))
           else (h, rl\<lparr>rlPhase := Pumping, rlDraining := True\<rparr>)
         else st
     | WakeTimer \<Rightarrow> relayEnd st
     | WakeDone \<Rightarrow> if hDone h then relayEnd st else st)"

text \<open>One round of the goroutine that writes to the public connection. \<open>pickDone\<close> chooses a ready
  done case over a ready data case.\<close>

definition relayDrain :: "bool \<Rightarrow> bool \<Rightarrow> ClientHandler \<times> relay \<Rightarrow> ClientHandler \<times> relay" where
  "relayDrain pickDone wok st = (case st of (h, rl) \<Rightarrow>
     if \<not> rlDraining rl then st
     else case map_of (hReqs h) (rlReq rl) of
       None \<Rightarrow> st
     | Some pr \<Rightarrow>
         if pickDone \<and> (prDone pr \<or> hDone h) then (h, rl\<lparr>rlConnOpen := False, rlDraining := False\<rparr>)
         else (case prStreamData pr of
             None \<Rightarrow> st
           | Some [] \<Rightarrow> if prStreamClosed pr then (h, rl\<lparr>rlConnOpen := False, rlDraining := False\<rparr>) else st
           | Some (d # q) \<Rightarrow>
               let h1 = updReq (rlReq rl) (\<lambda>pr. pr\<lparr>prStreamData := Some q\<rparr>) h
               in if wok \<and> rlConnOpen rl then (h1, rl\<lparr>rlOut := rlOut rl @ d\<rparr>)
                  else (h1, rl\<lparr>rlConnOpen := False, rlDraining := False\<rparr>)))"

text \<open>
  One round of the loop that reads the public connection: \<open>data\<close> is what \<^verbatim>\<open>Read\<close> returned, \<open>err\<close>
  whether it returned an error with it.
\<close>

definition relayRead :: "bytes \<Rightarrow> bool \<Rightarrow> bool \<Rightarrow> bool \<Rightarrow> ClientHandler \<times> relay \<Rightarrow> ClientHandler \<times> relay" where
  "relayRead data err wok wokClose st = (case st of (h, rl) \<Rightarrow>
     if rlPhase rl \<noteq> Pumping then st
     else
       let (h1, ok) = (if length data > 0 then SendStreamData wok (rlReq rl) data h else (h, True))
       in if \<not> ok \<or> err then relayEnd (fst (SendStreamClose wokClose (rlReq rl) h1), rl)
          else (h1, rl))"

section \<open>Requests across frames\<close>

lemma map_of_updReq [simp]:
  "map_of (hReqs (updReq rid f h)) = (map_of (hReqs h))(rid := map_option f (map_of (hReqs h) rid))"
  by (auto simp: updReq_def update_conv fun_eq_iff split: option.splits)

lemma hPending_updReq [simp]: "hPending (updReq rid f h) = hPending h"
  by (simp add: updReq_def)

lemma removePending_fields [simp]:
  "hReqs (removePending rid h) = hReqs h"
  "set (hPending (removePending rid h)) = set (hPending h) - {rid}"
  "hOut (removePending rid h) = hOut h"
  "hHasConn (removePending rid h) = hHasConn h"
  "hDone (removePending rid h) = hDone h"
  by (auto simp: removePending_def)

lemma send_fields [simp]:
  "hReqs (fst (SendStreamData w rid d h)) = hReqs h" "hPending (fst (SendStreamData w rid d h)) = hPending h"
  "hReqs (fst (SendStreamClose w rid h)) = hReqs h" "hPending (fst (SendStreamClose w rid h)) = hPending h"
  "hDone (fst (SendStreamData w rid d h)) = hDone h" "hDone (fst (SendStreamClose w rid h)) = hDone h"
  by (simp_all add: SendStreamData_def SendStreamClose_def)

lemma registerErr_fields [simp]:
  "hReqs (registerErr w m h) = hReqs h" "hPending (registerErr w m h) = hPending h"
  "hRequestIDSeq (registerErr w m h) = hRequestIDSeq h"
  "hAuthenticated (registerErr w m h) = hAuthenticated h" "hDone (registerErr w m h) = hDone h"
  by (simp_all add: registerErr_def)

text \<open>The view one request ID has of a handler: is it pending, and what does its record hold?\<close>

definition req_view :: "u64 \<Rightarrow> ClientHandler \<Rightarrow> bool \<times> pendingReq option" where
  "req_view rid h = (rid \<in> set (hPending h), map_of (hReqs h) rid)"

lemma req_view_eq:
  "hPending h' = hPending h \<Longrightarrow> hReqs h' = hReqs h \<Longrightarrow> req_view rid h' = req_view rid h"
  by (simp add: req_view_def)

lemma req_view_write [simp]: "req_view rid (fst (writeMessage w m t r p h)) = req_view rid h"
  by (rule req_view_eq) simp_all

lemma req_view_registration:
  "req_view rid (snd (handleRegister cf e frame (sh, h))) = req_view rid h"
  "req_view rid (snd (handleRegisterTLS cf e frame (sh, h))) = req_view rid h"
  "req_view rid (snd (handleRegisterTCP cf e frame (sh, h))) = req_view rid h"
  "req_view rid (snd (handleUnregister e frame (sh, h))) = req_view rid h"
  by (auto simp: handleRegister_def handleRegisterTLS_def handleRegisterTCP_def handleUnregister_def
      Let_def req_view_def registerErr_def split: sum.splits option.splits prod.splits)

text \<open>Frames for another request do not concern this one, unless they tear the connection down.\<close>

definition unrelated :: "u64 \<Rightarrow> Frame \<Rightarrow> bool" where
  "unrelated rid f \<longleftrightarrow> RequestID f \<noteq> rid \<and> ftype f \<noteq> MsgCloseTunnel \<and> ftype f \<noteq> MsgAuth"

lemma req_view_traffic:
  assumes "RequestID frame \<noteq> rid"
  shows "req_view rid (snd (handleTCPReady frame (sh, h))) = req_view rid h"
    "req_view rid (snd (handleHTTPRes e frame (sh, h))) = req_view rid h"
    "req_view rid (snd (handleStreamData e frame (sh, h))) = req_view rid h"
    "req_view rid (snd (handleStreamClose frame (sh, h))) = req_view rid h"
  using assms by (auto simp: handleTCPReady_def handleHTTPRes_def handleStreamData_def handleStreamClose_def
      req_view_def Let_def split: option.splits sum.splits)

lemma req_view_if:
  "(P \<Longrightarrow> req_view rid (snd x) = v) \<Longrightarrow> (\<not> P \<Longrightarrow> req_view rid (snd y) = v) \<Longrightarrow>
   req_view rid (snd (if P then x else y)) = v"
  by simp

lemma req_view_unrelated:
  assumes "unrelated rid frame"
  shows "req_view rid (snd (handleFrame cf e frame (sh, h))) = req_view rid h"
proof -
  have u: "RequestID frame \<noteq> rid" "ftype frame \<noteq> MsgAuth" "ftype frame \<noteq> MsgCloseTunnel"
    using assms by (simp_all add: unrelated_def)
  show ?thesis
    unfolding handleFrame_def prod.case
    by (intro req_view_if req_view_registration req_view_traffic [OF u(1)]) (use u in simp_all)
qed

lemma hAuthenticated_registration [simp]:
  "hAuthenticated (snd (handleRegister cf e frame (sh, h))) = hAuthenticated h"
  "hAuthenticated (snd (handleRegisterTLS cf e frame (sh, h))) = hAuthenticated h"
  "hAuthenticated (snd (handleRegisterTCP cf e frame (sh, h))) = hAuthenticated h"
  "hAuthenticated (snd (handleUnregister e frame (sh, h))) = hAuthenticated h"
  by (auto simp: handleRegister_def handleRegisterTLS_def handleRegisterTCP_def handleUnregister_def
      Let_def registerErr_def split: sum.splits option.splits prod.splits)

lemma hAuthenticated_traffic [simp]:
  "hAuthenticated (snd (handleTCPReady frame (sh, h))) = hAuthenticated h"
  "hAuthenticated (snd (handleHTTPRes e frame (sh, h))) = hAuthenticated h"
  "hAuthenticated (snd (handleStreamData e frame (sh, h))) = hAuthenticated h"
  "hAuthenticated (snd (handleStreamClose frame (sh, h))) = hAuthenticated h"
  "hAuthenticated (snd (cleanup (sh, h))) = hAuthenticated h"
  using traffic_same_resources [where st = "(sh, h)" and frame = frame] resources_cleanup [of sh h]
  by (simp_all add: same_resources_def resources_of_def)

lemma hAuthenticated_frame:
  assumes "hAuthenticated h"
  shows "hAuthenticated (snd (handleFrame cf e frame (sh, h)))"
proof -
  have "hAuthenticated (snd (handleAuth cf e frame (sh, h)))"
    using assms by (auto simp: handleAuth_def Let_def split: sum.splits)
  with assms show ?thesis by (simp add: handleFrame_def)
qed

text \<open>A request that has its response keeps it, whatever arrives afterwards.\<close>

definition answered :: "u64 \<Rightarrow> HTTPResponse \<Rightarrow> ClientHandler \<Rightarrow> bool" where
  "answered rid resp h \<longleftrightarrow> (\<exists>pr. map_of (hReqs h) rid = Some pr \<and> prResponse pr = Some [resp])"

lemma prResponse_close [simp]:
  "prResponse (closeReady pr) = prResponse pr" "prResponse (closeDone pr) = prResponse pr"
  "prResponse (closeStream pr) = prResponse pr"
  by (simp_all add: closeReady_def closeDone_def closeStream_def split: option.splits)

lemma answered_updReq:
  "answered rid resp h \<Longrightarrow> (\<And>pr. prResponse (f pr) = prResponse pr) \<Longrightarrow> answered rid resp (updReq rid' f h)"
  by (auto simp: answered_def)

lemma answered_fold_updReq:
  "answered rid resp h \<Longrightarrow> (\<And>pr. prResponse (f pr) = prResponse pr) \<Longrightarrow>
   answered rid resp (fold (\<lambda>rid'. updReq rid' f) rids h)"
  by (induction rids arbitrary: h) (auto intro: answered_updReq)

lemma answered_view: "req_view rid h' = req_view rid h \<Longrightarrow> answered rid resp h \<Longrightarrow> answered rid resp h'"
  by (simp add: answered_def req_view_def)

lemma answered_cleanup: "answered rid resp h \<Longrightarrow> answered rid resp (snd (cleanup (sh, h)))"
  using answered_fold_updReq [of rid resp h "\<lambda>pr. closeDone (closeStream pr)" "hPending h"]
  by (simp add: cleanup_def Let_def answered_def)

lemma answered_traffic:
  assumes "answered rid resp h"
  shows "answered rid resp (snd (handleTCPReady frame (sh, h)))"
    "answered rid resp (snd (handleHTTPRes e frame (sh, h)))"
    "answered rid resp (snd (handleStreamData e frame (sh, h)))"
    "answered rid resp (snd (handleStreamClose frame (sh, h)))"
  using assms by (auto simp: answered_def handleTCPReady_def handleHTTPRes_def handleStreamData_def
      handleStreamClose_def lookupPending_def Let_def split: option.splits sum.splits)

lemma answered_auth: "answered rid resp h \<Longrightarrow> answered rid resp (snd (handleAuth cf e frame (sh, h)))"
  by (auto simp: handleAuth_def Let_def split: sum.splits
      intro!: answered_cleanup intro: answered_view [where h = h] simp: req_view_def)

lemma answered_if:
  "(P \<Longrightarrow> answered rid resp (snd x)) \<Longrightarrow> (\<not> P \<Longrightarrow> answered rid resp (snd y)) \<Longrightarrow>
   answered rid resp (snd (if P then x else y))"
  by simp

lemma answered_frame:
  assumes "answered rid resp h"
  shows "answered rid resp (snd (handleFrame cf e frame (sh, h)))"
  unfolding handleFrame_def prod.case
  by (intro answered_if answered_traffic assms answered_cleanup answered_auth
      answered_view [OF req_view_registration(1)] answered_view [OF req_view_registration(2)]
      answered_view [OF req_view_registration(3)] answered_view [OF req_view_registration(4)])
    (use assms in \<open>simp_all add: answered_def\<close>)

lemma answered_frames:
  "answered rid resp h \<Longrightarrow> answered rid resp (snd (frames_between cf fs (sh, h)))"
proof (induction fs arbitrary: sh h)
  case (Cons ef fs)
  obtain e f where ef: "ef = (e, f)" by fastforce
  obtain sh' h' where st: "handleFrame cf e f (sh, h) = (sh', h')" by fastforce
  have "answered rid resp h'" using answered_frame [OF Cons.prems, of cf e f sh] st by simp
  from Cons.IH [OF this, of sh'] show ?case by (simp add: frames_between_def ef st)
qed (simp add: frames_between_def)

definition waiting :: "u64 \<Rightarrow> ClientHandler \<Rightarrow> bool" where
  "waiting rid h \<longleftrightarrow> hAuthenticated h \<and>
     (\<exists>pr. req_view rid h = (True, Some pr) \<and> prResponse pr = Some [] \<and> \<not> prDone pr)"

lemma waiting_frames:
  "waiting rid h \<Longrightarrow> \<forall>(e, f) \<in> set fs. unrelated rid f \<Longrightarrow> waiting rid (snd (frames_between cf fs (sh, h)))"
proof (induction fs arbitrary: sh h)
  case (Cons ef fs)
  obtain e f where ef: "ef = (e, f)" by fastforce
  obtain sh' h' where st: "handleFrame cf e f (sh, h) = (sh', h')" by fastforce
  have "waiting rid h'"
    using Cons.prems req_view_unrelated [of rid f cf e sh h] hAuthenticated_frame [of h cf e f sh] st
    by (simp add: waiting_def ef)
  from Cons.IH [OF this, of sh'] Cons.prems(2) show ?case by (simp add: frames_between_def ef st)
qed (simp add: frames_between_def)

lemma waiting_response:
  assumes "waiting rid h" "ftype f = MsgHTTPRes" "RequestID f = rid" "DecodeHTTPResponse (Payload f) = Inr resp"
  shows "answered rid resp (snd (handleFrame cf e f (sh, h)))"
proof -
  have f: "handleFrame cf e f (sh, h) = handleHTTPRes e f (sh, h)"
    using assms(1,2) by (simp add: handleFrame_def waiting_def msg_defs)
  from assms(1) obtain pr where pr: "rid \<in> set (hPending h)" "map_of (hReqs h) rid = Some pr"
    "prResponse pr = Some []" "\<not> prDone pr" by (auto simp: waiting_def req_view_def)
  then show ?thesis using assms(3,4)
    by (simp add: f handleHTTPRes_def lookupPending_def answered_def Let_def)
qed

lemma answered_await:
  assumes "answered rid resp h"
  shows "\<exists>h'. awaitResponse False rid h = Some (h', Inr resp)"
  using assms by (auto simp: answered_def awaitResponse_def)

lemma startForward_waiting:
  assumes "hAuthenticated h" "hHasConn h" "EncodeHTTPRequest req = Inr payload" "length payload \<le> MaxFrameSize"
  shows "\<exists>h1. startForward True tid req sd h = (h1, Inr (hRequestIDSeq h + 1)) \<and>
     waiting (hRequestIDSeq h + 1) h1 \<and>
     hOut h1 = hOut h @ [EncodeFrame \<lparr>ftype = MsgHTTPReq, TunnelID = tid,
       RequestID = hRequestIDSeq h + 1, Payload = payload\<rparr>]"
  using assms
  by (simp add: startForward_def nextRequestID_def addPending_def writeMessage_def waiting_def req_view_def
      Let_def update_conv)

lemma frames_between_append:
  "frames_between cf (fs @ gs) st = frames_between cf gs (frames_between cf fs st)"
  by (simp add: frames_between_def)

lemma finishForward_not_pending: "rid \<notin> set (hPending (finishForward rid h))"
  by (simp add: finishForward_def)

text \<open>
  Responses reach the request they answer: after the request frame is out, let any frames for
  other requests come in (none of them closing the connection), then a response frame with this
  request's ID, then anything at all, further responses with the same ID included. Then \<^verbatim>\<open>forward\<close>
  returns, with that first response under the ID it put on the wire, and unless the caller asked to
  stream it leaves nothing pending.
\<close>

theorem forward_returns_first_response:
  assumes "hAuthenticated h" "hHasConn h" "EncodeHTTPRequest req = Inr payload" "length payload \<le> MaxFrameSize"
    and "\<forall>(e, f) \<in> set pre. unrelated (hRequestIDSeq h + 1) f"
    and "ftype f = MsgHTTPRes" "RequestID f = hRequestIDSeq h + 1" "DecodeHTTPResponse (Payload f) = Inr resp"
  shows "\<exists>sh' h'. forward cf True False (pre @ (e, f) # post) tid req sd (sh, h) =
       Some ((sh', h'), Inr (hRequestIDSeq h + 1, resp)) \<and>
     (sd = None \<longrightarrow> hRequestIDSeq h + 1 \<notin> set (hPending h'))"
proof -
  let ?rid = "hRequestIDSeq h + 1"
  obtain h1 where h1: "startForward True tid req sd h = (h1, Inr ?rid)" "waiting ?rid h1"
    using startForward_waiting [OF assms(1-4)] by blast
  obtain sh2 h2 where h2: "frames_between cf pre (sh, h1) = (sh2, h2)" by fastforce
  have "waiting ?rid h2" using waiting_frames [OF h1(2) assms(5), of cf sh] h2 by simp
  then have ans: "answered ?rid resp (snd (handleFrame cf e f (sh2, h2)))"
    by (rule waiting_response [OF _ assms(6-8)])
  obtain sh3 h3 where h3: "handleFrame cf e f (sh2, h2) = (sh3, h3)" by fastforce
  obtain sh4 h4 where h4: "frames_between cf post (sh3, h3) = (sh4, h4)" by fastforce
  have "answered ?rid resp h4" using answered_frames [of ?rid resp h3 cf post sh3] ans h3 h4 by simp
  then obtain h5 where h5: "awaitResponse False ?rid h4 = Some (h5, Inr resp)"
    using answered_await by blast
  have "frames_between cf (pre @ (e, f) # post) (sh, h1) = (sh4, h4)"
    using h2 h3 h4 by (simp add: frames_between_def)
  then show ?thesis
    by (simp add: forward_def h1 h5 finishForward_not_pending)
qed

lemma startForward_pending:
  assumes "startForward wok tid req sd h = (h1, r1)"
  shows "set (hPending h) - {hRequestIDSeq h + 1} \<subseteq> set (hPending h1)"
    "isl r1 \<Longrightarrow> hRequestIDSeq h + 1 \<notin> set (hPending h1)"
    "r1 = Inr rid \<Longrightarrow> rid = hRequestIDSeq h + 1"
  using assms
  by (auto simp: startForward_def nextRequestID_def addPending_def finishForward_def writeMessage_def Let_def
      split: sum.splits if_splits)

lemma awaitResponse_pending:
  assumes "awaitResponse fired rid h = Some (h', r)"
  shows "set (hPending h) - {rid} \<subseteq> set (hPending h')" "isl r \<Longrightarrow> rid \<notin> set (hPending h')"
  using assms by (auto simp: awaitResponse_def finishForward_def split: if_splits option.splits list.splits)

text \<open>
  C35. No request leaks: when \<^verbatim>\<open>forward\<close> returns an error, for whatever reason (the request cannot
  be encoded, its encoding is too large, the write fails, the response does not come in time), or
  returns a response to a caller that does not stream, its ID is no longer pending; a streaming
  caller's cleanup function removes it.
\<close>

theorem forward_leaves_nothing_pending:
  assumes "forward cf wok fired fs tid req sd (sh, h) = Some ((sh', h'), res)"
  shows "(sd = None \<or> isl res \<longrightarrow> hRequestIDSeq h + 1 \<notin> set (hPending h')) \<and>
     hRequestIDSeq h + 1 \<notin> set (hPending (forwardCleanup (hRequestIDSeq h + 1) sd h')) \<and>
     (fs = [] \<longrightarrow> set (hPending h) - {hRequestIDSeq h + 1} \<subseteq> set (hPending h'))"
proof (cases "startForward wok tid req sd h")
  case (Pair h1 r1)
  note st = startForward_pending [OF Pair]
  show ?thesis
  proof (cases r1)
    case (Inl err)
    with assms Pair st show ?thesis by (auto simp: forward_def forwardCleanup_def finishForward_not_pending)
  next
    case (Inr rid)
    with st have rid: "rid = hRequestIDSeq h + 1" by simp
    obtain sh2 h2 where h2: "frames_between cf fs (sh, h1) = (sh2, h2)" by fastforce
    obtain h3 r3 where h3: "awaitResponse fired rid h2 = Some (h3, r3)"
      and res: "res = map_sum id (\<lambda>resp. (rid, resp)) r3"
      and h': "h' = (if isl r3 \<or> sd \<noteq> None then h3 else finishForward rid h3)"
      using assms by (auto simp: forward_def Pair Inr h2 split: option.splits sum.splits)
    have isl: "isl res = isl r3" by (simp add: res isl_map_sum)
    have fin: "set (hPending (finishForward rid x)) = set (hPending x) - {rid}" for x
      by (simp add: finishForward_def)
    have "set (hPending h) - {rid} \<subseteq> set (hPending h3)" if "fs = []"
      using awaitResponse_pending(1) [OF h3] h2 st(1) that unfolding rid frames_between_def by auto
    moreover have "rid \<notin> set (hPending h3)" if "isl r3" using awaitResponse_pending(2) [OF h3 that] .
    ultimately show ?thesis
      unfolding isl h' rid [symmetric] forwardCleanup_def
      by (cases "isl r3"; cases sd; simp add: fin) blast
  qed
qed

definition sample_req :: HTTPRequest where
  "sample_req = \<lparr>reqMethod = ''G'', reqPath = ''/'', reqHeaders = [], reqBody = [], reqBodyStreamed = False\<rparr>"

definition sample_resp :: HTTPResponse where
  "sample_resp = \<lparr>respStatusCode = 200, respHeaders = [], respBody = [7], respBodyStreamed = False\<rparr>"

definition sample_resp_frame :: Frame where
  "sample_resp_frame = \<lparr>ftype = MsgHTTPRes, TunnelID = 0, RequestID = 1,
     Payload = [0, 200, 0, 0, 0, 0, 0, 0, 0, 1, 7]\<rparr>"

lemma sample_req_enc: "EncodeHTTPRequest sample_req = Inr [0, 1, 71, 0, 1, 47, 0, 0, 0, 0, 0, 0, 0, 0]"
  by (simp add: sample_req_def EncodeHTTPRequest_def writeString_def writeHeaders_def writeBody_def
      limit_defs bytes_of_def put_be_def)

lemma sample_resp_dec: "DecodeHTTPResponse (Payload sample_resp_frame) = Inr sample_resp"
  by (simp add: sample_resp_frame_def sample_resp_def DecodeHTTPResponse_def readHeaders_def readBody_def
      readUint_def readFull_def get_be_def limit_defs StreamedBodyLen_def)

theorem forward_returns_first_response_witness:
  "\<exists>sh' h'. forward sample_config True False ([] @ (sample_env, sample_resp_frame) # []) 7 sample_req None
       (sample_shared, sample_client) =
       Some ((sh', h'), Inr (hRequestIDSeq sample_client + 1, sample_resp)) \<and>
     (None = (None :: bytes list option) \<longrightarrow> hRequestIDSeq sample_client + 1 \<notin> set (hPending h'))"
  by (rule forward_returns_first_response [OF _ _ sample_req_enc])
    (simp_all add: sample_resp_dec sample_client_def NewClientHandler_def MaxFrameSize_def MaxBodySize_def,
     simp_all add: sample_resp_frame_def)

lemma sample_write_failure:
  "\<exists>sh' h'. forward sample_config False False [] 7 sample_req None (sample_shared, sample_client) =
     Some ((sh', h'), Inl FwdWrite)"
  by (simp add: forward_def startForward_def sample_req_enc nextRequestID_def writeMessage_def Let_def
      MaxFrameSize_def MaxBodySize_def)

theorem forward_leaves_nothing_pending_witness:
  "\<exists>sh' h'. forward sample_config False False [] 7 sample_req None (sample_shared, sample_client) =
       Some ((sh', h'), Inl FwdWrite) \<and>
     hRequestIDSeq sample_client + 1 \<notin> set (hPending h')"
  using sample_write_failure forward_leaves_nothing_pending
  by (metis (no_types, lifting))

end
