(* ===== verification/Relay.thy ===== *)
theory Relay
  imports Forward "HOL-Library.Sublist"
begin

text \<open>
  The life of one raw connection, \<^verbatim>\<open>relayPublicConn\<close> in \<^verbatim>\<open>internal/server/handler.go\<close>, under every
  interleaving of its two goroutines with the read loop of the client connection. The relation
  \<open>relay_reach\<close> steps through \<open>relayOpen\<close>, \<open>relayReady\<close>, \<open>relayDrain\<close> and \<open>relayRead\<close> and the frames
  in between, and records the bytes the client sent for this connection and the bytes read from
  its public side.
\<close>

inductive relay_reach ::
  "config \<Rightarrow> bytes \<Rightarrow> ClientHandler \<Rightarrow> bytes \<Rightarrow> bytes \<Rightarrow> Shared \<times> ClientHandler \<times> relay \<Rightarrow> bool"
  for cf pre h0 where
  rr_open: "relayOpen wok tid h0 = (h, rl) \<Longrightarrow> relay_reach cf pre h0 [] [] (sh, h, rl)"
| rr_frame: "relay_reach cf pre h0 S R (sh, h, rl) \<Longrightarrow> handleFrame cf e f (sh, h) = (sh', h') \<Longrightarrow>
    relay_reach cf pre h0
      (S @ (if ftype f = MsgStreamData \<and> RequestID f = rlReq rl then Payload f else [])) R (sh', h', rl)"
| rr_wake: "relay_reach cf pre h0 S R (sh, h, rl) \<Longrightarrow> relayReady wk wok pre (h, rl) = (h', rl') \<Longrightarrow>
    relay_reach cf pre h0 S R (sh, h', rl')"
| rr_drain: "relay_reach cf pre h0 S R (sh, h, rl) \<Longrightarrow> relayDrain pd wok (h, rl) = (h', rl') \<Longrightarrow>
    relay_reach cf pre h0 S R (sh, h', rl')"
| rr_read: "relay_reach cf pre h0 S R (sh, h, rl) \<Longrightarrow> length data \<le> StreamBufSize \<Longrightarrow>
    relayRead data err wok wokc (h, rl) = (h', rl') \<Longrightarrow>
    relay_reach cf pre h0 S (R @ (if rlPhase rl = Pumping then data else [])) (sh, h', rl')"

section \<open>Client to public\<close>

text \<open>
  The record of the request, while the relay lives: what is written to the public side and what is
  still queued are together the bytes received so far, as long as the request is pending.
\<close>

definition active :: "relay \<Rightarrow> bool" where
  "active rl \<longleftrightarrow> rlPhase rl = AwaitReady \<or> rlDraining rl"

definition down_inv :: "bytes \<Rightarrow> ClientHandler \<Rightarrow> relay \<Rightarrow> bool" where
  "down_inv S h rl \<longleftrightarrow> hAuthenticated h \<and> prefix (rlOut rl) S \<and>
     (\<exists>pr q. map_of (hReqs h) (rlReq rl) = Some pr \<and> prStreamData pr = Some q \<and>
        (rlReq rl \<in> set (hPending h) \<longrightarrow> \<not> prDone pr \<and> \<not> prStreamClosed pr) \<and>
        (active rl \<longrightarrow> prefix (rlOut rl @ concat q) S \<and>
           (rlReq rl \<in> set (hPending h) \<longrightarrow> rlOut rl @ concat q = S)))"

lemma down_inv_view:
  "req_view (rlReq rl) h' = req_view (rlReq rl) h \<Longrightarrow> hAuthenticated h' \<Longrightarrow> down_inv S h rl \<Longrightarrow> down_inv S h' rl"
  by (auto simp: down_inv_def req_view_def)

text \<open>Losing the pending entry, closing channels and later bytes that are dropped do no harm.\<close>

lemma down_inv_weaken:
  assumes "down_inv S h rl" "hAuthenticated h'" "rlReq rl \<notin> set (hPending h')"
    and "map_of (hReqs h') (rlReq rl) = map_option f (map_of (hReqs h) (rlReq rl))"
    and "\<And>pr. prStreamData (f pr) = prStreamData pr"
  shows "down_inv (S @ d) h' rl"
  using assms by (auto simp: down_inv_def intro: prefix_prefix)

lemma prStreamData_close [simp]:
  "prStreamData (closeReady pr) = prStreamData pr" "prStreamData (closeDone pr) = prStreamData pr"
  "prStreamData (closeStream pr) = prStreamData pr"
  by (simp_all add: closeReady_def closeDone_def closeStream_def split: option.splits)

lemma closeReady_fields [simp]:
  "prDone (closeReady pr) = prDone pr" "prStreamClosed (closeReady pr) = prStreamClosed pr"
  by (simp_all add: closeReady_def split: option.splits)

lemma hAuthenticated_updReq [simp]: "hAuthenticated (updReq rid f h) = hAuthenticated h"
  by (simp add: updReq_def)

lemma hAuthenticated_removePending [simp]: "hAuthenticated (removePending rid h) = hAuthenticated h"
  by (simp add: removePending_def)

lemma map_of_fold_updReq:
  "map_of (hReqs (fold (\<lambda>rid. updReq rid f) rids h)) rid =
     map_option (f ^^ count_list rids rid) (map_of (hReqs h) rid)"
proof (induction rids arbitrary: h)
  case (Cons a rids)
  have "map_option (f ^^ n) (map_option f x) = map_option (f ^^ Suc n) x" for n x
    by (cases x) (simp_all add: funpow_swap1)
  with Cons show ?case by (simp add: o_def)
qed (simp add: option.map_id0 id_def [symmetric])

lemma prStreamData_funpow:
  fixes f :: "pendingReq \<Rightarrow> pendingReq"
  shows "(\<And>pr. prStreamData (f pr) = prStreamData pr) \<Longrightarrow> prStreamData ((f ^^ n) pr) = prStreamData pr"
  by (induction n arbitrary: pr) simp_all

lemma hAuthenticated_fold_updReq [simp]:
  "hAuthenticated (fold (\<lambda>rid. updReq rid f) rids h) = hAuthenticated h"
  by (induction rids arbitrary: h) simp_all

lemma down_inv_cleanup:
  assumes "down_inv S h rl"
  shows "down_inv S (snd (cleanup (sh, h))) rl"
proof (cases "hDone h")
  case False
  let ?f = "\<lambda>pr. closeDone (closeStream pr)"
  have "down_inv (S @ []) (snd (cleanup (sh, h))) rl"
    by (rule down_inv_weaken [OF assms, where f = "?f ^^ count_list (hPending h) (rlReq rl)"])
      (use assms False in \<open>simp_all add: cleanup_def Let_def map_of_fold_updReq prStreamData_funpow\<close>,
       simp add: down_inv_def)
  then show ?thesis by simp
qed (use assms in \<open>simp add: cleanup_eq\<close>)

lemma down_inv_auth:
  assumes "down_inv S h rl"
  shows "down_inv S (snd (handleAuth cf e f (sh, h))) rl"
proof -
  have w: "down_inv S (fst (writeMessage w m t r p h')) rl" if "down_inv S h' rl" for w m t r p h'
    by (rule down_inv_view [OF _ _ that]) (use that in \<open>simp_all add: down_inv_def\<close>)
  have "down_inv S (h\<lparr>hAuthenticated := True, hClientVersion := v\<rparr>) rl" for v
    using assms by (simp add: down_inv_def)
  with assms show ?thesis
    by (auto simp: handleAuth_def Let_def intro!: w down_inv_cleanup split: sum.splits)
qed

lemma down_inv_ready:
  "down_inv S h rl \<Longrightarrow> down_inv S (snd (handleTCPReady f (sh, h))) rl"
  by (cases "RequestID f = rlReq rl")
    (auto simp: handleTCPReady_def down_inv_def split: option.splits)

lemma down_inv_res:
  "down_inv S h rl \<Longrightarrow> down_inv S (snd (handleHTTPRes e f (sh, h))) rl"
  by (cases "RequestID f = rlReq rl")
    (auto simp: handleHTTPRes_def lookupPending_def down_inv_def Let_def split: option.splits sum.splits)

lemma down_inv_close:
  assumes "down_inv S h rl"
  shows "down_inv S (snd (handleStreamClose f (sh, h))) rl"
proof (cases "RequestID f = rlReq rl \<and> rlReq rl \<in> set (hPending h)")
  case True
  let ?f = "\<lambda>pr. closeStream (closeReady pr)"
  have "down_inv (S @ []) (snd (handleStreamClose f (sh, h))) rl"
    by (rule down_inv_weaken [OF assms, where f = ?f])
      (use assms True in \<open>auto simp: handleStreamClose_def lookupPending_def down_inv_def Let_def\<close>)
  then show ?thesis by simp
next
  case False
  then show ?thesis using assms
    by (auto intro!: down_inv_view [where h = h] simp: handleStreamClose_def lookupPending_def req_view_def
        Let_def down_inv_def split: option.splits)
qed

lemma down_inv_later: "down_inv S h rl \<Longrightarrow> rlReq rl \<notin> set (hPending h) \<Longrightarrow> down_inv (S @ d) h rl"
  by (rule down_inv_weaken [where f = id]) (auto simp: down_inv_def option.map_id0)

lemma down_inv_data:
  assumes "down_inv S h rl" "RequestID f = rlReq rl"
  shows "down_inv (S @ Payload f) (snd (handleStreamData e f (sh, h))) rl"
proof (cases "rlReq rl \<in> set (hPending h)")
  case False
  then show ?thesis using down_inv_later [OF assms(1) False] assms(2)
    by (simp add: handleStreamData_def lookupPending_def)
next
  case True
  with assms(1) obtain pr q where pr: "map_of (hReqs h) (rlReq rl) = Some pr" "prStreamData pr = Some q"
    "\<not> prDone pr" "\<not> prStreamClosed pr" and eq: "active rl \<Longrightarrow> rlOut rl @ concat q = S"
    by (auto simp: down_inv_def)
  show ?thesis
  proof (cases "length q < StreamRelayBuf")
    case room: True
    have "snd (handleStreamData e f (sh, h)) =
        updReq (rlReq rl) (\<lambda>pr. pr\<lparr>prStreamData := Some (q @ [Payload f])\<rparr>) h"
      using pr True room assms(2) by (simp add: handleStreamData_def lookupPending_def)
    then show ?thesis using assms(1) pr eq by (auto simp: down_inv_def)
  next
    case full: False
    show ?thesis
      by (rule down_inv_weaken [OF assms(1), where f = closeStream])
        (use pr True full assms in \<open>simp_all add: handleStreamData_def lookupPending_def SendStreamClose_def\<close>,
         simp add: down_inv_def)
  qed
qed

lemma down_inv_frame:
  assumes inv: "down_inv S h rl" and fr: "handleFrame cf e f (sh, h) = (sh', h')"
  shows "down_inv (S @ (if ftype f = MsgStreamData \<and> RequestID f = rlReq rl then Payload f else [])) h' rl"
proof (cases "ftype f = MsgStreamData \<and> RequestID f = rlReq rl")
  case True
  then have "handleFrame cf e f (sh, h) = handleStreamData e f (sh, h)"
    using inv by (simp add: handleFrame_def down_inv_def msg_defs)
  with fr have "handleStreamData e f (sh, h) = (sh', h')" by simp
  then show ?thesis using down_inv_data [OF inv, of f e sh] True by simp
next
  case False
  have auth: "hAuthenticated h" using inv by (simp add: down_inv_def)
  have view: "down_inv S x rl" if "req_view (rlReq rl) x = req_view (rlReq rl) h" "hAuthenticated x" for x
    by (rule down_inv_view [OF that inv])
  have if_inv: "down_inv S (snd (if P then x else y)) rl"
    if "P \<Longrightarrow> down_inv S (snd x) rl" "\<not> P \<Longrightarrow> down_inv S (snd y) rl" for P x y
    using that by simp
  have other: "down_inv S (snd (handleStreamData e f (sh, h))) rl" if "ftype f = MsgStreamData"
    by (rule view) (use that False auth req_view_traffic(3) [of f "rlReq rl" e sh h] in auto)
  have "down_inv S (snd (handleFrame cf e f (sh, h))) rl"
    unfolding handleFrame_def prod.case
    by (intro if_inv inv down_inv_auth down_inv_ready down_inv_res down_inv_close down_inv_cleanup other
        view req_view_registration) (use auth inv in simp_all)
  then show ?thesis using False fr by auto
qed

lemma down_inv_end:
  assumes "down_inv S h rl"
  shows "down_inv S (fst (relayEnd (h, rl))) (snd (relayEnd (h, rl)))"
proof -
  have "down_inv (S @ []) (fst (relayEnd (h, rl))) rl"
    by (rule down_inv_weaken [OF assms, where f = closeDone])
      (use assms in \<open>simp_all add: relayEnd_def\<close>, simp add: down_inv_def)
  then show ?thesis by (auto simp: relayEnd_def down_inv_def active_def)
qed

lemma down_inv_out:
  "down_inv S h rl \<Longrightarrow> hPending h' = hPending h \<Longrightarrow> hReqs h' = hReqs h \<Longrightarrow> hAuthenticated h' = hAuthenticated h \<Longrightarrow>
   down_inv S h' rl"
  by (simp add: down_inv_def)

lemma down_inv_send:
  "down_inv S h rl \<Longrightarrow> down_inv S (fst (SendStreamData w rid d h)) rl"
  "down_inv S h rl \<Longrightarrow> down_inv S (fst (SendStreamClose w rid h)) rl"
  by (auto intro!: down_inv_out [where h = h] simp: SendStreamData_def SendStreamClose_def)

lemma down_inv_pump:
  "down_inv S h rl \<Longrightarrow> rlPhase rl = AwaitReady \<Longrightarrow> down_inv S h (rl\<lparr>rlPhase := Pumping, rlDraining := True\<rparr>)"
  by (auto simp: down_inv_def active_def)

lemma down_inv_wake:
  assumes "down_inv S h rl"
  shows "down_inv S (fst (relayReady wk wok pre (h, rl))) (snd (relayReady wk wok pre (h, rl)))"
proof (cases "rlPhase rl = AwaitReady")
  case True
  obtain h1 ok where s: "SendStreamData wok (rlReq rl) pre h = (h1, ok)" by fastforce
  have "down_inv S h1 rl" using down_inv_send(1) [OF assms, of wok "rlReq rl" pre] s by simp
  with assms True show ?thesis
    by (cases wk) (simp_all add: relayReady_def s down_inv_end down_inv_pump)
qed (use assms in \<open>simp add: relayReady_def\<close>)

lemma down_inv_stop:
  "down_inv S h rl \<Longrightarrow> rlPhase rl \<noteq> AwaitReady \<Longrightarrow>
   down_inv S h (rl\<lparr>rlConnOpen := False, rlDraining := False\<rparr>)"
  by (auto simp: down_inv_def active_def)

text \<open>The draining goroutine only exists once the relay pumps.\<close>

definition drains_late :: "relay \<Rightarrow> bool" where
  "drains_late rl \<longleftrightarrow> (rlDraining rl \<longrightarrow> rlPhase rl \<noteq> AwaitReady) \<and> (rlPhase rl = AwaitReady \<longrightarrow> rlOut rl = [])"

lemma down_inv_drain:
  assumes inv: "down_inv S h rl" and "drains_late rl"
  shows "down_inv S (fst (relayDrain pd wok (h, rl))) (snd (relayDrain pd wok (h, rl)))"
proof (cases "rlDraining rl")
  case True
  then have ph: "rlPhase rl \<noteq> AwaitReady" using assms(2) by (simp add: drains_late_def)
  from inv obtain pr q where pr: "map_of (hReqs h) (rlReq rl) = Some pr" "prStreamData pr = Some q"
    by (auto simp: down_inv_def)
  show ?thesis
  proof (cases "pd \<and> (prDone pr \<or> hDone h) \<or> q = []")
    case True
    then show ?thesis using inv down_inv_stop [OF inv ph] pr \<open>rlDraining rl\<close>
      by (auto simp: relayDrain_def)
  next
    case False
    then obtain d q' where q: "q = d # q'" by (cases q) auto
    from inv pr q True have pf: "prefix (rlOut rl @ d @ concat q') S"
      "rlReq rl \<in> set (hPending h) \<longrightarrow> rlOut rl @ d @ concat q' = S"
      "rlReq rl \<in> set (hPending h) \<longrightarrow> \<not> prDone pr \<and> \<not> prStreamClosed pr"
      by (auto simp: down_inv_def active_def)
    have "prefix (rlOut rl @ d) S" using pf(1) by (metis append.assoc append_prefixD)
    with pf False inv pr q True ph show ?thesis
      by (auto simp: relayDrain_def down_inv_def active_def Let_def)
  qed
qed (use assms in \<open>simp add: relayDrain_def\<close>)

lemma down_inv_read:
  assumes "down_inv S h rl"
  shows "down_inv S (fst (relayRead d err wok wokc (h, rl))) (snd (relayRead d err wok wokc (h, rl)))"
proof -
  obtain h1 ok where s: "(if length d > 0 then SendStreamData wok (rlReq rl) d h else (h, True)) = (h1, ok)"
    by fastforce
  have "down_inv S h1 rl" using down_inv_send(1) [OF assms, of wok "rlReq rl" d] s assms
    by (auto split: if_splits)
  with assms s show ?thesis by (simp add: relayRead_def down_inv_end down_inv_send)
qed

section \<open>Public to client\<close>

text \<open>The stream bytes for one request among the messages sent to the client.\<close>

definition stream_out :: "u64 \<Rightarrow> bytes list \<Rightarrow> bytes" where
  "stream_out rid outs = concat (map (\<lambda>out. case DecodeFrame out of
       Inl _ \<Rightarrow> []
     | Inr f \<Rightarrow> if ftype f = MsgStreamData \<and> RequestID f = rid then Payload f else []) outs)"

lemma stream_out_append [simp]: "stream_out rid (xs @ ys) = stream_out rid xs @ stream_out rid ys"
  by (simp add: stream_out_def)

lemma stream_out_Nil [simp]: "stream_out rid [] = []"
  by (simp add: stream_out_def)

lemma DecodeFrame_ftype: "DecodeFrame (EncodeFrame f) = Inr f' \<Longrightarrow> ftype f' = ftype f"
  using DecodeFrame_InrD [of "EncodeFrame f" f'] by (auto simp: EncodeFrame_def)

lemma stream_out_other [simp]:
  "ftype f \<noteq> MsgStreamData \<Longrightarrow> stream_out rid [EncodeFrame f] = []"
  by (auto simp: stream_out_def dest: DecodeFrame_ftype split: sum.splits)

lemma stream_out_data:
  "length p \<le> MaxFrameSize \<Longrightarrow>
   stream_out rid [EncodeFrame \<lparr>ftype = MsgStreamData, TunnelID = t, RequestID = rid, Payload = p\<rparr>] = p"
  using DecodeFrame_EncodeFrame [of "\<lparr>ftype = MsgStreamData, TunnelID = t, RequestID = rid, Payload = p\<rparr>" "[]"]
  by (simp add: stream_out_def)

lemma stream_out_write [simp]:
  "m \<noteq> MsgStreamData \<Longrightarrow> stream_out rid (hOut (fst (writeMessage w m t r p h))) = stream_out rid (hOut h)"
  by (simp add: hOut_writeMessage)

lemma not_stream_types [simp]:
  "MsgAuthErr \<noteq> MsgStreamData" "MsgAuthOK \<noteq> MsgStreamData" "MsgRegisterOK \<noteq> MsgStreamData"
  "MsgRegisterErr \<noteq> MsgStreamData" "MsgUnregisterOK \<noteq> MsgStreamData" "MsgUnregisterErr \<noteq> MsgStreamData"
  "MsgStreamClose \<noteq> MsgStreamData" "MsgTCPOpen \<noteq> MsgStreamData"
  by (simp_all add: msg_defs)

lemma stream_out_registerErr [simp]: "stream_out rid (hOut (registerErr w msg h)) = stream_out rid (hOut h)"
  by (simp add: registerErr_def)

lemma stream_out_SendStreamClose [simp]:
  "stream_out rid (hOut (fst (SendStreamClose w rid' h))) = stream_out rid (hOut h)"
  by (simp add: SendStreamClose_def)

lemma stream_out_registration:
  "stream_out rid (hOut (snd (handleRegister cf e frame (sh, h)))) = stream_out rid (hOut h)"
  "stream_out rid (hOut (snd (handleRegisterTLS cf e frame (sh, h)))) = stream_out rid (hOut h)"
  "stream_out rid (hOut (snd (handleRegisterTCP cf e frame (sh, h)))) = stream_out rid (hOut h)"
  "stream_out rid (hOut (snd (handleUnregister e frame (sh, h)))) = stream_out rid (hOut h)"
  by (auto simp: handleRegister_def handleRegisterTLS_def handleRegisterTCP_def handleUnregister_def
      Let_def split: sum.splits option.splits prod.splits)

lemma stream_out_rest:
  "stream_out rid (hOut (snd (handleAuth cf e frame (sh, h)))) = stream_out rid (hOut h)"
  "stream_out rid (hOut (snd (handleTCPReady frame (sh, h)))) = stream_out rid (hOut h)"
  "stream_out rid (hOut (snd (handleHTTPRes e frame (sh, h)))) = stream_out rid (hOut h)"
  "stream_out rid (hOut (snd (handleStreamData e frame (sh, h)))) = stream_out rid (hOut h)"
  "stream_out rid (hOut (snd (handleStreamClose frame (sh, h)))) = stream_out rid (hOut h)"
  by (auto simp: handleAuth_def handleTCPReady_def handleHTTPRes_def handleStreamData_def
      handleStreamClose_def Let_def split: sum.splits option.splits)

lemma stream_out_frame:
  assumes "handleFrame cf e f (sh, h) = (sh', h')"
  shows "stream_out rid (hOut h') = stream_out rid (hOut h)"
proof -
  have if_eq: "stream_out rid (hOut (snd (if P then x else y))) = v"
    if "P \<Longrightarrow> stream_out rid (hOut (snd x)) = v" "\<not> P \<Longrightarrow> stream_out rid (hOut (snd y)) = v" for P x y v
    using that by simp
  have "stream_out rid (hOut (snd (handleFrame cf e f (sh, h)))) = stream_out rid (hOut h)"
    unfolding handleFrame_def prod.case
    by (intro if_eq stream_out_registration stream_out_rest) simp_all
  then show ?thesis using assms by simp
qed

definition up_inv :: "bytes \<Rightarrow> bytes \<Rightarrow> bytes \<Rightarrow> ClientHandler \<Rightarrow> relay \<Rightarrow> bool" where
  "up_inv B pre R h rl \<longleftrightarrow>
     (case rlPhase rl of
        AwaitReady \<Rightarrow> stream_out (rlReq rl) (hOut h) = B \<and> R = []
      | Pumping \<Rightarrow> stream_out (rlReq rl) (hOut h) = B @ pre @ R
      | Ended \<Rightarrow> (\<exists>X. stream_out (rlReq rl) (hOut h) = B @ X \<and> prefix X (pre @ R)))"

lemma up_inv_end:
  "\<exists>X. stream_out (rlReq rl) (hOut h) = B @ X \<and> prefix X (pre @ R) \<Longrightarrow>
   up_inv B pre R (fst (relayEnd (h, rl))) (snd (relayEnd (h, rl)))"
  by (simp add: up_inv_def relayEnd_def)

lemma send_data_out:
  assumes "SendStreamData wok rid d h = (h', ok)" "length d \<le> MaxFrameSize"
  shows "stream_out rid (hOut h') = stream_out rid (hOut h) @ (if ok then d else [])"
  using assms by (auto simp: SendStreamData_def writeMessage_def Let_def stream_out_data split: if_splits)

lemma up_inv_wake:
  assumes "up_inv B pre R h rl" "length pre \<le> MaxFrameSize"
  shows "up_inv B pre R (fst (relayReady wk wok pre (h, rl))) (snd (relayReady wk wok pre (h, rl)))"
proof (cases "rlPhase rl = AwaitReady")
  case True
  then have B: "stream_out (rlReq rl) (hOut h) = B" "R = []" using assms(1) by (simp_all add: up_inv_def)
  obtain h1 ok where s: "SendStreamData wok (rlReq rl) pre h = (h1, ok)" by fastforce
  note h1 = send_data_out [OF s assms(2)]
  have "up_inv B pre R (fst (relayEnd (h, rl))) (snd (relayEnd (h, rl)))"
    by (rule up_inv_end) (use B in simp)
  moreover have "\<not> ok \<Longrightarrow> up_inv B pre R (fst (relayEnd (h1, rl))) (snd (relayEnd (h1, rl)))"
    by (rule up_inv_end) (use B h1 in simp)
  moreover have "ok \<Longrightarrow> up_inv B pre R h1 (rl\<lparr>rlPhase := Pumping, rlDraining := True\<rparr>)"
    "pre = [] \<Longrightarrow> up_inv B pre R h (rl\<lparr>rlPhase := Pumping, rlDraining := True\<rparr>)"
    using B h1 by (simp_all add: up_inv_def)
  ultimately show ?thesis using assms(1) True
    by (cases wk) (simp_all add: relayReady_def s)
qed (use assms in \<open>simp add: relayReady_def\<close>)

lemma up_inv_read:
  assumes "up_inv B pre R h rl" "length d \<le> MaxFrameSize"
  shows "up_inv B pre (R @ (if rlPhase rl = Pumping then d else []))
    (fst (relayRead d err wok wokc (h, rl))) (snd (relayRead d err wok wokc (h, rl)))"
proof (cases "rlPhase rl = Pumping")
  case True
  then have B: "stream_out (rlReq rl) (hOut h) = B @ pre @ R" using assms(1) by (simp add: up_inv_def)
  obtain h1 ok where s: "(if length d > 0 then SendStreamData wok (rlReq rl) d h else (h, True)) = (h1, ok)"
    by fastforce
  have h1: "stream_out (rlReq rl) (hOut h1) = B @ pre @ R @ (if ok then d else [])"
    using s send_data_out [of wok "rlReq rl" d h h1 ok] assms(2) B by (auto split: if_splits)
  show ?thesis
  proof (cases "\<not> ok \<or> err")
    case stop: True
    have "up_inv B pre (R @ d) (fst (relayEnd (fst (SendStreamClose wokc (rlReq rl) h1), rl)))
        (snd (relayEnd (fst (SendStreamClose wokc (rlReq rl) h1), rl)))"
      by (rule up_inv_end) (use h1 in simp)
    then show ?thesis using True stop s by (simp add: relayRead_def)
  next
    case False
    then show ?thesis using True s h1 by (simp add: relayRead_def up_inv_def)
  qed
qed (use assms in \<open>simp add: relayRead_def\<close>)

section \<open>The relay as a whole\<close>

definition relay_inv :: "ClientHandler \<Rightarrow> bytes \<Rightarrow> bytes \<Rightarrow> bytes \<Rightarrow> ClientHandler \<Rightarrow> relay \<Rightarrow> bool" where
  "relay_inv h0 pre S R h rl \<longleftrightarrow>
     down_inv S h rl \<and> up_inv (stream_out (hRequestIDSeq h0 + 1) (hOut h0)) pre R h rl \<and> drains_late rl \<and>
     rlReq rl = hRequestIDSeq h0 + 1"

lemma relay_inv_open:
  assumes "hAuthenticated h0" "relayOpen wok tid h0 = (h, rl)"
  shows "relay_inv h0 pre [] [] h rl"
proof -
  have "down_inv [] h rl" using assms
    by (auto simp: relayOpen_def nextRequestID_def addPending_def down_inv_def active_def relayEnd_def
        writeMessage_def Let_def update_conv split: if_splits)
  moreover have "up_inv (stream_out (hRequestIDSeq h0 + 1) (hOut h0)) pre [] h rl" using assms
    by (auto simp: relayOpen_def nextRequestID_def addPending_def up_inv_def relayEnd_def
        writeMessage_def Let_def split: if_splits)
  moreover have "drains_late rl \<and> rlReq rl = hRequestIDSeq h0 + 1" using assms
    by (auto simp: relayOpen_def nextRequestID_def drains_late_def relayEnd_def writeMessage_def Let_def
        split: if_splits)
  ultimately show ?thesis by (simp add: relay_inv_def)
qed

lemma drains_late_steps:
  assumes "drains_late rl"
  shows "drains_late (snd (relayReady wk wok pre (h, rl)))" "rlReq (snd (relayReady wk wok pre (h, rl))) = rlReq rl"
    "drains_late (snd (relayDrain pd wok (h, rl)))" "rlReq (snd (relayDrain pd wok (h, rl))) = rlReq rl"
    "drains_late (snd (relayRead d err wok wokc (h, rl)))" "rlReq (snd (relayRead d err wok wokc (h, rl))) = rlReq rl"
  using assms
  by (auto simp: drains_late_def relayReady_def relayDrain_def relayRead_def relayEnd_def Let_def
      split: wakeup.splits option.splits list.splits prod.splits)

lemma up_inv_out:
  "rlPhase rl' = rlPhase rl \<Longrightarrow> rlReq rl' = rlReq rl \<Longrightarrow>
   stream_out (rlReq rl) (hOut h') = stream_out (rlReq rl) (hOut h) \<Longrightarrow>
   up_inv B pre R h' rl' = up_inv B pre R h rl"
  by (simp only: up_inv_def)

lemma up_inv_drain:
  "up_inv B pre R (fst (relayDrain pd wok (h, rl))) (snd (relayDrain pd wok (h, rl))) = up_inv B pre R h rl"
  by (rule up_inv_out) (auto simp: relayDrain_def Let_def split: option.splits list.splits)

lemma relay_reach_inv:
  assumes "relay_reach cf pre h0 S R st" "hAuthenticated h0" "length pre \<le> MaxFrameSize"
  shows "case st of (sh, h, rl) \<Rightarrow> relay_inv h0 pre S R h rl"
  using assms(1)
proof induction
  case (rr_open wok tid h rl sh)
  then show ?case using relay_inv_open [OF assms(2)] by simp
next
  case (rr_frame S R sh h rl e f sh' h')
  then show ?case using down_inv_frame [of S h rl cf e f sh sh' h']
      up_inv_out [OF refl refl stream_out_frame [of cf e f sh h sh' h' "rlReq rl"]]
    by (simp add: relay_inv_def)
next
  case (rr_wake S R sh h rl wk wok h' rl')
  then show ?case using down_inv_wake [of S h rl wk wok pre] up_inv_wake [of _ pre R h rl wk wok]
      drains_late_steps(1,2) [of rl wk wok pre h] assms(3)
    by (auto simp: relay_inv_def)
next
  case (rr_drain S R sh h rl pd wok h' rl')
  then show ?case using down_inv_drain [of S h rl pd wok]
      up_inv_drain [of "stream_out (hRequestIDSeq h0 + 1) (hOut h0)" pre R pd wok h rl]
      drains_late_steps(3,4) [of rl pd wok h]
    by (auto simp: relay_inv_def)
next
  case (rr_read S R sh h rl data err wok wokc h' rl')
  have "length data \<le> MaxFrameSize" using rr_read.hyps(2) by (simp add: limit_defs MaxFrameSize_def MaxBodySize_def)
  with rr_read show ?case using down_inv_read [of S h rl data err wok wokc]
      up_inv_read [of _ pre R h rl data err wok wokc] drains_late_steps(5,6) [of rl data err wok wokc h]
    by (auto simp: relay_inv_def)
qed

text \<open>
  C15. Byte streams through a raw tunnel: in every state a relay can reach, under any interleaving,
  what was written to the public connection is an initial piece of what the client sent for it (in
  order, nothing lost in between, nothing twice), and all of it while the request is pending and the
  queue is empty. In the other direction nothing is sent before the client's ready frame, and then
  exactly the peeked prefix followed by the bytes read, up to the point where the relay ends.
\<close>

theorem relay_streams_in_order:
  assumes "relay_reach cf pre h0 S R (sh, h, rl)" "hAuthenticated h0" "length pre \<le> MaxFrameSize"
  shows "prefix (rlOut rl) S \<and>
    (rlReq rl \<in> set (hPending h) \<and> rlDraining rl \<and>
      map_option prStreamData (map_of (hReqs h) (rlReq rl)) = Some (Some []) \<longrightarrow> rlOut rl = S) \<and>
    (\<exists>X. stream_out (rlReq rl) (hOut h) = stream_out (rlReq rl) (hOut h0) @ X \<and> prefix X (pre @ R) \<and>
      (rlPhase rl = AwaitReady \<longrightarrow> X = []) \<and> (rlPhase rl = Pumping \<longrightarrow> X = pre @ R))"
proof (intro conjI)
  have inv: "relay_inv h0 pre S R h rl" using relay_reach_inv [OF assms] by simp
  then show "prefix (rlOut rl) S" by (simp add: relay_inv_def down_inv_def)
  show "rlReq rl \<in> set (hPending h) \<and> rlDraining rl \<and>
      map_option prStreamData (map_of (hReqs h) (rlReq rl)) = Some (Some []) \<longrightarrow> rlOut rl = S"
    using inv by (auto simp: relay_inv_def down_inv_def active_def)
  show "\<exists>X. stream_out (rlReq rl) (hOut h) = stream_out (rlReq rl) (hOut h0) @ X \<and> prefix X (pre @ R) \<and>
      (rlPhase rl = AwaitReady \<longrightarrow> X = []) \<and> (rlPhase rl = Pumping \<longrightarrow> X = pre @ R)"
    using inv by (cases "rlPhase rl") (auto simp: relay_inv_def up_inv_def)
qed

definition ready_frame :: Frame where
  "ready_frame = \<lparr>ftype = MsgTCPOpen, TunnelID = 0, RequestID = 1, Payload = []\<rparr>"

lemma sample_relay:
  "\<exists>h rl. relay_reach sample_config [5] sample_client [] [9] (sample_shared, h, rl) \<and> rlPhase rl = Pumping \<and> rlReq rl = 1"
proof -
  obtain h1 rl1 where o: "relayOpen True 7 sample_client = (h1, rl1)" by fastforce
  note r1 = rr_open [OF o, of sample_config "[5]" sample_shared]
  have 1: "hHasConn h1" "hAuthenticated h1" "hPending h1 = [1]" "rlReq rl1 = 1" "rlPhase rl1 = AwaitReady"
    "map_option prReady (map_of (hReqs h1) 1) = Some (Some False)"
    using o by (auto simp: relayOpen_def nextRequestID_def addPending_def sample_client_def NewClientHandler_def
        writeMessage_def Let_def)
  define h2 where "h2 = updReq 1 closeReady h1"
  have f: "handleFrame sample_config sample_env ready_frame (sample_shared, h1) = (sample_shared, h2)"
    using 1 by (auto simp: handleFrame_def handleTCPReady_def ready_frame_def lookupPending_def msg_defs h2_def)
  have r2: "relay_reach sample_config [5] sample_client [] [] (sample_shared, h2, rl1)"
    using rr_frame [OF r1 f] by (simp add: ready_frame_def)
  have 2: "hHasConn h2" "map_option prReady (map_of (hReqs h2) 1) = Some (Some True)"
    using 1 by (auto simp: h2_def updReq_def closeReady_def update_conv split: option.splits)
  obtain h3 rl3 where w: "relayReady WakeReady True [5] (h2, rl1) = (h3, rl3)" by fastforce
  have 3: "hHasConn h3" "rlReq rl3 = 1" "rlPhase rl3 = Pumping"
    using w 1 2 by (auto simp: relayReady_def SendStreamData_def writeMessage_def Let_def split: option.splits)
  obtain h4 rl4 where d: "relayRead [9] False True True (h3, rl3) = (h4, rl4)" by fastforce
  have 4: "rlReq rl4 = 1" "rlPhase rl4 = Pumping"
    using d 3 by (auto simp: relayRead_def SendStreamData_def writeMessage_def Let_def)
  have "relay_reach sample_config [5] sample_client [] [9] (sample_shared, h4, rl4)"
    using rr_read [OF rr_wake [OF r2 w] _ d] 3 by (simp add: StreamBufSize_def)
  with 4 show ?thesis by blast
qed

theorem relay_streams_in_order_witness:
  "\<exists>h rl. relay_reach sample_config [5] sample_client [] [9] (sample_shared, h, rl) \<and>
     prefix (rlOut rl) [] \<and> stream_out 1 (hOut h) = [5, 9]"
proof -
  obtain h rl where r: "relay_reach sample_config [5] sample_client [] [9] (sample_shared, h, rl)"
    "rlPhase rl = Pumping" "rlReq rl = 1" using sample_relay by blast
  have "stream_out 1 (hOut h) = [5, 9]" "prefix (rlOut rl) []"
    using relay_streams_in_order [OF r(1)] r(2,3)
    by (simp_all add: sample_client_def NewClientHandler_def MaxFrameSize_def MaxBodySize_def)
  with r(1) show ?thesis by blast
qed

end
