(* ===== verification/Ownership.thy ===== *)
theory Ownership
  imports Prelude
begin

text \<open>
  Who owns what. Several clients hold entries of a table each (a tunnel under its ID), every entry
  stands for one name of a shared pool (a subdomain, a public port), and the pool is to contain
  exactly the names of the entries, each once. The predicate \<open>owned\<close> says so; the locale states
  what a pool has to promise about giving a name back, and proves once how taking, giving back and
  tearing down a whole client preserve ownership. The registries, the port allocator and the
  listeners of the server are its interpretations.
\<close>

type_synonym ('c, 'i, 'v) tables = "'c \<Rightarrow> 'i \<Rightarrow> 'v option"

definition owned :: "('v \<Rightarrow> 'k) \<Rightarrow> 'k set \<Rightarrow> ('c, 'i, 'v) tables \<Rightarrow> bool" where
  "owned name N T \<longleftrightarrow>
     N = {name v | c i v. T c i = Some v} \<and>
     (\<forall>c i v c' i' v'. T c i = Some v \<longrightarrow> T c' i' = Some v' \<longrightarrow> name v = name v' \<longrightarrow> c = c' \<and> i = i')"

lemma owned_mem: "owned name N T \<Longrightarrow> T c i = Some v \<Longrightarrow> name v \<in> N"
  by (auto simp: owned_def)

lemma owned_obtain:
  assumes "owned name N T" "k \<in> N"
  obtains c i v where "T c i = Some v" "name v = k"
  using assms by (auto simp: owned_def)

lemma owned_unique:
  "owned name N T \<Longrightarrow> T c i = Some v \<Longrightarrow> T c' i' = Some v' \<Longrightarrow> name v = name v' \<Longrightarrow> c = c' \<and> i = i'"
  by (simp add: owned_def)

lemma owned_empty: "(\<And>c i. T c i = None) \<Longrightarrow> owned name {} T"
  by (simp add: owned_def)

lemma owned_take:
  assumes "owned name N T" "name v \<notin> N" "T c i = None"
  shows "owned name (insert (name v) N) (T(c := (T c)(i \<mapsto> v)))"
  unfolding owned_def
proof (intro conjI allI impI)
  show "insert (name v) N = {name w | c' i' w. (T(c := (T c)(i \<mapsto> v))) c' i' = Some w}" (is "?l = ?r")
  proof
    have "name v \<in> ?r" by (rule CollectI, rule exI [of _ c], rule exI [of _ i]) simp
    moreover have "name w \<in> ?r" if "T c' i' = Some w" for c' i' w
      using that assms(3) by (intro CollectI exI [of _ c'] exI [of _ i']) auto
    moreover have "N \<subseteq> ?r"
    proof
      fix k assume "k \<in> N"
      from owned_obtain [OF assms(1) this] obtain c' i' w where "T c' i' = Some w" "name w = k" .
      then show "k \<in> ?r" using calculation(2) [of c' i' w] by simp
    qed
    ultimately show "?l \<subseteq> ?r" by simp
  qed (use assms in \<open>auto simp: owned_def split: if_splits\<close>)
next
  fix c1 i1 v1 c2 i2 v2
  assume "(T(c := (T c)(i \<mapsto> v))) c1 i1 = Some v1" "(T(c := (T c)(i \<mapsto> v))) c2 i2 = Some v2"
    "name v1 = name v2"
  then show "c1 = c2" "i1 = i2"
    using owned_unique [OF assms(1), of c1 i1 v1 c2 i2 v2] owned_mem [OF assms(1), of c1 i1 v1]
      owned_mem [OF assms(1), of c2 i2 v2] assms(2)
    by (auto split: if_splits)
qed

text \<open>Removing entries, of one client, together with exactly their names.\<close>

lemma owned_restrict:
  assumes "owned name N T" and sub: "m \<subseteq>\<^sub>m T c"
    and K: "K = {name v | i v. T c i = Some v \<and> m i = None}"
  shows "owned name (N - K) (T(c := m))"
  unfolding owned_def
proof (intro conjI allI impI)
  have m: "m i = Some v \<Longrightarrow> T c i = Some v" for i v using sub by (auto simp: map_le_def dom_def)
  show "N - K = {name w | c' i' w. (T(c := m)) c' i' = Some w}" (is "?l = ?r")
  proof (intro equalityI subsetI)
    fix k assume k: "k \<in> ?l"
    then obtain c' i' w where w: "T c' i' = Some w" "name w = k"
      using owned_obtain [OF assms(1)] by blast
    then have "(T(c := m)) c' i' = Some w"
      using k K m [of i'] by (cases "c' = c"; cases "m i'") (auto, metis option.distinct(1))
    with w show "k \<in> ?r" by blast
  next
    fix k assume "k \<in> ?r"
    then obtain c' i' w where w: "(T(c := m)) c' i' = Some w" "name w = k" by blast
    then have T: "T c' i' = Some w" using m by (auto split: if_splits)
    have "k \<notin> K"
    proof
      assume "k \<in> K"
      then obtain i v where iv: "T c i = Some v" "m i = None" "name v = k" using K by blast
      with T w(2) owned_unique [OF assms(1) iv(1) T] have "c = c'" "i = i'" by auto
      with iv w show False by simp
    qed
    with T w(2) owned_mem [OF assms(1) T] show "k \<in> ?l" by simp
  qed
next
  fix c1 i1 v1 c2 i2 v2
  assume "(T(c := m)) c1 i1 = Some v1" "(T(c := m)) c2 i2 = Some v2" and n: "name v1 = name v2"
  then have "T c1 i1 = Some v1" "T c2 i2 = Some v2"
    using sub by (auto simp: map_le_def dom_def split: if_splits)
  from owned_unique [OF assms(1) this n] show "c1 = c2" "i1 = i2" by simp_all
qed

lemma owned_give_back:
  assumes "owned name N T" "T c i = Some v"
  shows "owned name (N - {name v}) (T(c := (T c)(i := None)))"
  by (rule owned_restrict [OF assms(1)]) (use assms(2) in \<open>auto simp: map_le_def\<close>)

lemma owned_drop:
  assumes "owned name N T"
  shows "owned name (N - name ` ran (T c)) (T(c := Map.empty))"
  by (rule owned_restrict [OF assms]) (auto simp: ran_def)

text \<open>
  The half of ownership that survives a pool which leaks: every entry's name is in the pool and no two
  entries share one, but the pool may hold more.
\<close>

definition covered :: "('v \<Rightarrow> 'k) \<Rightarrow> 'k set \<Rightarrow> ('c, 'i, 'v) tables \<Rightarrow> bool" where
  "covered name N T \<longleftrightarrow>
     (\<forall>c i v. T c i = Some v \<longrightarrow> name v \<in> N) \<and>
     (\<forall>c i v c' i' v'. T c i = Some v \<longrightarrow> T c' i' = Some v' \<longrightarrow> name v = name v' \<longrightarrow> c = c' \<and> i = i')"

lemma covered_mem: "covered name N T \<Longrightarrow> T c i = Some v \<Longrightarrow> name v \<in> N"
  by (simp add: covered_def)

lemma covered_unique:
  "covered name N T \<Longrightarrow> T c i = Some v \<Longrightarrow> T c' i' = Some v' \<Longrightarrow> name v = name v' \<Longrightarrow> c = c' \<and> i = i'"
  by (simp add: covered_def)

lemma covered_more: "covered name N T \<Longrightarrow> N \<subseteq> M \<Longrightarrow> covered name M T"
  by (auto simp: covered_def)

lemma owned_covered: "owned name N T \<longleftrightarrow> covered name N T \<and> N \<subseteq> {name v | c i v. T c i = Some v}"
  by (auto simp: owned_def covered_def)

lemma covered_take:
  assumes "covered name N T" "name v \<notin> N" "T c i = None"
  shows "covered name (insert (name v) N) (T(c := (T c)(i \<mapsto> v)))"
  unfolding covered_def
proof (intro conjI allI impI)
  fix c1 i1 v1 c2 i2 v2
  assume "(T(c := (T c)(i \<mapsto> v))) c1 i1 = Some v1" "(T(c := (T c)(i \<mapsto> v))) c2 i2 = Some v2" "name v1 = name v2"
  then show "c1 = c2" "i1 = i2"
    using covered_unique [OF assms(1), of c1 i1 v1 c2 i2 v2] covered_mem [OF assms(1), of c1 i1 v1]
      covered_mem [OF assms(1), of c2 i2 v2] assms(2)
    by (auto split: if_splits)
qed (use covered_mem [OF assms(1)] in \<open>auto split: if_splits\<close>)

lemma covered_drop:
  assumes "covered name N T"
  shows "covered name (N - name ` ran (T c)) (T(c := Map.empty))"
  unfolding covered_def
proof (intro conjI allI impI)
  fix c' i v assume "(T(c := Map.empty)) c' i = Some v"
  then have v: "T c' i = Some v" "c' \<noteq> c" by (auto split: if_splits)
  have "name v \<notin> name ` ran (T c)"
  proof
    assume "name v \<in> name ` ran (T c)"
    then obtain i' w where "T c i' = Some w" "name w = name v" by (auto simp: ran_def)
    with covered_unique [OF assms v(1)] v(2) show False by metis
  qed
  then show "name v \<in> N - name ` ran (T c)" using covered_mem [OF assms v(1)] by simp
next
  fix c1 i1 v1 c2 i2 v2
  assume "(T(c := Map.empty)) c1 i1 = Some v1" "(T(c := Map.empty)) c2 i2 = Some v2" and n: "name v1 = name v2"
  then have "T c1 i1 = Some v1" "T c2 i2 = Some v2" by (auto split: if_splits)
  from covered_unique [OF assms this n] show "c1 = c2" "i1 = i2" by simp_all
qed

section \<open>Pools\<close>

locale name_pool =
  fixes taken :: "'r \<Rightarrow> 'k set"
    and free :: "'k \<Rightarrow> 'r \<Rightarrow> 'r"
    and pool_ok :: "'r \<Rightarrow> bool"
  assumes taken_free: "pool_ok r \<Longrightarrow> taken (free k r) = taken r - {k}"
    and pool_ok_free: "pool_ok r \<Longrightarrow> pool_ok (free k r)"
begin

lemma pool_ok_free_all: "pool_ok r \<Longrightarrow> pool_ok (fold free ks r)"
  by (induction ks arbitrary: r) (simp_all add: pool_ok_free)

lemma taken_free_all: "pool_ok r \<Longrightarrow> taken (fold free ks r) = taken r - set ks"
  by (induction ks arbitrary: r) (auto simp: pool_ok_free taken_free)

lemma owned_free:
  assumes "pool_ok r" "owned name (taken r) T" "T c i = Some v"
  shows "owned name (taken (free (name v) r)) (T(c := (T c)(i := None)))"
  using owned_give_back [OF assms(2,3)] by (simp add: taken_free [OF assms(1)])

lemma owned_free_all:
  assumes "pool_ok r" "owned name (taken r) T" "set ks = name ` ran (T c)"
  shows "owned name (taken (fold free ks r)) (T(c := Map.empty))"
  using owned_drop [OF assms(2), of c] assms(3) by (simp add: taken_free_all [OF assms(1)])

end

interpretation listeners: name_pool set removeAll "\<lambda>_. True"
  by unfold_locales auto

end
