(* ===== verification/Server.thy ===== *)
theory Server
  imports Relay Ownership Flags
begin

text \<open>
  Several client connections on one server: the shared registries, port allocator and listeners
  together with the resources of every connection, and the invariant that ties them together. The
  contract \<open>res_step\<close> of a connection carries the proofs; the concrete step relation over
  \<^verbatim>\<open>ClientHandler\<close> records follows it.
\<close>

section \<open>Pools\<close>

interpretation names: name_pool "\<lambda>g. dom (Get g)" Unregister reg_inv
  by unfold_locales (auto simp: reg_inv_Unregister)

interpretation portsP: name_pool held_ports "\<lambda>p a. Release a p" alloc_inv
  by unfold_locales (simp_all add: pa.release_held pa.release_inv)

definition names_exact :: "Registry \<Rightarrow> (hid, u64, Tunnel) tables \<Rightarrow> bool" where
  "names_exact g T \<longleftrightarrow> reg_inv g \<and> owned tunSubdomain (dom (Get g)) T \<and>
     (\<forall>c i t. T c i = Some t \<longrightarrow> Get g (tunSubdomain t) = Some t \<and> tunHandler t = c \<and> tunID t = i)"

lemma names_exact_register:
  assumes "names_exact g T" "Register sub c rnd g = (g', Inr t)" "T c (tunID t) = None"
  shows "names_exact g' (T(c := (T c)(tunID t \<mapsto> t)))"
proof -
  have g: "reg_inv g" using assms(1) by (simp add: names_exact_def)
  note reg = Get_Register_ok [OF g assms(2)]
  have "reg_inv g'" using reg_inv_Register [OF g, of sub c rnd] assms(2) by simp
  moreover have "owned tunSubdomain (dom (Get g')) (T(c := (T c)(tunID t \<mapsto> t)))"
    using owned_take [of tunSubdomain "dom (Get g)" T t c "tunID t"] assms(1,3) reg
    by (auto simp: names_exact_def)
  moreover have "tunSubdomain t' \<noteq> sub" if "T c' i' = Some t'" for c' i' t'
    using that assms(1) reg unfolding names_exact_def by (metis option.distinct(1))
  ultimately show ?thesis using assms(1) reg by (auto simp: names_exact_def)
qed

lemma names_exact_unregister:
  assumes "names_exact g T" "T c i = Some t"
  shows "names_exact (Unregister (tunSubdomain t) g) (T(c := (T c)(i := None)))"
proof -
  have g: "reg_inv g" and o: "owned tunSubdomain (dom (Get g)) T" using assms(1) by (simp_all add: names_exact_def)
  have "tunSubdomain t' \<noteq> tunSubdomain t" if "T c' i' = Some t'" "c' \<noteq> c \<or> i' \<noteq> i" for c' i' t'
    using owned_unique [OF o that(1) assms(2)] that(2) by auto
  then show ?thesis using assms names.owned_free [OF g o assms(2)] g
    by (auto simp: names_exact_def reg_inv_Unregister split: if_splits)
qed

lemma Get_unregister_all: "reg_inv g \<Longrightarrow> Get (fold Unregister ss g) = (Get g) |` (- set ss)"
  by (induction ss arbitrary: g) (auto simp: reg_inv_Unregister restrict_map_def fun_eq_iff)

lemma names_exact_drop:
  assumes "names_exact g T" "set ss = tunSubdomain ` ran (T c)"
  shows "names_exact (fold Unregister ss g) (T(c := Map.empty))"
proof -
  have g: "reg_inv g" and o: "owned tunSubdomain (dom (Get g)) T" using assms(1) by (simp_all add: names_exact_def)
  have "tunSubdomain t' \<notin> set ss" if "T c' i' = Some t'" "c' \<noteq> c" for c' i' t'
  proof
    assume "tunSubdomain t' \<in> set ss"
    then obtain i t where "T c i = Some t" "tunSubdomain t = tunSubdomain t'"
      using assms(2) by (auto simp: ran_def)
    with owned_unique [OF o that(1)] that(2) show False by metis
  qed
  then show ?thesis
    using assms names.owned_free_all [OF g o assms(2)] names.pool_ok_free_all [OF g] Get_unregister_all [OF g]
    by (auto simp: names_exact_def split: if_splits)
qed

text \<open>
  A connection may be sent frames after it has been cleaned up: the read loop handles what the socket had
  already delivered. What such a late frame registers is never given back, and a late frame may take a name
  out of the registry that somebody else has registered since. So the invariant has two halves. The first
  holds always; \<open>L\<close> is the set of connections whose late frames have changed the shared state. The second, that
  table and pool agree exactly, holds as long as there are none.
\<close>

definition names_live :: "Registry \<Rightarrow> (hid, u64, Tunnel) tables \<Rightarrow> hid set \<Rightarrow> bool" where
  "names_live g T L \<longleftrightarrow> reg_inv g \<and>
     (\<forall>sub t. Get g sub = Some t \<longrightarrow> tunSubdomain t = sub \<and> (T (tunHandler t) (tunID t) = Some t \<or> tunHandler t \<in> L))"

lemma names_liveD:
  "names_live g T L \<Longrightarrow> Get g sub = Some t \<Longrightarrow> tunSubdomain t = sub \<and> (T (tunHandler t) (tunID t) = Some t \<or> tunHandler t \<in> L)"
  by (simp add: names_live_def)

lemma names_liveI:
  "reg_inv g \<Longrightarrow> (\<And>sub t. Get g sub = Some t \<Longrightarrow> tunSubdomain t = sub \<and> (T (tunHandler t) (tunID t) = Some t \<or> tunHandler t \<in> L)) \<Longrightarrow>
   names_live g T L"
  by (simp add: names_live_def)

lemma names_live_register:
  assumes "names_live g T L" "Register sub c rnd g = (g', Inr t)" "T c (tunID t) = None"
  shows "names_live g' (T(c := (T c)(tunID t \<mapsto> t))) L"
proof -
  have g: "reg_inv g" using assms(1) by (simp add: names_live_def)
  note reg = Get_Register_ok [OF g assms(2)]
  have "reg_inv g'" using reg_inv_Register [OF g, of sub c rnd] assms(2) by simp
  then show ?thesis
  proof (rule names_liveI)
    fix sub' t' assume "Get g' sub' = Some t'"
    then show "tunSubdomain t' = sub' \<and> ((T(c := (T c)(tunID t \<mapsto> t))) (tunHandler t') (tunID t') = Some t' \<or> tunHandler t' \<in> L)"
      using reg names_liveD [OF assms(1), of sub' t'] assms(3) by (cases "sub' = sub") auto
  qed
qed

lemma names_live_late:
  assumes "names_live g T L" "Register sub c rnd g = (g', Inr t)"
  shows "names_live g' T (insert c L)"
proof -
  have g: "reg_inv g" using assms(1) by (simp add: names_live_def)
  have "reg_inv g'" using reg_inv_Register [OF g, of sub c rnd] assms(2) by simp
  then show ?thesis using assms(1) Get_Register_ok [OF g assms(2)] unfolding names_live_def by (auto split: if_splits)
qed

lemma names_live_unregister:
  assumes "names_live g T L" "T c i = Some t"
  shows "names_live (Unregister (tunSubdomain t) g) (T(c := (T c)(i := None))) L"
proof (rule names_liveI)
  have g: "reg_inv g" using assms(1) by (simp add: names_live_def)
  then show "reg_inv (Unregister (tunSubdomain t) g)" by (rule reg_inv_Unregister)
  fix sub' t' assume "Get (Unregister (tunSubdomain t) g) sub' = Some t'"
  then have "Get g sub' = Some t'" "sub' \<noteq> tunSubdomain t" using g by (auto split: if_splits)
  then show "tunSubdomain t' = sub' \<and> ((T(c := (T c)(i := None))) (tunHandler t') (tunID t') = Some t' \<or> tunHandler t' \<in> L)"
    using names_liveD [OF assms(1), of sub' t'] assms(2) by auto
qed

lemma names_live_less: "names_live g T L \<Longrightarrow> names_live (Unregister s g) T L"
  unfolding names_live_def by (auto simp: reg_inv_Unregister split: if_splits)

lemma names_live_mono: "names_live g T L \<Longrightarrow> L \<subseteq> L' \<Longrightarrow> names_live g T L'"
  unfolding names_live_def by blast

lemma names_live_drop:
  assumes "names_live g T L" "set ss = tunSubdomain ` ran (T c)"
  shows "names_live (fold Unregister ss g) (T(c := Map.empty)) L"
proof -
  have g: "reg_inv g" using assms(1) by (simp add: names_live_def)
  have "tunSubdomain t \<in> set ss" if "T c i = Some t" for i t using that assms(2) by (auto simp: ran_def)
  then show ?thesis using assms(1) names.pool_ok_free_all [OF g, of ss] Get_unregister_all [OF g, of ss]
    unfolding names_live_def by (auto simp: restrict_map_def split: if_splits)
qed

definition names_ok :: "Registry \<Rightarrow> (hid, u64, Tunnel) tables \<Rightarrow> hid set \<Rightarrow> bool" where
  "names_ok g T L \<longleftrightarrow> names_live g T L \<and> (L = {} \<longrightarrow> names_exact g T)"

lemma names_ok_register:
  "names_ok g T L \<Longrightarrow> Register sub c rnd g = (g', Inr t) \<Longrightarrow> T c (tunID t) = None \<Longrightarrow>
   names_ok g' (T(c := (T c)(tunID t \<mapsto> t))) L"
  using names_live_register [of g T L sub c rnd g' t] names_exact_register [of g T sub c rnd g' t] by (simp add: names_ok_def)

lemma names_ok_unregister:
  "names_ok g T L \<Longrightarrow> T c i = Some t \<Longrightarrow> names_ok (Unregister (tunSubdomain t) g) (T(c := (T c)(i := None))) L"
  by (simp add: names_ok_def names_live_unregister names_exact_unregister)

lemma names_ok_drop:
  "names_ok g T L \<Longrightarrow> set ss = tunSubdomain ` ran (T c) \<Longrightarrow> names_ok (fold Unregister ss g) (T(c := Map.empty)) L"
  by (simp add: names_ok_def names_live_drop names_exact_drop)

lemma names_ok_late: "names_live g T (insert c L) \<Longrightarrow> names_ok g T (insert c L)"
  by (simp add: names_ok_def)

definition ports_exact :: "PortAllocator \<Rightarrow> u16 list \<Rightarrow> (hid, u64, tcpTunnel) tables \<Rightarrow> bool" where
  "ports_exact a ls T \<longleftrightarrow> alloc_inv a \<and> held_ports a \<subseteq> port_range a \<and>
     owned ttPublicPort (held_ports a) T \<and> owned ttPublicPort (set ls) T"

lemma ports_exact_alloc:
  assumes "ports_exact a ls T" "Allocate a pref = (a', Inr p)" "ttPublicPort tt = p" "T c i = None"
  shows "ports_exact a' (p # ls) (T(c := (T c)(i \<mapsto> tt)))"
proof -
  have a: "alloc_inv a" and o: "owned ttPublicPort (held_ports a) T" "owned ttPublicPort (set ls) T"
    and sub: "held_ports a \<subseteq> port_range a"
    using assms(1) by (simp_all add: ports_exact_def)
  have same: "set ls = held_ports a" using o by (simp add: owned_def)
  note al = pa.alloc_ok [OF a assms(2)]
  have "owned ttPublicPort (insert p (held_ports a)) (T(c := (T c)(i \<mapsto> tt)))"
    using owned_take [OF o(1), of tt c i] al assms(3,4) by simp
  with same al show ?thesis
    using pa.alloc_inv [OF a, of pref] pa.held_in_ports [OF a sub assms(2)] assms(2)
    by (simp add: ports_exact_def)
qed

lemma ports_exact_same:
  assumes "ports_exact a ls T" "alloc_inv a'" "held_ports a' = held_ports a" "port_range a' = port_range a"
  shows "ports_exact a' ls T"
  using assms by (simp add: ports_exact_def)

lemma ports_exact_drop:
  assumes "ports_exact a ls T" "set ps = ttPublicPort ` ran (T c)"
  shows "ports_exact (fold (\<lambda>p a. Release a p) ps a) (fold removeAll ps ls) (T(c := Map.empty))"
proof -
  have a: "alloc_inv a" and o: "owned ttPublicPort (held_ports a) T" "owned ttPublicPort (set ls) T"
    and sub: "held_ports a \<subseteq> port_range a"
    using assms(1) by (simp_all add: ports_exact_def)
  have "port_range (fold (\<lambda>p a. Release a p) ps a) = port_range a"
    by (induction ps arbitrary: a) (simp_all add: pa.release_ports)
  with sub show ?thesis
    using portsP.owned_free_all [OF a o(1) assms(2)] listeners.owned_free_all [OF _ o(2) assms(2)]
      portsP.pool_ok_free_all [OF a] portsP.taken_free_all [OF a]
    by (auto simp: ports_exact_def)
qed

text \<open>Ports can only be leaked: what an open connection holds stays held, listening and unshared.\<close>

definition ports_live :: "PortAllocator \<Rightarrow> u16 list \<Rightarrow> (hid, u64, tcpTunnel) tables \<Rightarrow> bool" where
  "ports_live a ls T \<longleftrightarrow> alloc_inv a \<and> held_ports a \<subseteq> port_range a \<and> set ls = held_ports a \<and>
     covered ttPublicPort (held_ports a) T"

lemma ports_live_more:
  assumes "ports_live a ls T" "Allocate a pref = (a', Inr p)"
  shows "ports_live a' (p # ls) T"
proof -
  have a: "alloc_inv a" and sub: "held_ports a \<subseteq> port_range a" using assms(1) by (simp_all add: ports_live_def)
  note al = pa.alloc_ok [OF a assms(2)]
  have "covered ttPublicPort (held_ports a') T"
    using covered_more [of ttPublicPort "held_ports a" T "held_ports a'"] assms(1) al by (auto simp: ports_live_def)
  then show ?thesis
    using assms pa.alloc_inv [OF a, of pref] pa.held_in_ports [OF a sub assms(2)] al by (auto simp: ports_live_def)
qed

lemma ports_live_alloc:
  assumes "ports_live a ls T" "Allocate a pref = (a', Inr p)" "ttPublicPort tt = p" "T c i = None"
  shows "ports_live a' (p # ls) (T(c := (T c)(i \<mapsto> tt)))"
proof -
  have a: "alloc_inv a" using assms(1) by (simp add: ports_live_def)
  note al = pa.alloc_ok [OF a assms(2)]
  have "covered ttPublicPort (insert p (held_ports a)) (T(c := (T c)(i \<mapsto> tt)))"
    using covered_take [of ttPublicPort "held_ports a" T tt c i] assms al by (simp add: ports_live_def)
  then show ?thesis using ports_live_more [OF assms(1,2)] al by (simp add: ports_live_def)
qed

lemma ports_live_same:
  "ports_live a ls T \<Longrightarrow> alloc_inv a' \<Longrightarrow> held_ports a' = held_ports a \<Longrightarrow> port_range a' = port_range a \<Longrightarrow> ports_live a' ls T"
  by (simp add: ports_live_def)

lemma ports_live_drop:
  assumes "ports_live a ls T" "set ps = ttPublicPort ` ran (T c)"
  shows "ports_live (fold (\<lambda>p a. Release a p) ps a) (fold removeAll ps ls) (T(c := Map.empty))"
proof -
  have a: "alloc_inv a" and same: "set ls = held_ports a" and o: "covered ttPublicPort (held_ports a) T"
    and sub: "held_ports a \<subseteq> port_range a" using assms(1) by (simp_all add: ports_live_def)
  have "port_range (fold (\<lambda>p a. Release a p) ps a) = port_range a"
    by (induction ps arbitrary: a) (simp_all add: pa.release_ports)
  then show ?thesis
    using sub same covered_drop [OF o, of c] portsP.pool_ok_free_all [OF a, of ps] portsP.taken_free_all [OF a, of ps]
      listeners.taken_free_all [of ps ls] assms(2)
    by (auto simp: ports_live_def)
qed

definition ports_ok :: "PortAllocator \<Rightarrow> u16 list \<Rightarrow> (hid, u64, tcpTunnel) tables \<Rightarrow> hid set \<Rightarrow> bool" where
  "ports_ok a ls T L \<longleftrightarrow> ports_live a ls T \<and> (L = {} \<longrightarrow> ports_exact a ls T)"

lemma ports_ok_alloc:
  "ports_ok a ls T L \<Longrightarrow> Allocate a pref = (a', Inr p) \<Longrightarrow> ttPublicPort tt = p \<Longrightarrow> T c i = None \<Longrightarrow>
   ports_ok a' (p # ls) (T(c := (T c)(i \<mapsto> tt))) L"
  using ports_live_alloc [of a ls T pref a' p tt c i] ports_exact_alloc [of a ls T pref a' p tt c i]
  by (simp add: ports_ok_def)

lemma ports_ok_same:
  "ports_ok a ls T L \<Longrightarrow> alloc_inv a' \<Longrightarrow> held_ports a' = held_ports a \<Longrightarrow> port_range a' = port_range a \<Longrightarrow> ports_ok a' ls T L"
  using ports_live_same [of a ls T a'] ports_exact_same [of a ls T a'] by (simp add: ports_ok_def)

lemma ports_ok_drop:
  "ports_ok a ls T L \<Longrightarrow> set ps = ttPublicPort ` ran (T c) \<Longrightarrow>
   ports_ok (fold (\<lambda>p a. Release a p) ps a) (fold removeAll ps ls) (T(c := Map.empty)) L"
  by (simp add: ports_ok_def ports_live_drop ports_exact_drop)

section \<open>The invariant over all connections\<close>

definition live_table :: "(resources \<Rightarrow> ('i, 'v) gomap) \<Rightarrow> (hid \<Rightarrow> resources option) \<Rightarrow> (hid, 'i, 'v) tables" where
  "live_table f rs c = (case rs c of None \<Rightarrow> Map.empty | Some r \<Rightarrow> if rsDone r then Map.empty else map_of (f r))"

lemma live_table_upd:
  "live_table f (rs(c \<mapsto> r)) = (live_table f rs)(c := (if rsDone r then Map.empty else map_of (f r)))"
  by (auto simp: live_table_def fun_eq_iff)

lemma live_table_at: "rs c = Some r \<Longrightarrow> \<not> rsDone r \<Longrightarrow> live_table f rs c = map_of (f r)"
  by (simp add: live_table_def)

text \<open>What holds of one connection by itself.\<close>

definition res_ok :: "hid \<Rightarrow> resources \<Rightarrow> bool" where
  "res_ok c r \<longleftrightarrow> rsSelf r = c \<and>
     distinct (map fst (rsTunnels r)) \<and> distinct (map fst (rsTcp r)) \<and> distinct (map fst (rsTls r)) \<and>
     rsCount r = int (length (rsTunnels r) + length (rsTcp r) + length (rsTls r)) \<and>
     rsCount r \<le> int MaxTunnelsPerClient \<and>
     (\<not> rsAuth r \<longrightarrow> rsTunnels r = [] \<and> rsTcp r = [] \<and> rsTls r = [])"

definition tls_ok :: "hid set \<Rightarrow> Registry option \<Rightarrow> (hid, u64, Tunnel) tables \<Rightarrow> bool" where
  "tls_ok L g T \<longleftrightarrow> (case g of None \<Rightarrow> \<forall>c i. T c i = None | Some g \<Rightarrow> names_ok g T L)"

definition tcp_ok :: "hid set \<Rightarrow> PortAllocator option \<Rightarrow> u16 list \<Rightarrow> (hid, u64, tcpTunnel) tables \<Rightarrow> bool" where
  "tcp_ok L a ls T \<longleftrightarrow> (case a of None \<Rightarrow> ls = [] \<and> (\<forall>c i. T c i = None) | Some a \<Rightarrow> ports_ok a ls T L)"

definition res_inv :: "hid set \<Rightarrow> Shared \<Rightarrow> (hid \<Rightarrow> resources option) \<Rightarrow> bool" where
  "res_inv L sh rs \<longleftrightarrow>
     names_ok (shRegistry sh) (live_table rsTunnels rs) L \<and>
     tls_ok L (shTLS sh) (live_table rsTls rs) \<and>
     tcp_ok L (shAlloc sh) (shListeners sh) (live_table rsTcp rs) \<and>
     (\<forall>c r. rs c = Some r \<longrightarrow> res_ok c r)"

lemma live_table_same:
  assumes "rs c = Some r" "f r' = f r" "rsDone r' = rsDone r"
  shows "live_table f (rs(c \<mapsto> r')) = live_table f rs"
  using assms by (auto simp: live_table_def fun_eq_iff)

lemma set_subdomains: "distinct (map fst ts) \<Longrightarrow> set (subdomains ts) = tunSubdomain ` ran (map_of ts)"
  by (force simp: subdomains_def ran_def map_of_eq_Some_iff image_def)

lemma set_public_ports: "distinct (map fst ts) \<Longrightarrow> set (public_ports ts) = ttPublicPort ` ran (map_of ts)"
  by (force simp: public_ports_def ran_def map_of_eq_Some_iff image_def)

lemma length_update_fresh:
  "map_of m k = None \<Longrightarrow> length (AList.update k v m) = Suc (length m)"
  by (simp add: update_fresh_append map_of_eq_None_iff)

lemma length_delete_present:
  assumes "distinct (map fst m)" "map_of m k = Some v"
  shows "Suc (length (AList.delete k m)) = length m"
  using assms
proof (induction m)
  case (Cons kv m)
  obtain k' v' where kv: "kv = (k', v')" by fastforce
  show ?case
  proof (cases "k' = k")
    case True
    then have "k \<notin> fst ` set m" using Cons.prems(1) kv by simp
    then show ?thesis using True kv by (simp add: delete_id)
  qed (use Cons kv in simp)
qed simp

text \<open>Every case of the contract preserves the invariant.\<close>

lemma res_inv_upd:
  assumes "res_inv L sh rs" "res_ok c r'"
    and "names_ok (shRegistry sh') (live_table rsTunnels (rs(c \<mapsto> r'))) L"
    and "tls_ok L (shTLS sh') (live_table rsTls (rs(c \<mapsto> r')))"
    and "tcp_ok L (shAlloc sh') (shListeners sh') (live_table rsTcp (rs(c \<mapsto> r')))"
  shows "res_inv L sh' (rs(c \<mapsto> r'))"
  using assms by (simp add: res_inv_def)

lemma live_table_keep:
  "rs c = Some r \<Longrightarrow> \<not> rsDone r \<Longrightarrow> (live_table f rs)(c := map_of (f r)) = live_table f rs"
  by (simp add: live_table_def fun_eq_iff)

lemma res_ok_add:
  assumes "res_ok c r" "rsAuth r" "rsCount r < int MaxTunnelsPerClient"
  shows "map_of (rsTunnels r) i = None \<Longrightarrow>
      res_ok c (r\<lparr>rsTunnels := AList.update i t (rsTunnels r), rsCount := rsCount r + 1\<rparr>)"
    "map_of (rsTls r) i = None \<Longrightarrow>
      res_ok c (r\<lparr>rsTls := AList.update i t (rsTls r), rsCount := rsCount r + 1\<rparr>)"
    "map_of (rsTcp r) i = None \<Longrightarrow>
      res_ok c (r\<lparr>rsTcp := AList.update i tt (rsTcp r), rsCount := rsCount r + 1\<rparr>)"
  using assms by (simp_all add: res_ok_def distinct_update length_update_fresh)

lemma res_ok_drop:
  assumes "res_ok c r" "rsAuth r" "map_of (rsTunnels r) i = Some t"
  shows "res_ok c (r\<lparr>rsTunnels := AList.delete i (rsTunnels r), rsCount := rsCount r - 1\<rparr>)"
proof -
  have "length (rsTunnels r) = Suc (length (AList.delete i (rsTunnels r)))"
    using length_delete_present [OF _ assms(3)] assms(1) by (simp add: res_ok_def)
  then show ?thesis using assms(1,2) by (simp add: res_ok_def distinct_delete)
qed

lemmas live_upd = live_table_upd live_table_at live_table_keep update_conv' delete_conv'

lemma res_inv_http:
  assumes inv: "res_inv L sh rs" and r: "rs c = Some r" "\<not> rsDone r"
    and room: "rsAuth r" "rsCount r < int MaxTunnelsPerClient"
    and reg: "Register sub (rsSelf r) rnd (shRegistry sh) = (g, Inr t)" "map_of (rsTunnels r) (tunID t) = None"
  shows "res_inv L (sh\<lparr>shRegistry := g\<rparr>)
    (rs(c \<mapsto> r\<lparr>rsTunnels := AList.update (tunID t) t (rsTunnels r), rsCount := rsCount r + 1\<rparr>))"
proof -
  have ok: "res_ok c r" using inv r by (simp add: res_inv_def)
  then have c: "rsSelf r = c" by (simp add: res_ok_def)
  have "names_ok g ((live_table rsTunnels rs)(c := (live_table rsTunnels rs c)(tunID t \<mapsto> t))) L"
    by (rule names_ok_register [where sub = sub and rnd = rnd and g = "shRegistry sh"])
      (use inv reg r c in \<open>simp_all add: res_inv_def live_table_at\<close>)
  then show ?thesis
    by (intro res_inv_upd [OF inv res_ok_add(1) [OF ok room reg(2)]])
      (use inv r in \<open>simp_all add: res_inv_def live_upd\<close>)
qed

lemma res_inv_tls:
  assumes inv: "res_inv L sh rs" and r: "rs c = Some r" "\<not> rsDone r"
    and room: "rsAuth r" "rsCount r < int MaxTunnelsPerClient" and g0: "shTLS sh = Some g0"
    and reg: "Register sub (rsSelf r) rnd g0 = (g, Inr t)" "map_of (rsTls r) (tunID t) = None"
  shows "res_inv L (sh\<lparr>shTLS := Some g\<rparr>)
    (rs(c \<mapsto> r\<lparr>rsTls := AList.update (tunID t) t (rsTls r), rsCount := rsCount r + 1\<rparr>))"
proof -
  have ok: "res_ok c r" using inv r by (simp add: res_inv_def)
  then have c: "rsSelf r = c" by (simp add: res_ok_def)
  have "names_ok g ((live_table rsTls rs)(c := (live_table rsTls rs c)(tunID t \<mapsto> t))) L"
    by (rule names_ok_register [where sub = sub and rnd = rnd and g = g0])
      (use inv reg r c g0 in \<open>simp_all add: res_inv_def tls_ok_def live_table_at\<close>)
  then show ?thesis
    by (intro res_inv_upd [OF inv res_ok_add(2) [OF ok room reg(2)]])
      (use inv r in \<open>simp_all add: res_inv_def live_upd tls_ok_def\<close>)
qed

lemma res_inv_drop:
  assumes inv: "res_inv L sh rs" and r: "rs c = Some r" "\<not> rsDone r" "rsAuth r"
    and t: "map_of (rsTunnels r) i = Some t"
  shows "res_inv L (sh\<lparr>shRegistry := Unregister (tunSubdomain t) (shRegistry sh)\<rparr>)
    (rs(c \<mapsto> r\<lparr>rsTunnels := AList.delete i (rsTunnels r), rsCount := rsCount r - 1\<rparr>))"
proof -
  have ok: "res_ok c r" using inv r by (simp add: res_inv_def)
  have "names_ok (Unregister (tunSubdomain t) (shRegistry sh))
      ((live_table rsTunnels rs)(c := (live_table rsTunnels rs c)(i := None))) L"
    by (rule names_ok_unregister) (use inv r t in \<open>simp_all add: res_inv_def live_table_at\<close>)
  moreover note res_ok_drop [OF ok r(3) t]
  ultimately show ?thesis
    by (intro res_inv_upd [OF inv]) (use inv r in \<open>simp_all add: res_inv_def live_upd\<close>)
qed

lemma res_inv_tcp:
  assumes inv: "res_inv L sh rs" and r: "rs c = Some r" "\<not> rsDone r"
    and room: "rsAuth r" "rsCount r < int MaxTunnelsPerClient" and a: "shAlloc sh = Some a"
    and al: "Allocate a pref = (a', Inr p)" "ttPublicPort tt = p" "map_of (rsTcp r) (ttID tt) = None"
  shows "res_inv L (sh\<lparr>shAlloc := Some a', shListeners := p # shListeners sh\<rparr>)
    (rs(c \<mapsto> r\<lparr>rsTcp := AList.update (ttID tt) tt (rsTcp r), rsCount := rsCount r + 1\<rparr>))"
proof -
  have ok: "res_ok c r" using inv r by (simp add: res_inv_def)
  have "ports_ok a' (p # shListeners sh) ((live_table rsTcp rs)(c := (live_table rsTcp rs c)(ttID tt \<mapsto> tt))) L"
    by (rule ports_ok_alloc [OF _ al(1,2)]) (use inv al r a in \<open>simp_all add: res_inv_def tcp_ok_def live_table_at\<close>)
  then show ?thesis
    by (intro res_inv_upd [OF inv res_ok_add(3) [OF ok room al(3)]])
      (use inv r in \<open>simp_all add: res_inv_def live_upd tcp_ok_def\<close>)
qed

lemma res_inv_down:
  assumes inv: "res_inv L sh rs" and r: "rs c = Some r" "\<not> rsDone r"
  shows "res_inv L (release_all r sh) (rs(c \<mapsto> r\<lparr>rsDone := True\<rparr>))"
proof -
  have ok: "res_ok c r" using inv r by (simp add: res_inv_def)
  then have ss: "set (subdomains (rsTunnels r)) = tunSubdomain ` ran (live_table rsTunnels rs c)"
    "set (subdomains (rsTls r)) = tunSubdomain ` ran (live_table rsTls rs c)"
    "set (public_ports (rsTcp r)) = ttPublicPort ` ran (live_table rsTcp rs c)"
    using r by (simp_all add: live_table_at res_ok_def set_subdomains set_public_ports)
  have "names_ok (fold Unregister (subdomains (rsTunnels r)) (shRegistry sh)) ((live_table rsTunnels rs)(c := Map.empty)) L"
    by (rule names_ok_drop [where T = "live_table rsTunnels rs" and c = c, OF _ ss(1)]) (use inv in \<open>simp add: res_inv_def\<close>)
  moreover have "tls_ok L (map_option (fold Unregister (subdomains (rsTls r))) (shTLS sh)) ((live_table rsTls rs)(c := Map.empty))"
    using inv names_ok_drop [where T = "live_table rsTls rs" and c = c, OF _ ss(2)] by (auto simp: res_inv_def tls_ok_def split: option.splits)
  moreover have "tcp_ok L (map_option (fold (\<lambda>p a. Release a p) (public_ports (rsTcp r))) (shAlloc sh))
      (fold removeAll (public_ports (rsTcp r)) (shListeners sh)) ((live_table rsTcp rs)(c := Map.empty))"
  proof (cases "shAlloc sh")
    case None
    then have "shListeners sh = []" "\<forall>c i. live_table rsTcp rs c i = None"
      using inv by (simp_all add: res_inv_def tcp_ok_def)
    moreover have "fold removeAll ps [] = ([] :: u16 list)" for ps by (induction ps) simp_all
    ultimately show ?thesis using None by (simp add: tcp_ok_def)
  next
    case (Some a)
    then show ?thesis using inv ports_ok_drop [where T = "live_table rsTcp rs" and c = c, OF _ ss(3)] by (auto simp: res_inv_def tcp_ok_def)
  qed
  moreover have "res_ok c (r\<lparr>rsDone := True\<rparr>)" using ok by (simp add: res_ok_def)
  ultimately show ?thesis
    by (intro res_inv_upd [OF inv]) (simp_all add: release_all_def live_table_upd)
qed

lemma res_inv_same:
  assumes "res_inv L sh rs" "rs c = Some r" "res_ok c r'" "rsTunnels r' = rsTunnels r" "rsTls r' = rsTls r"
    "rsTcp r' = rsTcp r" "rsDone r' = rsDone r"
  shows "res_inv L sh (rs(c \<mapsto> r'))"
  using assms by (auto simp: res_inv_def live_table_same)

lemma res_inv_alloc:
  assumes inv: "res_inv L sh rs" and a: "shAlloc sh = Some a"
    and "alloc_inv a'" "held_ports a' = held_ports a" "port_range a' = port_range a"
  shows "res_inv L (sh\<lparr>shAlloc := Some a'\<rparr>) rs"
  using assms ports_ok_same [of a] by (auto simp: res_inv_def tcp_ok_def)

lemma res_step_inv:
  assumes "res_step cf (sh, r) (sh', r')" "res_inv L sh rs" "rs c = Some r" "\<not> rsDone r"
  shows "res_inv L sh' (rs(c \<mapsto> r'))"
  using assms(1)
proof cases
  case res_keep
  then show ?thesis using assms by (simp add: fun_upd_idem)
next
  case (res_auth token)
  have "res_ok c r" using assms(2,3) by (simp add: res_inv_def)
  then show ?thesis using res_auth res_inv_same [OF assms(2,3), of "r\<lparr>rsAuth := True\<rparr>"]
    by (simp add: res_ok_def)
next
  case res_down
  then show ?thesis using res_inv_down [OF assms(2,3)] by simp
next
  case (res_http sub rnd g t)
  then show ?thesis using res_inv_http [OF assms(2,3,4)] by simp
next
  case (res_drop i t)
  then show ?thesis using res_inv_drop [OF assms(2,3,4)] by simp
next
  case (res_tls sub g0 rnd g t)
  then show ?thesis using res_inv_tls [OF assms(2,3,4)] by simp
next
  case (res_tcp a pref a' p tt)
  then show ?thesis using res_inv_tcp [OF assms(2,3,4)] by simp
next
  case (res_full a pref a' err)
  have "alloc_inv a" using assms(2) res_full by (simp add: res_inv_def tcp_ok_def ports_ok_def ports_live_def)
  note al = pa.alloc_err [OF this res_full(5)] pa.alloc_inv [OF this, of pref] pa.alloc_ports [of a pref]
  show ?thesis using res_inv_alloc [OF assms(2) res_full(4), of a'] al res_full assms(3)
    by (simp add: fun_upd_idem)
next
  case (res_nolisten a pref a' p)
  have a: "alloc_inv a" using assms(2) res_nolisten by (simp add: res_inv_def tcp_ok_def ports_ok_def ports_live_def)
  have "alloc_inv (Release a' p)" "held_ports (Release a' p) = held_ports a" "port_range (Release a' p) = port_range a"
    using pa.alloc_release_held [OF a res_nolisten(5)] pa.alloc_inv [OF a, of pref] pa.alloc_ports [of a pref]
      res_nolisten(5) by (simp_all add: pa.release_inv pa.release_ports)
  then show ?thesis using res_inv_alloc [OF assms(2) res_nolisten(4)] res_nolisten assms(3)
    by (simp add: fun_upd_idem)
qed

text \<open>
  A frame on a connection that has been cleaned up. Its tables are no longer live, so only the shared state
  matters: unchanged, everything stays as it was; changed, the connection counts as late from now on.
\<close>

lemma res_ok_step:
  assumes "res_step cf (sh, r) (sh', r')" "res_ok c r"
  shows "res_ok c r'"
  using assms(1)
proof cases
  case (res_http sub rnd g t)
  then show ?thesis using res_ok_add(1) [OF assms(2)] by simp
next
  case (res_drop i t)
  then show ?thesis using res_ok_drop [OF assms(2)] by simp
next
  case (res_tls sub g0 rnd g t)
  then show ?thesis using res_ok_add(2) [OF assms(2)] by simp
next
  case (res_tcp a pref a' p tt)
  then show ?thesis using res_ok_add(3) [OF assms(2)] by simp
qed (use assms(2) in \<open>simp_all add: res_ok_def\<close>)

lemma res_step_done: "res_step cf (sh, r) (sh', r') \<Longrightarrow> rsDone r \<Longrightarrow> rsDone r'"
  by (auto elim: res_step.cases)

lemma live_table_done:
  "rs c = Some r \<Longrightarrow> rsDone r \<Longrightarrow> rsDone r' \<Longrightarrow> live_table f (rs(c \<mapsto> r')) = live_table f rs"
  by (simp add: live_table_def fun_eq_iff)

lemma ok_insert [simp]:
  "names_ok g T (insert c L) \<longleftrightarrow> names_live g T (insert c L)" "ports_ok a ls T' (insert c L) \<longleftrightarrow> ports_live a ls T'"
  by (simp_all add: names_ok_def ports_ok_def)

lemma res_inv_late:
  assumes "res_inv L sh rs"
  shows "res_inv (insert c L) sh rs"
  using assms names_live_mono [of _ _ L "insert c L"]
  by (auto simp: res_inv_def tls_ok_def tcp_ok_def names_ok_def ports_ok_def split: option.splits)

lemma res_step_late:
  assumes step: "res_step cf (sh, r) (sh', r')" and inv: "res_inv L sh rs" and r: "rs c = Some r" "rsDone r"
  shows "res_inv (if sh' = sh then L else insert c L) sh' (rs(c \<mapsto> r'))"
proof -
  have same: "live_table f (rs(c \<mapsto> r')) = live_table f rs" for f :: "resources \<Rightarrow> ('i, 'v) gomap"
    by (rule live_table_done [where r = r]) (use r res_step_done [OF step r(2)] in simp_all)
  have rok: "res_ok c r" using inv r by (simp add: res_inv_def)
  have ok: "res_ok c r'" by (rule res_ok_step [OF step rok])
  have self: "rsSelf r = c" using rok by (simp add: res_ok_def)
  show ?thesis
  proof (cases "sh' = sh")
    case True
    then show ?thesis using res_inv_upd [OF inv ok, of sh] inv by (simp add: same res_inv_def)
  next
    case False
    have inv': "res_inv (insert c L) sh rs" by (rule res_inv_late [OF inv])
    have n: "names_live (shRegistry sh) (live_table rsTunnels rs) L" using inv by (simp add: res_inv_def names_ok_def)
    from step have "res_inv (insert c L) sh' rs"
    proof cases
      case (res_http sub rnd g t)
      then show ?thesis using inv' names_live_late [OF n, of sub c rnd g t] self by (simp add: res_inv_def)
    next
      case (res_drop i t)
      then show ?thesis using inv' names_live_less [OF names_live_mono [OF n subset_insertI]] by (simp add: res_inv_def)
    next
      case (res_tls sub g0 rnd g t)
      moreover have "names_live g0 (live_table rsTls rs) L"
        using inv res_tls by (simp add: res_inv_def tls_ok_def names_ok_def)
      ultimately show ?thesis using inv' names_live_late [of g0 "live_table rsTls rs" L sub c rnd g t] self
        by (simp add: res_inv_def tls_ok_def)
    next
      case (res_tcp a pref a' p tt)
      then show ?thesis using inv' ports_live_more [of a "shListeners sh" _ pref a' p]
        by (simp add: res_inv_def tcp_ok_def)
    next
      case (res_full a pref a' err)
      have "alloc_inv a" using inv' res_full by (simp add: res_inv_def tcp_ok_def ports_live_def)
      note al = pa.alloc_err [OF this res_full(5)] pa.alloc_inv [OF this, of pref] pa.alloc_ports [of a pref]
      show ?thesis using res_inv_alloc [OF inv' res_full(4), of a'] al res_full by simp
    next
      case (res_nolisten a pref a' p)
      have a: "alloc_inv a" using inv' res_nolisten by (simp add: res_inv_def tcp_ok_def ports_live_def)
      note al = pa.alloc_release_held [OF a res_nolisten(5)] pa.alloc_inv [OF a, of pref] pa.alloc_ports [of a pref]
      show ?thesis using res_inv_alloc [OF inv' res_nolisten(4), of "Release a' p"] al res_nolisten
        by (simp add: pa.release_inv pa.release_ports)
    qed (use False r inv' in \<open>simp_all\<close>)
    then show ?thesis using False ok by (simp add: res_inv_def same)
  qed
qed

section \<open>The server process\<close>

text \<open>
  The state of \<^verbatim>\<open>cmd/server/main.go\<close>: what the connections share, the connections whose \<^verbatim>\<open>Run\<close> has not
  returned, and the number of taken places of \<^verbatim>\<open>connSem\<close>. \<open>svTimers\<close> are the connections whose authentication
  timer has found them unauthenticated and is about to close them. \<open>svLate\<close> is no state of the program but
  history: the connections whose frames have changed the shared state after their own cleanup.
\<close>

record serverCfg =
  scDomain :: string
  scToken :: string

record Server =
  svShared :: Shared
  svClients :: "hid \<rightharpoonup> ClientHandler"
  svConnSem :: nat
  svTimers :: "hid set"
  svLate :: "hid set"

definition newServer :: "string \<Rightarrow> string \<Rightarrow> flagErr + Server" where
  "newServer tcpPorts tlsPass =
     (let start = (\<lambda>alloc. \<lparr>svShared = \<lparr>shRegistry = NewRegistry,
              shTLS = (if tlsPass \<noteq> '''' then Some NewRegistry else None), shAlloc = alloc, shListeners = []\<rparr>,
            svClients = Map.empty, svConnSem = 0, svTimers = {}, svLate = {}\<rparr>)
      in if tcpPorts \<noteq> ''''
         then (case parsePortRange tcpPorts of
                 Inl e \<Rightarrow> Inl e
               | Inr (s, e) \<Rightarrow> Inr (start (Some (NewPortAllocator s e))))
         else Inr (start None))"

text \<open>
  The handler of \<^verbatim>\<open>/_tunnel\<close> up to \<^verbatim>\<open>handler.Run()\<close>; \<open>c\<close> names the new connection. \<^const>\<open>False\<close>
  is the answer 503.
\<close>

definition acceptTunnel :: "config \<Rightarrow> serverCfg \<Rightarrow> hid \<Rightarrow> Server \<Rightarrow> Server \<times> bool" where
  "acceptTunnel cf sc c s =
     (if svConnSem s < maxConns
      then (s\<lparr>svConnSem := svConnSem s + 1,
             svClients := (svClients s)(c \<mapsto>
               NewClientHandler cf c (scDomain sc) (scToken sc) (hostOnly (scDomain sc)))\<rparr>, True)
      else (s, False))"

definition on_client :: "hid \<Rightarrow> hstate \<Rightarrow> Server \<Rightarrow> Server" where
  "on_client c st s = s\<lparr>svShared := fst st, svClients := (svClients s)(c \<mapsto> snd st)\<rparr>"

text \<open>The end of \<^verbatim>\<open>Run\<close>: the deferred cleanup, then the place in \<^verbatim>\<open>connSem\<close> is given back.\<close>

definition endRun :: "hid \<Rightarrow> ClientHandler \<Rightarrow> Server \<Rightarrow> Server" where
  "endRun c h s =
     s\<lparr>svShared := fst (cleanup (svShared s, h)), svClients := (svClients s)(c := None),
       svConnSem := svConnSem s - 1\<rparr>"

text \<open>
  A frame is handled whether or not the connection has been cleaned up: closing the socket does not take back
  the frames the read loop has already been delivered.
\<close>

definition frame_on :: "hid \<Rightarrow> ClientHandler \<Rightarrow> hstate \<Rightarrow> Server \<Rightarrow> Server" where
  "frame_on c h st s = (on_client c st s)\<lparr>svLate :=
     (if hDone h \<and> fst st \<noteq> svShared s then insert c (svLate s) else svLate s)\<rparr>"

text \<open>
  One step: a connection opens, under a name no late tunnel and no timer refers to (a handler is named by its
  address, and an object that is still referred to keeps it); a frame arrives (with the conditions of the
  contract on the random identifier); a traffic operation runs (requests, relays, their timeouts), which
  changes none of the connection's resources; the authentication timer finds a connection unauthenticated,
  and later, whatever has happened in between, closes it; the read loop of a connection ends.
\<close>

inductive srv_step :: "config \<Rightarrow> serverCfg \<Rightarrow> Server \<Rightarrow> Server \<Rightarrow> bool" for cf sc where
  srv_accept: "svClients s c = None \<Longrightarrow> c \<notin> svLate s \<Longrightarrow> c \<notin> svTimers s \<Longrightarrow> acceptTunnel cf sc c s = (s', ok) \<Longrightarrow>
    srv_step cf sc s s'"
| srv_frame: "svClients s c = Some h \<Longrightarrow> fresh_id e h \<Longrightarrow> good_rand e \<Longrightarrow>
    srv_step cf sc s (frame_on c h (handleFrame cf e f (svShared s, h)) s)"
| srv_traffic: "svClients s c = Some h \<Longrightarrow> resources_of h' = resources_of h \<Longrightarrow>
    srv_step cf sc s (on_client c (svShared s, h') s)"
| srv_timer: "svClients s c = Some h \<Longrightarrow> \<not> hAuthenticated h \<Longrightarrow>
    srv_step cf sc s (s\<lparr>svTimers := insert c (svTimers s)\<rparr>)"
| srv_expire: "svClients s c = Some h \<Longrightarrow> c \<in> svTimers s \<Longrightarrow>
    srv_step cf sc s ((on_client c (cleanup (svShared s, h)) s)\<lparr>svTimers := svTimers s - {c}\<rparr>)"
| srv_end: "svClients s c = Some h \<Longrightarrow> srv_step cf sc s (endRun c h s)"

inductive srv_reach :: "config \<Rightarrow> serverCfg \<Rightarrow> Server \<Rightarrow> bool" for cf sc where
  sr_init: "newServer tcpPorts tlsPass = Inr s \<Longrightarrow> srv_reach cf sc s"
| sr_step: "srv_reach cf sc s \<Longrightarrow> srv_step cf sc s s' \<Longrightarrow> srv_reach cf sc s'"

inductive_cases srv_stepE: "srv_step cf sc s s'"

text \<open>The operations of the forwarding and relaying goroutines are traffic.\<close>

lemma resources_nextRequestID: "resources_of (snd (nextRequestID h)) = resources_of h"
  by (simp add: nextRequestID_def Let_def resources_of_def)

lemma resources_finishForward [frame_cond]: "resources_of (finishForward rid h) = resources_of h"
  by (simp add: finishForward_def frame_cond)

lemma resources_startForward:
  "resources_of (fst (startForward wok tid req sd h)) = resources_of h"
  using resources_nextRequestID [of h]
  by (auto simp: startForward_def Let_def frame_cond writeMessage_def split: prod.splits sum.splits)
    (simp_all add: resources_of_def addPending_def)

lemma resources_awaitResponse:
  "awaitResponse fired rid h = Some (h', r) \<Longrightarrow> resources_of h' = resources_of h"
  by (auto simp: awaitResponse_def frame_cond split: if_splits option.splits list.splits)

lemma resources_relayEnd [frame_cond]: "resources_of (fst (relayEnd (h, rl))) = resources_of h"
  by (simp add: relayEnd_def frame_cond)

lemma resources_sendD: "SendStreamData w rid d h = (h', ok) \<Longrightarrow> resources_of h' = resources_of h"
  using resources_send(1) [of w rid d h] by simp

lemma resources_relay:
  "resources_of (fst (relayReady wk wok pre (h, rl))) = resources_of h"
  "resources_of (fst (relayDrain pd wok (h, rl))) = resources_of h"
  "resources_of (fst (relayRead d err wok wokc (h, rl))) = resources_of h"
  by (auto simp: relayReady_def relayDrain_def relayRead_def frame_cond Let_def dest: resources_sendD
      split: wakeup.splits option.splits list.splits prod.splits if_splits)

section \<open>Reachable states\<close>

definition res_of :: "Server \<Rightarrow> hid \<Rightarrow> resources option" where
  "res_of s c = map_option resources_of (svClients s c)"

definition srv_inv :: "serverCfg \<Rightarrow> Server \<Rightarrow> bool" where
  "srv_inv sc s \<longleftrightarrow> res_inv (svLate s) (svShared s) (res_of s) \<and>
     (\<forall>c h. svClients s c = Some h \<longrightarrow> hTcpHost h = hostOnly (scDomain sc)) \<and>
     finite (dom (svClients s)) \<and> svConnSem s = card (dom (svClients s)) \<and> svConnSem s \<le> maxConns"

lemma res_of_on_client: "res_of (on_client c st s) = (res_of s)(c \<mapsto> resources_of (snd st))"
  by (simp add: res_of_def on_client_def fun_eq_iff)

lemma res_of_fields [simp]: "res_of (s\<lparr>svTimers := x\<rparr>) = res_of s" "res_of (s\<lparr>svLate := y\<rparr>) = res_of s"
  by (simp_all add: res_of_def fun_eq_iff)

lemma res_step_host: "res_step cf (sh, r) (sh', r') \<Longrightarrow> rsHost r' = rsHost r"
  by (auto elim: res_step.cases)

lemma hTcpHost_res: "rsHost (resources_of h) = hTcpHost h" "rsDone (resources_of h) = hDone h"
  by (simp_all add: resources_of_def)

lemma srv_inv_on_client:
  assumes inv: "srv_inv sc s" and c: "svClients s c = Some h"
    and "res_inv (svLate s) (fst st) ((res_of s)(c \<mapsto> resources_of (snd st)))" "hTcpHost (snd st) = hTcpHost h"
  shows "srv_inv sc (on_client c st s)"
proof -
  have "dom ((svClients s)(c \<mapsto> snd st)) = dom (svClients s)" using c by auto
  with assms show ?thesis
    by (auto simp: srv_inv_def res_of_on_client) (auto simp: on_client_def split: if_splits)
qed

lemma srv_inv_res_step:
  assumes inv: "srv_inv sc s" and c: "svClients s c = Some h" "\<not> hDone h"
    and step: "meets cf (svShared s, h) st"
  shows "srv_inv sc (on_client c st s)"
proof (rule srv_inv_on_client [OF inv c(1)])
  show "res_inv (svLate s) (fst st) ((res_of s)(c \<mapsto> resources_of (snd st)))"
    by (rule res_step_inv [OF step [unfolded fst_conv snd_conv]])
      (use inv c in \<open>simp_all add: srv_inv_def res_of_def hTcpHost_res\<close>)
  show "hTcpHost (snd st) = hTcpHost h" using res_step_host [OF step [unfolded fst_conv snd_conv]]
    by (simp add: hTcpHost_res)
qed

lemma srv_inv_frame:
  assumes inv: "srv_inv sc s" and c: "svClients s c = Some h" and step: "meets cf (svShared s, h) st"
  shows "srv_inv sc (frame_on c h st s)"
proof (cases "hDone h")
  case False
  then show ?thesis using srv_inv_res_step [OF inv c _ step] by (simp add: frame_on_def srv_inv_def) (simp add: on_client_def)
next
  case True
  have "res_inv (if fst st = svShared s then svLate s else insert c (svLate s)) (fst st)
      ((res_of s)(c \<mapsto> resources_of (snd st)))"
    by (rule res_step_late [OF step [unfolded fst_conv snd_conv]])
      (use inv c True in \<open>simp_all add: srv_inv_def res_of_def hTcpHost_res\<close>)
  moreover have "hTcpHost (snd st) = hTcpHost h" using res_step_host [OF step [unfolded fst_conv snd_conv]]
    by (simp add: hTcpHost_res)
  moreover have "dom ((svClients s)(c \<mapsto> snd st)) = dom (svClients s)" using c by auto
  moreover have "res_of (frame_on c h st s) = (res_of s)(c \<mapsto> resources_of (snd st))"
    by (simp add: frame_on_def on_client_def res_of_def fun_eq_iff)
  ultimately show ?thesis using inv c True
    by (auto simp: srv_inv_def) (auto simp: frame_on_def on_client_def split: if_splits)
qed

lemma live_table_remove:
  "rs c = Some r \<Longrightarrow> rsDone r \<Longrightarrow> live_table f (rs(c := None)) = live_table f rs"
  by (simp add: live_table_def fun_eq_iff)

lemma live_table_fresh:
  "rs c = None \<Longrightarrow> f r = [] \<Longrightarrow> live_table f (rs(c \<mapsto> r)) = live_table f rs"
  by (simp add: live_table_def fun_eq_iff)

lemma live_table_empty: "live_table f (\<lambda>c. None) = (\<lambda>c. Map.empty)"
  by (simp add: live_table_def fun_eq_iff)

lemma res_inv_remove:
  assumes "res_inv L sh rs" "rs c = Some r" "rsDone r"
  shows "res_inv L sh (rs(c := None))"
  using assms by (auto simp: res_inv_def live_table_remove)

lemma res_inv_New:
  assumes "res_inv L sh rs" "rs c = None"
  shows "res_inv L sh (rs(c \<mapsto> resources_of (NewClientHandler cf c d t h)))"
  by (rule res_inv_upd [OF assms(1)])
    (use assms in \<open>simp_all add: live_table_fresh resources_of_def NewClientHandler_def res_ok_def res_inv_def\<close>)

lemma srv_inv_cleanup:
  assumes "srv_inv sc s" "svClients s c = Some h"
  shows "srv_inv sc (on_client c (cleanup (svShared s, h)) s)"
proof (cases "hDone h")
  case True
  then show ?thesis using assms
    by (intro srv_inv_on_client [OF assms]) (simp_all add: cleanup_eq srv_inv_def fun_upd_idem res_of_def)
qed (use srv_inv_res_step [OF assms _ meets_cleanup] in simp)

lemma srv_inv_end:
  assumes inv: "srv_inv sc s" and c: "svClients s c = Some h"
  shows "srv_inv sc (endRun c h s)"
proof -
  let ?s = "on_client c (cleanup (svShared s, h)) s"
  have i: "srv_inv sc ?s" by (rule srv_inv_cleanup [OF assms])
  have r: "res_of ?s c = Some ((resources_of h)\<lparr>rsDone := True\<rparr>)"
    by (simp add: res_of_on_client resources_cleanup)
  have "res_inv (svLate ?s) (svShared ?s) ((res_of ?s)(c := None))"
    by (rule res_inv_remove [where rs = "res_of ?s" and c = c, OF _ r]) (use i in \<open>simp_all add: srv_inv_def\<close>)
  moreover have "svShared (endRun c h s) = svShared ?s" "res_of (endRun c h s) = (res_of ?s)(c := None)"
    "svLate ?s = svLate s"
    by (auto simp: endRun_def on_client_def res_of_def fun_eq_iff)
  moreover have "svConnSem (endRun c h s) = card (dom (svClients (endRun c h s)))"
    using inv c by (simp add: srv_inv_def endRun_def card_Diff_singleton domI)
  moreover have "svConnSem s \<le> maxConns" using inv by (simp add: srv_inv_def)
  then have "svConnSem (endRun c h s) \<le> maxConns" unfolding endRun_def by simp
  ultimately show ?thesis using inv by (auto simp: srv_inv_def endRun_def)
qed

lemma srv_inv_new:
  assumes "newServer tcpPorts tlsPass = Inr s"
  shows "srv_inv sc s"
proof -
  have n: "names_ok NewRegistry (\<lambda>c. Map.empty) {}"
    by (simp add: names_ok_def names_live_def names_exact_def owned_def fun_eq_iff)
  have p: "ports_ok (NewPortAllocator a b) [] (\<lambda>c. Map.empty) {}" if "parsePortRange x = Inr (a, b)" for x a b
    using parsePortRange_bounds [OF that]
    by (auto simp: ports_ok_def ports_live_def ports_exact_def alloc_inv_def NewPortAllocator_def held_ports_def
        is_used_def owned_def covered_def word_le_nat_alt)
  have "res_of s = (\<lambda>c. None)" using assms
    by (auto simp: newServer_def Let_def res_of_def split: if_splits sum.splits)
  then show ?thesis using assms p [of tcpPorts]
    by (auto simp: newServer_def Let_def srv_inv_def res_inv_def live_table_empty n tls_ok_def tcp_ok_def
        res_of_def split: if_splits sum.splits)
qed

lemma srv_inv_accept:
  assumes inv: "srv_inv sc s" and c: "svClients s c = None" and acc: "acceptTunnel cf sc c s = (s', ok)"
  shows "srv_inv sc s'"
proof (cases "svConnSem s < maxConns")
  case True
  let ?h = "NewClientHandler cf c (scDomain sc) (scToken sc) (hostOnly (scDomain sc))"
  have s': "s' = s\<lparr>svConnSem := svConnSem s + 1, svClients := (svClients s)(c \<mapsto> ?h)\<rparr>"
    using acc True by (simp add: acceptTunnel_def)
  have "res_of s' = (res_of s)(c \<mapsto> resources_of ?h)" by (simp add: s' res_of_def fun_eq_iff)
  then have "res_inv (svLate s') (svShared s') (res_of s')"
    using res_inv_New [of "svLate s" "svShared s" "res_of s" c cf] inv c by (simp add: s' srv_inv_def res_of_def)
  moreover have "hTcpHost ?h = hostOnly (scDomain sc)" by (simp add: NewClientHandler_def)
  moreover have "c \<notin> dom (svClients s)" using c by auto
  ultimately show ?thesis using inv True by (auto simp: srv_inv_def s')
qed (use assms in \<open>simp add: acceptTunnel_def\<close>)

lemma srv_step_inv:
  assumes "srv_step cf sc s s'" "srv_inv sc s" "length (hostOnly (scDomain sc)) \<le> 249"
  shows "srv_inv sc s'"
  using assms(1)
proof cases
  case (srv_accept c ok)
  then show ?thesis using srv_inv_accept [OF assms(2)] by blast
next
  case (srv_frame c h e f)
  have "short_host h" using assms(2,3) srv_frame by (simp add: srv_inv_def short_host_def)
  with srv_frame show ?thesis using srv_inv_frame [OF assms(2) _ meets_handleFrame] by simp
next
  case (srv_traffic c h h')
  have "res_of s c = Some (resources_of h)" using srv_traffic by (simp add: res_of_def)
  then have "(res_of s)(c \<mapsto> resources_of h') = res_of s" using srv_traffic by (simp add: fun_upd_idem)
  moreover have "hTcpHost h' = hTcpHost h" using srv_traffic by (simp add: resources_of_eq_iff)
  moreover have "res_inv (svLate s) (svShared s) (res_of s)" using assms(2) by (simp add: srv_inv_def)
  ultimately show ?thesis
    unfolding srv_traffic(1) by (intro srv_inv_on_client [OF assms(2) srv_traffic(2)]) simp_all
next
  case (srv_timer c h)
  then show ?thesis using assms(2) by (simp add: srv_inv_def)
next
  case (srv_expire c h)
  then show ?thesis using srv_inv_cleanup [OF assms(2), of c h] by (simp add: srv_inv_def)
next
  case (srv_end c h)
  then show ?thesis using srv_inv_end [OF assms(2)] by simp
qed

lemma srv_reach_inv:
  "srv_reach cf sc s \<Longrightarrow> length (hostOnly (scDomain sc)) \<le> 249 \<Longrightarrow> srv_inv sc s"
  by (induction rule: srv_reach.induct) (auto intro: srv_inv_new srv_step_inv)

section \<open>Properties\<close>

text \<open>The tunnels of one kind that connection \<open>c\<close> holds.\<close>

definition holds :: "(ClientHandler \<Rightarrow> (u64, 'v) gomap) \<Rightarrow> Server \<Rightarrow> hid \<Rightarrow> u64 \<Rightarrow> 'v \<Rightarrow> bool" where
  "holds f s c i v \<longleftrightarrow> (\<exists>h. svClients s c = Some h \<and> \<not> hDone h \<and> map_of (f h) i = Some v)"

lemma live_table_holds:
  "live_table rsTunnels (res_of s) c i = Some t \<longleftrightarrow> holds hTunnels s c i t"
  "live_table rsTls (res_of s) c i = Some t \<longleftrightarrow> holds hTlsTunnels s c i t"
  "live_table rsTcp (res_of s) c i = Some tt \<longleftrightarrow> holds hTcpTunnels s c i tt"
  by (auto simp: live_table_def res_of_def holds_def resources_of_def split: option.splits)

lemma names_ok_iff:
  assumes "names_ok g T {}"
  shows "Get g sub = Some t \<longleftrightarrow> T (tunHandler t) (tunID t) = Some t \<and> tunSubdomain t = sub"
proof
  assume "Get g sub = Some t"
  with assms show "T (tunHandler t) (tunID t) = Some t \<and> tunSubdomain t = sub"
    by (simp add: names_ok_def names_live_def)
qed (use assms in \<open>auto simp: names_ok_def names_exact_def\<close>)

lemma ports_ok_holds:
  assumes "ports_ok a ls (live_table rsTcp (res_of s)) L"
  shows "\<And>c i tt. holds hTcpTunnels s c i tt \<Longrightarrow> ttPublicPort tt \<in> held_ports a"
    "set ls = held_ports a" "held_ports a \<subseteq> port_range a"
    "\<And>c i tt c' i' tt'. holds hTcpTunnels s c i tt \<Longrightarrow> holds hTcpTunnels s c' i' tt' \<Longrightarrow>
       ttPublicPort tt = ttPublicPort tt' \<Longrightarrow> c = c' \<and> i = i'"
proof -
  have o: "covered ttPublicPort (held_ports a) (live_table rsTcp (res_of s))"
    using assms by (simp add: ports_ok_def ports_live_def)
  show "ttPublicPort tt \<in> held_ports a" if "holds hTcpTunnels s c i tt" for c i tt
    using covered_mem [OF o, of c i tt] that by (simp add: live_table_holds)
  show "set ls = held_ports a" "held_ports a \<subseteq> port_range a" using assms by (simp_all add: ports_ok_def ports_live_def)
  show "c = c' \<and> i = i'" if "holds hTcpTunnels s c i tt" "holds hTcpTunnels s c' i' tt'"
    "ttPublicPort tt = ttPublicPort tt'" for c i tt c' i' tt'
    using covered_unique [OF o, of c i tt c' i' tt'] that by (simp add: live_table_holds)
qed

lemma ports_ok_exact:
  assumes "ports_ok a ls (live_table rsTcp (res_of s)) {}"
  shows "held_ports a = {ttPublicPort tt | c i tt. holds hTcpTunnels s c i tt}"
  using assms by (simp add: ports_ok_def ports_exact_def owned_def live_table_holds)

text \<open>Whose connection is late: only one that had been cleaned up when its frame was handled.\<close>

lemma late_step:
  assumes "srv_step cf sc s s'"
  shows "svLate s' = svLate s \<or> (\<exists>c h. svClients s c = Some h \<and> hDone h \<and> svLate s' = insert c (svLate s))"
  using assms
proof cases
  case (srv_accept c ok)
  then show ?thesis by (auto simp: acceptTunnel_def split: if_splits)
next
  case (srv_frame c h e f)
  then show ?thesis by (auto simp: frame_on_def on_client_def)
qed (auto simp: on_client_def endRun_def)



text \<open>
  C18. Limits: in every reachable state at most \<open>maxConns\<close> connections are open and the semaphore
  counts them, every connection's tunnel counter is the number of its tunnels of all three kinds
  and at most \<open>MaxTunnelsPerClient\<close>, and a connection that has not authenticated holds nothing.
\<close>

theorem server_limits:
  assumes "srv_reach cf sc s" "length (hostOnly (scDomain sc)) \<le> 249"
  shows "card (dom (svClients s)) = svConnSem s \<and> svConnSem s \<le> maxConns \<and>
     (\<forall>c h. svClients s c = Some h \<longrightarrow>
        hTunnelCount h = int (length (hTunnels h) + length (hTcpTunnels h) + length (hTlsTunnels h)) \<and>
        hTunnelCount h \<le> int MaxTunnelsPerClient \<and>
        (\<not> hAuthenticated h \<longrightarrow> hTunnels h = [] \<and> hTcpTunnels h = [] \<and> hTlsTunnels h = []))"
proof -
  have inv: "srv_inv sc s" by (rule srv_reach_inv [OF assms])
  have ok: "res_ok c (resources_of h)" if "svClients s c = Some h" for c h
    using inv that by (simp add: srv_inv_def res_inv_def res_of_def)
  show ?thesis
  proof (intro conjI allI impI)
    fix c h assume "svClients s c = Some h"
    note ok [OF this]
    then show "hTunnelCount h = int (length (hTunnels h) + length (hTcpTunnels h) + length (hTlsTunnels h))"
      "hTunnelCount h \<le> int MaxTunnelsPerClient"
      "\<not> hAuthenticated h \<Longrightarrow> hTunnels h = []" "\<not> hAuthenticated h \<Longrightarrow> hTcpTunnels h = []"
      "\<not> hAuthenticated h \<Longrightarrow> hTlsTunnels h = []"
      by (simp_all add: res_ok_def resources_of_def)
  qed (use inv in \<open>simp_all add: srv_inv_def\<close>)
qed

lemma holds_endRun: "holds f (endRun c h s) c' i v \<longleftrightarrow> c' \<noteq> c \<and> holds f s c' i v"
  by (auto simp: holds_def endRun_def)

lemma option_filter_eq:
  assumes "\<And>t. x = Some t \<longleftrightarrow> y = Some t \<and> \<not> P t"
  shows "x = (case y of None \<Rightarrow> None | Some t \<Rightarrow> if P t then None else Some t)"
proof (cases x)
  case None
  then show ?thesis using assms by (cases y) auto
next
  case (Some t)
  then show ?thesis using assms [of t] by simp
qed

text \<open>
  Disconnecting gives back everything and nothing else: when a connection of a reachable state
  ends, every subdomain and every public port it held is free again and every other one is
  unchanged, as are all other connections.
\<close>

theorem disconnect_frees_exactly:
  assumes "srv_reach cf sc s" "length (hostOnly (scDomain sc)) \<le> 249" "svClients s c = Some h" "svLate s = {}"
  shows "(\<forall>sub. Get (shRegistry (svShared (endRun c h s))) sub =
       (case Get (shRegistry (svShared s)) sub of
          None \<Rightarrow> None | Some t \<Rightarrow> if tunHandler t = c then None else Some t)) \<and>
     (\<forall>a a'. shAlloc (svShared s) = Some a \<and> shAlloc (svShared (endRun c h s)) = Some a' \<longrightarrow>
       held_ports a' = held_ports a - {ttPublicPort tt | i tt. holds hTcpTunnels s c i tt}) \<and>
     (\<forall>c'. svClients (endRun c h s) c' = (if c' = c then None else svClients s c'))"
proof (intro conjI)
  have inv: "srv_inv sc s" and inv': "srv_inv sc (endRun c h s)"
    using srv_reach_inv [OF assms(1,2)] srv_inv_end assms(3) by simp_all
  have late: "svLate (endRun c h s) = {}" using assms(4) by (simp add: endRun_def)
  have N: "Get (shRegistry (svShared s)) sub = Some t \<longleftrightarrow>
       holds hTunnels s (tunHandler t) (tunID t) t \<and> tunSubdomain t = sub"
    "Get (shRegistry (svShared (endRun c h s))) sub = Some t \<longleftrightarrow>
       holds hTunnels (endRun c h s) (tunHandler t) (tunID t) t \<and> tunSubdomain t = sub" for sub t
    using inv inv' assms(4) late names_ok_iff by (simp_all add: srv_inv_def res_inv_def live_table_holds [symmetric])
  have "Get (shRegistry (svShared (endRun c h s))) sub = Some t \<longleftrightarrow>
      Get (shRegistry (svShared s)) sub = Some t \<and> tunHandler t \<noteq> c" for sub t
    unfolding N by (auto simp: holds_endRun)
  from option_filter_eq [OF this]
  show "\<forall>sub. Get (shRegistry (svShared (endRun c h s))) sub =
       (case Get (shRegistry (svShared s)) sub of
          None \<Rightarrow> None | Some t \<Rightarrow> if tunHandler t = c then None else Some t)" by blast
  show "\<forall>a a'. shAlloc (svShared s) = Some a \<and> shAlloc (svShared (endRun c h s)) = Some a' \<longrightarrow>
       held_ports a' = held_ports a - {ttPublicPort tt | i tt. holds hTcpTunnels s c i tt}"
  proof (intro allI impI)
    fix a a' assume "shAlloc (svShared s) = Some a \<and> shAlloc (svShared (endRun c h s)) = Some a'"
    then have "ports_ok a (shListeners (svShared s)) (live_table rsTcp (res_of s)) {}"
      "ports_ok a' (shListeners (svShared (endRun c h s))) (live_table rsTcp (res_of (endRun c h s))) {}"
      using inv inv' assms(4) late by (simp_all add: srv_inv_def res_inv_def tcp_ok_def)
    note p = ports_ok_holds [OF this(1)] ports_ok_exact [OF this(1)] and p' = ports_ok_exact [OF this(2)]
    have a': "held_ports a' = {ttPublicPort tt | c' i tt. c' \<noteq> c \<and> holds hTcpTunnels s c' i tt}"
      using p' by (simp add: holds_endRun)
    have "ttPublicPort tt \<noteq> ttPublicPort tt'" if "c' \<noteq> c" "holds hTcpTunnels s c' i tt" "holds hTcpTunnels s c i' tt'"
      for c' i tt i' tt' using p(4) [OF that(2,3)] that(1) by blast
    then show "held_ports a' = held_ports a - {ttPublicPort tt | i tt. holds hTcpTunnels s c i tt}"
      unfolding a' p(5) by (intro set_eqI iffI) (auto, metis)
  qed
qed (simp add: endRun_def)

text \<open>What a late frame registers outlives its connection: nothing gives it back.\<close>

lemma late_registration_leaks:
  assumes "svClients s c = Some h" "hDone h" "short_host h" "fresh_id e h" "good_rand e"
    and "handleFrame cf e f (svShared s, h) = (sh', h')"
  shows "svShared (endRun c h' (frame_on c h (sh', h') s)) = sh' \<and>
    svClients (endRun c h' (frame_on c h (sh', h') s)) c = None"
proof -
  have "meets cf (svShared s, h) (sh', h')" using meets_handleFrame [OF assms(4,5,3), of cf "svShared s" f] assms(6) by simp
  from res_step_done [OF this [unfolded fst_conv snd_conv]] have "hDone h'" using assms(2) by (simp add: hTcpHost_res)
  then show ?thesis by (simp add: endRun_def frame_on_def on_client_def cleanup_eq)
qed

section \<open>A sample server\<close>

text \<open>A server on ports 9000 to 9001 with one connection, number 1.\<close>

definition sample_sc :: serverCfg where
  "sample_sc = \<lparr>scDomain = ''x.io'', scToken = ''''\<rparr>"

definition sample_start :: Server where
  "sample_start = \<lparr>svShared = \<lparr>shRegistry = NewRegistry, shTLS = Some NewRegistry,
      shAlloc = Some (NewPortAllocator 9000 9001), shListeners = []\<rparr>, svClients = Map.empty, svConnSem = 0,
    svTimers = {}, svLate = {}\<rparr>"

definition sample_h :: ClientHandler where
  "sample_h = NewClientHandler sample_config 1 ''x.io'' '''' ''x.io''"

definition sample_srv :: Server where
  "sample_srv = sample_start\<lparr>svConnSem := 1, svClients := [1 \<mapsto> sample_h]\<rparr>"

lemma sample_host: "hostOnly (scDomain sample_sc) = ''x.io''"
  by (simp add: hostOnly_def SplitHostPort_def sample_sc_def)

lemma sample_reach: "srv_reach sample_config sample_sc sample_srv"
proof -
  have "parsePortRange (dec (unat (9000 :: u16)) @ ''-'' @ dec (unat (9001 :: u16))) = Inr (9000, 9001)"
    by (rule parsePortRange_dec) simp_all
  then have "newServer (dec (unat (9000 :: u16)) @ ''-'' @ dec (unat (9001 :: u16))) '':443'' = Inr sample_start"
    by (simp add: newServer_def sample_start_def)
  then have r: "srv_reach sample_config sample_sc sample_start" by (rule sr_init)
  have "acceptTunnel sample_config sample_sc 1 sample_start = (sample_srv, True)"
    by (simp add: acceptTunnel_def sample_srv_def sample_h_def sample_start_def maxConns_def sample_host)
      (simp add: sample_sc_def)
  then have "srv_step sample_config sample_sc sample_start sample_srv"
    by (intro srv_accept [of sample_start 1]) (simp_all add: sample_start_def)
  with r show ?thesis by (rule sr_step)
qed

lemma sample_late: "svLate sample_srv = {}"
  by (simp add: sample_srv_def sample_start_def)

lemma sample_short: "length (hostOnly (scDomain sample_sc)) \<le> 249"
  by (simp add: sample_host)



theorem server_limits_witness:
  "card (dom (svClients sample_srv)) = svConnSem sample_srv \<and> svConnSem sample_srv \<le> maxConns \<and>
   hTunnelCount sample_h \<le> int MaxTunnelsPerClient"
proof -
  have "svClients sample_srv 1 = Some sample_h" by (simp add: sample_srv_def)
  then show ?thesis using server_limits [OF sample_reach sample_short] by blast
qed

theorem disconnect_frees_exactly_witness:
  "Get (shRegistry (svShared (endRun 1 sample_h sample_srv))) ''app'' = None \<and>
   svClients (endRun 1 sample_h sample_srv) 1 = None"
proof -
  have c: "svClients sample_srv 1 = Some sample_h" by (simp add: sample_srv_def)
  have "Get (shRegistry (svShared sample_srv)) ''app'' = None" by (simp add: sample_srv_def sample_start_def)
  then show ?thesis using disconnect_frees_exactly [OF sample_reach sample_short c sample_late] by simp
qed

end
