(* ===== verification/Proxy.thy ===== *)
theory Proxy
  imports Protect Server
begin

text \<open>
  The public HTTP side, \<^verbatim>\<open>internal/server/proxy.go\<close>: the checks before forwarding, the request sent
  through the tunnel, what becomes of the client's response, and the start of a WebSocket relay. An
  \<^verbatim>\<open>http.ResponseWriter\<close> is the record of its header map, status and body; \<open>wPanic\<close> says that a call on it
  panicked (\<^verbatim>\<open>WriteHeader\<close> does so for a code outside 100 to 999), which \<^verbatim>\<open>net/http\<close> recovers by
  dropping the connection. Header maps are association lists, iterated in list order.
\<close>

section \<open>Response writers\<close>

record ResponseWriter =
  wHeader :: headers
  wStatus :: "nat option"
  wBody :: bytes
  wPanic :: bool

definition new_writer :: ResponseWriter where
  "new_writer = \<lparr>wHeader = [], wStatus = None, wBody = [], wPanic = False\<rparr>"

definition is_upper :: "char \<Rightarrow> bool" where
  "is_upper c \<longleftrightarrow> (of_char c :: nat) \<in> {65..90}"

definition is_lower :: "char \<Rightarrow> bool" where
  "is_lower c \<longleftrightarrow> (of_char c :: nat) \<in> {97..122}"

definition upper :: "char \<Rightarrow> char" where
  "upper c = (if is_lower c then char_of ((of_char c :: nat) - 32) else c)"

text \<open>\<^verbatim>\<open>CanonicalMIMEHeaderKey\<close> on names made of token characters.\<close>

fun canonical :: "bool \<Rightarrow> string \<Rightarrow> string" where
  "canonical up [] = []"
| "canonical up (c # cs) = (if up then upper c else lower c) # canonical (c = CHR ''-'') cs"

definition header_add :: "string \<Rightarrow> string \<Rightarrow> headers \<Rightarrow> headers" where
  "header_add key value hs =
     (let k = canonical True key in AList.update k (header_values hs k @ [value]) hs)"

definition header_set :: "string \<Rightarrow> string \<Rightarrow> headers \<Rightarrow> headers" where
  "header_set key value hs = AList.update (canonical True key) [value] hs"

definition write_header :: "nat \<Rightarrow> ResponseWriter \<Rightarrow> ResponseWriter" where
  "write_header code w =
     (if wPanic w \<or> wStatus w \<noteq> None then w
      else if code < 100 \<or> code > 999 then w\<lparr>wPanic := True\<rparr>
      else if code \<le> 199 \<and> code \<noteq> 101 then w
      else w\<lparr>wStatus := Some code\<rparr>)"

definition body_allowed :: "nat \<Rightarrow> bool" where
  "body_allowed code \<longleftrightarrow> \<not> (100 \<le> code \<and> code \<le> 199) \<and> code \<noteq> 204 \<and> code \<noteq> 304"

definition write_body :: "bytes \<Rightarrow> ResponseWriter \<Rightarrow> ResponseWriter" where
  "write_body data w =
     (if wPanic w then w
      else
        let w1 = (if wStatus w = None then w\<lparr>wStatus := Some 200\<rparr> else w)
        in if body_allowed (the (wStatus w1)) then w1\<lparr>wBody := wBody w1 @ data\<rparr> else w1)"

definition http_error :: "string \<Rightarrow> nat \<Rightarrow> ResponseWriter \<Rightarrow> ResponseWriter" where
  "http_error msg code w =
     write_body (bytes_of (msg @ [CHR 0x0A])) (write_header code
       (w\<lparr>wHeader := header_set ''X-Content-Type-Options'' ''nosniff''
            (header_set ''Content-Type'' ''text/plain; charset=utf-8'' (wHeader w))\<rparr>))"

section \<open>Response headers\<close>

definition name_char :: "char \<Rightarrow> bool" where
  "name_char c \<longleftrightarrow> is_lower c \<or> is_upper c \<or> is_digit c \<or> c = CHR ''-'' \<or> c = CHR ''_'' \<or> c = CHR ''.''"

definition validHeaderName :: "string \<Rightarrow> bool" where
  "validHeaderName s \<longleftrightarrow> (if s = '''' then False else list_all name_char s)"

definition validHeaderValue :: "string \<Rightarrow> bool" where
  "validHeaderValue s \<longleftrightarrow> list_all (\<lambda>c. c \<noteq> CHR 0x0D \<and> c \<noteq> CHR 0x0A \<and> c \<noteq> CHR 0x00) s"

fun copyValues :: "string \<Rightarrow> (string \<Rightarrow> string \<Rightarrow> 'w \<Rightarrow> 'w) \<Rightarrow> string list \<Rightarrow> 'w \<Rightarrow> 'w" where
  "copyValues key add [] w = w"
| "copyValues key add (v # vs) w =
     (if \<not> validHeaderValue v then copyValues key add vs w else copyValues key add vs (add key v w))"

fun copyValidHeaders :: "headers \<Rightarrow> (string \<Rightarrow> string \<Rightarrow> 'w \<Rightarrow> 'w) \<Rightarrow> 'w \<Rightarrow> 'w" where
  "copyValidHeaders [] add w = w"
| "copyValidHeaders ((key, vs) # hs) add w =
     (if \<not> validHeaderName key then copyValidHeaders hs add w
      else copyValidHeaders hs add (copyValues key add vs w))"

definition w_add :: "string \<Rightarrow> string \<Rightarrow> ResponseWriter \<Rightarrow> ResponseWriter" where
  "w_add key v w = w\<lparr>wHeader := header_add key v (wHeader w)\<rparr>"

definition setSecurityDefaults :: "ResponseWriter \<Rightarrow> ResponseWriter" where
  "setSecurityDefaults w =
     (let h1 = (if header_get (wHeader w) ''X-Content-Type-Options'' = ''''
                then header_set ''X-Content-Type-Options'' ''nosniff'' (wHeader w) else wHeader w);
          h2 = (if header_get h1 ''X-Frame-Options'' = ''''
                then header_set ''X-Frame-Options'' ''DENY'' h1 else h1)
      in w\<lparr>wHeader := h2\<rparr>)"

definition writeNormalResponse :: "HTTPResponse \<Rightarrow> ResponseWriter \<Rightarrow> ResponseWriter" where
  "writeNormalResponse resp w =
     write_body (respBody resp)
       (write_header (unat (respStatusCode resp))
         (setSecurityDefaults (copyValidHeaders (respHeaders resp) w_add w)))"

text \<open>The head of a hijacked connection that switches to WebSocket.\<close>

definition crlf :: string where "crlf = [CHR 0x0D, CHR 0x0A]"

definition raw_add :: "string \<Rightarrow> string \<Rightarrow> string \<Rightarrow> string" where
  "raw_add key v out = out @ key @ '': '' @ v @ crlf"

definition upgrade_head :: "HTTPResponse \<Rightarrow> string" where
  "upgrade_head resp =
     copyValidHeaders (respHeaders resp) raw_add (''HTTP/1.1 101 Switching Protocols'' @ crlf) @ crlf"

section \<open>The forwarded request\<close>

definition forwardHeaders :: "Request \<Rightarrow> headers" where
  "forwardHeaders r =
     (let h1 = AList.update ''Host'' [rqHost r] (rqHeader r);
          h2 = AList.update ''X-Forwarded-Host'' [rqHost r] h1;
          h3 = (if header_values h2 ''X-Forwarded-Proto'' = []
                then AList.update ''X-Forwarded-Proto'' [if rqTLS r then ''https'' else ''http''] h2 else h2)
      in case SplitHostPort (rqRemoteAddr r) of
           None \<Rightarrow> h3
         | Some (host, _) \<Rightarrow>
             AList.update ''X-Forwarded-For'' (header_values h3 ''X-Forwarded-For'' @ [host]) h3)"

definition requestPath :: "Request \<Rightarrow> string" where
  "requestPath r = (if rqRawQuery r \<noteq> '''' then rqPath r @ ''?'' @ rqRawQuery r else rqPath r)"

text \<open>\<open>body\<close> is what was read with the limit \<open>InlineBodyLimit + 1\<close>.\<close>

definition buildRequest :: "Request \<Rightarrow> bytes \<Rightarrow> HTTPRequest" where
  "buildRequest r body =
     (let streamedReq = length body > InlineBodyLimit
      in \<lparr>reqMethod = rqMethod r, reqPath = requestPath r, reqHeaders = forwardHeaders r,
          reqBody = (if streamedReq then [] else body), reqBodyStreamed = streamedReq\<rparr>)"

record ReverseProxy =
  rpBaseDomain :: string
  rpProtect :: Protector
  rpSha :: "bytes \<Rightarrow> bytes"
  rpQuote :: "string \<Rightarrow> string"

datatype dispatch = Answer ResponseWriter | ToTunnel Tunnel HTTPRequest

text \<open>
  \<^verbatim>\<open>ServeHTTP\<close> up to the choice between WebSocket and plain forwarding. \<open>body\<close> is \<^const>\<open>None\<close> when
  reading the request body failed.
\<close>

definition serveChecks :: "ReverseProxy \<Rightarrow> Registry \<Rightarrow> Request \<Rightarrow> bytes option \<Rightarrow> dispatch" where
  "serveChecks p reg r body =
     (let subdomain = extractSubdomain (rqHost r) (rpBaseDomain p)
      in if subdomain = '''' then Answer (http_error ''no subdomain found in Host header'' 400 new_writer)
         else case Get reg subdomain of
           None \<Rightarrow> Answer (http_error (''tunnel '' @ rpQuote p subdomain @ '' not found'') 404 new_writer)
         | Some tunnel \<Rightarrow>
             (case Allow (rpSha p) (rpProtect p) r of
                Forbidden \<Rightarrow> Answer (http_error ''forbidden'' 403 new_writer)
              | Unauthorized \<Rightarrow>
                  Answer (http_error ''unauthorized'' 401
                    (new_writer\<lparr>wHeader := header_set ''WWW-Authenticate'' ''Basic realm=\"vlgr\"'' []\<rparr>))
              | Allowed \<Rightarrow>
                  (case body of
                     None \<Rightarrow> Answer (http_error ''request body read error'' 400 new_writer)
                   | Some b \<Rightarrow> ToTunnel tunnel (buildRequest r b))))"

section \<open>What reaches the public side\<close>

text \<open>The values a response gives for a header, as far as they are well formed.\<close>

definition collected :: "headers \<Rightarrow> string \<Rightarrow> string list" where
  "collected hs k =
     concat (map (\<lambda>(key, vs). if validHeaderName key \<and> canonical True key = k then filter validHeaderValue vs else []) hs)"

lemma header_values_update [simp]:
  "header_values (AList.update k vs hs) k' = (if k' = k then vs else header_values hs k')"
  by (simp add: header_values_def update_conv')

lemma header_values_add:
  "header_values (header_add key v hs) k = header_values hs k @ (if canonical True key = k then [v] else [])"
  by (simp add: header_add_def Let_def)

lemma copyValues_filter:
  "copyValues key add vs w = fold (add key) (filter validHeaderValue vs) w"
  by (induction vs arbitrary: w) simp_all

lemma w_add_values:
  "header_values (wHeader (fold (w_add key) vs w)) k =
     header_values (wHeader w) k @ (if canonical True key = k then vs else [])"
  by (induction vs arbitrary: w) (simp_all add: w_add_def header_values_add)

lemma w_add_fields:
  "wStatus (copyValidHeaders hs w_add w) = wStatus w \<and> wBody (copyValidHeaders hs w_add w) = wBody w \<and>
   wPanic (copyValidHeaders hs w_add w) = wPanic w"
proof -
  have "wStatus (fold (w_add key) vs w) = wStatus w \<and> wBody (fold (w_add key) vs w) = wBody w \<and>
    wPanic (fold (w_add key) vs w) = wPanic w" for key vs w
    by (induction vs arbitrary: w) (simp_all add: w_add_def)
  then show ?thesis
    by (induction hs "w_add" w rule: copyValidHeaders.induct) (simp_all add: copyValues_filter)
qed

lemma copyValidHeaders_values:
  "header_values (wHeader (copyValidHeaders hs w_add w)) k = header_values (wHeader w) k @ collected hs k"
  by (induction hs "w_add" w rule: copyValidHeaders.induct)
    (auto simp: collected_def copyValues_filter w_add_values)

lemma setSecurityDefaults_values:
  "header_values (wHeader (setSecurityDefaults w)) k =
     (if k = ''X-Content-Type-Options'' \<and> header_get (wHeader w) k = '''' then [''nosniff'']
      else if k = ''X-Frame-Options'' \<and> header_get (wHeader w) k = '''' then [''DENY'']
      else header_values (wHeader w) k)"
proof -
  have c: "canonical True ''X-Content-Type-Options'' = ''X-Content-Type-Options''"
    "canonical True ''X-Frame-Options'' = ''X-Frame-Options''"
    by (simp_all add: upper_def lower_def is_lower_def char_of_def bit_0)
  show ?thesis
    unfolding setSecurityDefaults_def header_set_def c Let_def header_get_def
    by (cases "k = ''X-Content-Type-Options''"; cases "k = ''X-Frame-Options''") simp_all
qed

lemma setSecurityDefaults_fields [simp]:
  "wStatus (setSecurityDefaults w) = wStatus w" "wBody (setSecurityDefaults w) = wBody w"
  "wPanic (setSecurityDefaults w) = wPanic w"
  by (simp_all add: setSecurityDefaults_def Let_def)

lemma write_fields [simp]:
  "wHeader (write_header c w) = wHeader w" "wHeader (write_body d w) = wHeader w"
  by (simp_all add: write_header_def write_body_def Let_def)

text \<open>
  C33. The response a visitor sees is the client's, and only well-formed: for a final status, status
  and body arrive unchanged (the body where the status allows one), every header carries exactly the
  values the client gave for it under any spelling that are free of CR, LF and NUL, in order, headers
  with malformed names are dropped, and the two hardening headers are added when, and only when, the
  application gave no value of its own.
\<close>

theorem response_passed_on_exactly:
  assumes "200 \<le> respStatusCode resp" "respStatusCode resp \<le> 999"
  shows "wStatus (writeNormalResponse resp new_writer) = Some (unat (respStatusCode resp)) \<and>
    \<not> wPanic (writeNormalResponse resp new_writer) \<and>
    wBody (writeNormalResponse resp new_writer) =
      (if respStatusCode resp \<in> {204, 304} then [] else respBody resp) \<and>
    (\<forall>k. header_values (wHeader (writeNormalResponse resp new_writer)) k =
      (let app = collected (respHeaders resp) k in
       if k = ''X-Content-Type-Options'' \<and> (app = [] \<or> hd app = '''') then [''nosniff'']
       else if k = ''X-Frame-Options'' \<and> (app = [] \<or> hd app = '''') then [''DENY''] else app))"
proof -
  let ?c = "unat (respStatusCode resp)" and ?w1 = "setSecurityDefaults (copyValidHeaders (respHeaders resp) w_add new_writer)"
  have c: "200 \<le> ?c" "?c \<le> 999" using assms by (simp_all add: word_le_nat_alt)
  have c2: "?c = 204 \<longleftrightarrow> respStatusCode resp = 204" "?c = 304 \<longleftrightarrow> respStatusCode resp = 304"
    by (simp_all add: word_unat_eq_iff)
  have w1: "wStatus ?w1 = None" "wBody ?w1 = []" "\<not> wPanic ?w1"
    using w_add_fields [of "respHeaders resp" new_writer] by (simp_all add: new_writer_def)
  have "write_header ?c ?w1 = ?w1\<lparr>wStatus := Some ?c\<rparr>" using c w1 by (simp add: write_header_def)
  then have w: "writeNormalResponse resp new_writer =
      (let w2 = ?w1\<lparr>wStatus := Some ?c\<rparr> in if body_allowed ?c then w2\<lparr>wBody := respBody resp\<rparr> else w2)"
    using w1 by (simp add: writeNormalResponse_def write_body_def Let_def)
  have v: "header_values (wHeader (copyValidHeaders (respHeaders resp) w_add new_writer)) k =
      collected (respHeaders resp) k" for k
    unfolding copyValidHeaders_values by (simp add: new_writer_def header_values_def)
  have g: "header_get (wHeader (copyValidHeaders (respHeaders resp) w_add new_writer)) k = '''' \<longleftrightarrow>
      collected (respHeaders resp) k = [] \<or> hd (collected (respHeaders resp) k) = ''''" for k
    unfolding header_get_def v by (cases "collected (respHeaders resp) k") simp_all
  have "header_values (wHeader ?w1) k =
      (let app = collected (respHeaders resp) k in
       if k = ''X-Content-Type-Options'' \<and> (app = [] \<or> hd app = '''') then [''nosniff'']
       else if k = ''X-Frame-Options'' \<and> (app = [] \<or> hd app = '''') then [''DENY''] else app)" for k
    unfolding setSecurityDefaults_values v g Let_def by (rule refl)
  moreover have "wHeader (writeNormalResponse resp new_writer) = wHeader ?w1" by (simp add: w Let_def)
  ultimately show ?thesis using c c2 w1 by (auto simp: w Let_def body_allowed_def)
qed

theorem response_passed_on_exactly_witness:
  "wStatus (writeNormalResponse \<lparr>respStatusCode = 200, respHeaders = [(''a'', [''1''])], respBody = [7],
       respBodyStreamed = False\<rparr> new_writer) = Some 200 \<and>
   wBody (writeNormalResponse \<lparr>respStatusCode = 200, respHeaders = [(''a'', [''1''])], respBody = [7],
       respBodyStreamed = False\<rparr> new_writer) = [7]"
  using response_passed_on_exactly [of "\<lparr>respStatusCode = 200, respHeaders = [(''a'', [''1''])], respBody = [7],
       respBodyStreamed = False\<rparr>"] by simp

text \<open>The header lines of a response, as far as they are well formed.\<close>

definition head_lines :: "headers \<Rightarrow> string list" where
  "head_lines hs = concat (map (\<lambda>(key, vs).
     if validHeaderName key then map (\<lambda>v. key @ '': '' @ v) (filter validHeaderValue vs) else []) hs)"

lemma raw_add_fold:
  "fold (raw_add key) vs out = out @ concat (map (\<lambda>v. key @ '': '' @ v @ crlf) vs)"
  by (induction vs arbitrary: out) (simp_all add: raw_add_def)

lemma copyValidHeaders_raw:
  "copyValidHeaders hs raw_add out = out @ concat (map (\<lambda>l. l @ crlf) (head_lines hs))"
  by (induction hs raw_add out rule: copyValidHeaders.induct)
    (simp_all add: head_lines_def copyValues_filter raw_add_fold o_def)

lemma head_lines_clean:
  assumes "l \<in> set (head_lines hs)"
  shows "CHR 0x0A \<notin> set l \<and> CHR 0x0D \<notin> set l"
proof -
  have n: "CHR 0x0A \<notin> set k \<and> CHR 0x0D \<notin> set k" if "validHeaderName k" for k
    using that by (auto simp: validHeaderName_def list_all_iff name_char_def is_lower_def is_upper_def is_digit_def
        split: if_splits)
  have "CHR 0x0A \<notin> set v \<and> CHR 0x0D \<notin> set v" if "validHeaderValue v" for v
    using that by (auto simp: validHeaderValue_def list_all_iff)
  with n assms show ?thesis by (fastforce simp: head_lines_def split: if_splits)
qed

lemma split_on_lines:
  "\<forall>l \<in> set ls. c \<notin> set l \<and> c \<notin> set e \<Longrightarrow>
   split_on c (concat (map (\<lambda>l. l @ e @ [c]) ls) @ t) = map (\<lambda>l. l @ e) ls @ split_on c t"
proof (induction ls)
  case (Cons l ls)
  then show ?case using split_on_append [of c "l @ e" "concat (map (\<lambda>l. l @ e @ [c]) ls) @ t"] by simp
qed simp

text \<open>
  C21. No response splitting on upgraded connections, where the head is written byte by byte: whatever
  headers the client sends, the lines a reader finds in the head are the fixed status line, one line
  "name: value" for every well-formed header value in order, and the closing empty line, and none of
  the header lines contains a CR or LF of its own.
\<close>

theorem upgrade_head_no_splitting:
  "split_on (CHR 0x0A) (upgrade_head resp) =
     map (\<lambda>l. l @ [CHR 0x0D]) (''HTTP/1.1 101 Switching Protocols'' # head_lines (respHeaders resp) @ [[]]) @ [[]] \<and>
   list_all (\<lambda>l. CHR 0x0A \<notin> set l \<and> CHR 0x0D \<notin> set l) (head_lines (respHeaders resp))"
proof -
  let ?s = "''HTTP/1.1 101 Switching Protocols''" and ?ls = "head_lines (respHeaders resp)"
  have "upgrade_head resp = concat (map (\<lambda>l. l @ [CHR 0x0D] @ [CHR 0x0A]) (?s # ?ls @ [[]])) @ []"
    by (simp add: upgrade_head_def copyValidHeaders_raw crlf_def)
  moreover have "\<forall>l \<in> set (?s # ?ls @ [[]]). CHR 0x0A \<notin> set l \<and> CHR 0x0A \<notin> set [CHR 0x0D]"
    using head_lines_clean by auto
  ultimately have "split_on (CHR 0x0A) (upgrade_head resp) = map (\<lambda>l. l @ [CHR 0x0D]) (?s # ?ls @ [[]]) @ split_on (CHR 0x0A) []"
    by (simp only: split_on_lines)
  then show ?thesis using head_lines_clean unfolding list_all_iff by simp
qed

section \<open>What reaches the tunnel\<close>

lemma proxy_header_names:
  "''X-Forwarded-Host'' \<noteq> ''Host''" "''X-Forwarded-Proto'' \<noteq> ''Host''" "''X-Forwarded-For'' \<noteq> ''Host''"
  "''X-Forwarded-Proto'' \<noteq> ''X-Forwarded-Host''" "''X-Forwarded-For'' \<noteq> ''X-Forwarded-Host''"
  "''X-Forwarded-For'' \<noteq> ''X-Forwarded-Proto''"
  by simp_all


definition sample_visit :: Request where
  "sample_visit = \<lparr>rqMethod = ''GET'', rqHost = ''a.x.io'', rqRemoteAddr = ''9.9.9.9:5'', rqPath = ''/p'',
     rqRawQuery = ''q=1'', rqTLS = False, rqHeader = [], rqBasicAuth = None\<rparr>"

lemma sample_visit_peer: "SplitHostPort (rqRemoteAddr sample_visit) = Some (''9.9.9.9'', ''5'')"
  by (simp add: sample_visit_def SplitHostPort_def Let_def before_def hasPrefix_def)



definition sample_proxy :: ReverseProxy where
  "sample_proxy = \<lparr>rpBaseDomain = ''x.io'', rpProtect = \<lparr>ptUser = '''', ptPassHash = [], ptAllow = [], ptHops = 0\<rparr>,
     rpSha = (\<lambda>b. b), rpQuote = (\<lambda>s. s)\<rparr>"


end
