(* ===== verification/Dashboard.thy ===== *)
theory Dashboard
  imports Client Proxy
begin

text \<open>
  Requests to the local service and the inspector that records them: \<^verbatim>\<open>copyHeaders\<close> of
  \<^verbatim>\<open>internal/client/tunnel.go\<close> and \<^verbatim>\<open>internal/client/dashboard.go\<close>. Times are numbers and their rendering is
  an argument, as are \<^verbatim>\<open>http.StatusText\<close> and the host \<^verbatim>\<open>url.Parse\<close> finds in an origin; what a JSON encoder
  is handed is the value itself.
\<close>

section \<open>Requests to the local service\<close>

definition token_char :: "char \<Rightarrow> bool" where
  "token_char c \<longleftrightarrow> is_lower c \<or> is_upper c \<or> is_digit c \<or> c \<in> set ''!#$%&*+-.^_|~'' \<or> c = CHR 0x27 \<or> c = CHR 0x60"

text \<open>\<^verbatim>\<open>Header.Add\<close> canonicalises names made of token characters and keeps any other as it is.\<close>

definition canonicalKey :: "string \<Rightarrow> string" where
  "canonicalKey k = (if list_all token_char k then canonical True k else k)"

definition addHeader :: "string \<Rightarrow> string \<Rightarrow> headers \<Rightarrow> headers" where
  "addHeader key value hs = (let k = canonicalKey key in AList.update k (header_values hs k @ [value]) hs)"

fun copyHeaders :: "headers \<Rightarrow> string \<times> headers \<Rightarrow> string \<times> headers" where
  "copyHeaders [] dst = dst"
| "copyHeaders ((k, vs) # src) (host, hs) =
     (if k = ''Content-Length'' \<or> k = ''Transfer-Encoding'' then copyHeaders src (host, hs)
      else if k = ''Host'' then copyHeaders src (if length vs > 0 then vs ! 0 else host, hs)
      else copyHeaders src (host, fold (addHeader k) vs hs))"

text \<open>A request on its way to \<^verbatim>\<open>localhost\<close>; \<open>lqStream\<close> is the upload stream it reads its body from, if any.\<close>

record localReq =
  lqMethod :: string
  lqPort :: u16
  lqPath :: string
  lqHost :: string
  lqHeader :: headers
  lqBody :: bytes
  lqStream :: "addr option"
  lqLength :: int

definition localhost :: "u16 \<Rightarrow> string" where
  "localhost port = ''localhost:'' @ dec (unat port)"

definition localRequest :: "string \<Rightarrow> u16 \<Rightarrow> string \<Rightarrow> headers \<Rightarrow> bytes \<Rightarrow> localReq" where
  "localRequest method port path hs body =
     (let (host, hdr) = copyHeaders hs (localhost port, [])
      in \<lparr>lqMethod = method, lqPort = port, lqPath = path, lqHost = host, lqHeader = hdr, lqBody = body,
          lqStream = None, lqLength = int (length body)\<rparr>)"

fun firstHeader :: "headers \<Rightarrow> string \<Rightarrow> string" where
  "firstHeader [] key = ''''"
| "firstHeader ((k, vs) # hs) key = (if equalFold k key \<and> length vs > 0 then vs ! 0 else firstHeader hs key)"

definition contentLength :: "headers \<Rightarrow> int" where
  "contentLength hs =
     (let v = firstHeader hs ''Content-Length''
      in if v \<noteq> '''' then (case atoi v of Some n \<Rightarrow> n | None \<Rightarrow> - 1) else - 1)"

section \<open>The inspector\<close>

definition dashBodyCap :: nat where "dashBodyCap = 128 * 1024"
definition defaultInspectLimit :: int where "defaultInspectLimit = 1000"
definition maxInspectLimit :: int where "maxInspectLimit = 100000"

record ReqEntry =
  reID :: nat
  reTime :: nat
  reMethod :: string
  rePath :: string
  reHost :: string
  reLocalPort :: u16
  reStatus :: nat
  reDuration :: nat
  reReqHeaders :: headers
  reRespHeaders :: headers
  reReqBody :: bytes
  reRespBody :: bytes
  reReqStreamed :: bool
  reReplayed :: bool

text \<open>A subscriber is the buffer of its channel, of capacity 16.\<close>

record Dashboard =
  dMaxEntries :: nat
  dEntries :: "ReqEntry list"
  dNextID :: nat
  dSubs :: "(addr, ReqEntry list) gomap"

definition NewDashboard :: "int \<Rightarrow> Dashboard" where
  "NewDashboard limit0 =
     (let limit = (if limit0 \<le> 0 then defaultInspectLimit else limit0)
      in \<lparr>dMaxEntries = nat (min limit maxInspectLimit), dEntries = [], dNextID = 0, dSubs = []\<rparr>)"

definition offer :: "ReqEntry \<Rightarrow> ReqEntry list \<Rightarrow> ReqEntry list" where
  "offer e q = (if length q < 16 then q @ [e] else q)"

definition recordEntry :: "ReqEntry \<Rightarrow> Dashboard \<Rightarrow> Dashboard" where
  "recordEntry e0 d =
     (let n = dNextID d + 1;
          e = e0\<lparr>reID := n\<rparr>;
          es = dEntries d @ [e];
          es' = (if length es > dMaxEntries d then drop (length es - dMaxEntries d) es else es)
      in d\<lparr>dNextID := n, dEntries := es', dSubs := map (\<lambda>(a, q). (a, offer e q)) (dSubs d)\<rparr>)"

definition capBody :: "bytes \<Rightarrow> bytes" where
  "capBody b = (if length b > dashBodyCap then take dashBodyCap b else b)"

text \<open>The entry of an exchange, and its recording.\<close>

definition httpEntry ::
  "string \<Rightarrow> string \<Rightarrow> u16 \<Rightarrow> headers \<Rightarrow> bytes \<Rightarrow> bool \<Rightarrow> nat \<Rightarrow> headers \<Rightarrow> bytes \<Rightarrow> nat \<Rightarrow> nat \<Rightarrow> ReqEntry" where
  "httpEntry method path localPort rqHdr rqBody streamed status rsHdr rsBody started now =
     \<lparr>reID = 0, reTime = started, reMethod = method, rePath = path, reHost = firstHeader rqHdr ''Host'',
      reLocalPort = localPort, reStatus = status, reDuration = now - started, reReqHeaders = rqHdr,
      reRespHeaders = rsHdr, reReqBody = capBody rqBody, reRespBody = capBody rsBody,
      reReqStreamed = streamed, reReplayed = False\<rparr>"

definition recordHTTP ::
  "string \<Rightarrow> string \<Rightarrow> u16 \<Rightarrow> headers \<Rightarrow> bytes \<Rightarrow> bool \<Rightarrow> nat \<Rightarrow> headers \<Rightarrow> bytes \<Rightarrow> nat \<Rightarrow> nat \<Rightarrow> Dashboard \<Rightarrow> Dashboard" where
  "recordHTTP method path localPort rqHdr rqBody streamed status rsHdr rsBody started now d =
     recordEntry (httpEntry method path localPort rqHdr rqBody streamed status rsHdr rsBody started now) d"

definition findEntry :: "Dashboard \<Rightarrow> int \<Rightarrow> ReqEntry option" where
  "findEntry d i = find (\<lambda>e. int (reID e) = i) (dEntries d)"

subsection \<open>Who may look\<close>

definition originHostMatches :: "(string \<Rightarrow> string option) \<Rightarrow> string \<Rightarrow> string \<Rightarrow> bool" where
  "originHostMatches urlHost origin host = (case urlHost origin of None \<Rightarrow> False | Some h \<Rightarrow> h = host)"

text \<open>Whether \<^verbatim>\<open>local\<close> lets a request through; otherwise it is answered with 403.\<close>

definition localOnly :: "(string \<Rightarrow> string option) \<Rightarrow> Request \<Rightarrow> bool" where
  "localOnly urlHost r \<longleftrightarrow>
     (if \<not> peerIsLoopback (rqRemoteAddr r) \<or> \<not> hostIsLoopback (rqHost r) then False
      else if rqMethod r \<noteq> ''GET'' \<and> rqMethod r \<noteq> ''HEAD''
      then (let origin = header_get (rqHeader r) ''Origin''
            in \<not> (origin \<noteq> '''' \<and> \<not> originHostMatches urlHost origin (rqHost r)))
      else True)"

subsection \<open>Views\<close>

record jsonEntry =
  jID :: nat
  jTime :: string
  jMethod :: string
  jPath :: string
  jHost :: string
  jLocalPort :: u16
  jStatus :: nat
  jDurationMs :: nat
  jReqHeaders :: headers
  jRespHeaders :: headers
  jReqBody :: string
  jRespBody :: string
  jReqStreamed :: bool
  jReplayed :: bool

text \<open>Durations are in nanoseconds.\<close>

definition toJSON :: "(nat \<Rightarrow> string) \<Rightarrow> bool \<Rightarrow> ReqEntry \<Rightarrow> jsonEntry" where
  "toJSON clock full e =
     (let j = \<lparr>jID = reID e, jTime = clock (reTime e), jMethod = reMethod e, jPath = rePath e, jHost = reHost e,
               jLocalPort = reLocalPort e, jStatus = reStatus e, jDurationMs = reDuration e div 1000000,
               jReqHeaders = [], jRespHeaders = [], jReqBody = '''', jRespBody = '''',
               jReqStreamed = reReqStreamed e, jReplayed = reReplayed e\<rparr>
      in if full
         then j\<lparr>jReqHeaders := reReqHeaders e, jRespHeaders := reRespHeaders e,
                jReqBody := string_of (reReqBody e), jRespBody := string_of (reRespBody e)\<rparr>
         else j)"

definition handleList :: "(nat \<Rightarrow> string) \<Rightarrow> Dashboard \<Rightarrow> jsonEntry list" where
  "handleList clock d = map (toJSON clock False) (rev (dEntries d))"

text \<open>The number in a path: \<^verbatim>\<open>Atoi\<close> with its error ignored.\<close>

definition path_id :: "string \<Rightarrow> Request \<Rightarrow> int" where
  "path_id pre r = atoi_val (trimPrefix (rqPath r) pre)"

definition handleDetail :: "(nat \<Rightarrow> string) \<Rightarrow> Dashboard \<Rightarrow> Request \<Rightarrow> jsonEntry option" where
  "handleDetail clock d r = map_option (toJSON clock True) (findEntry d (path_id ''/api/request/'' r))"

subsection \<open>Replay\<close>

text \<open>\<open>ReplaySent\<close> carries the entry the handler holds on to while the local service answers.\<close>

datatype replayOut = ReplayNotFound | ReplayStreamed | ReplayBadRequest string | ReplaySent ReqEntry localReq

definition handleReplay :: "string option \<Rightarrow> Dashboard \<Rightarrow> Request \<Rightarrow> replayOut" where
  "handleReplay newReqErr d r =
     (case findEntry d (path_id ''/api/replay/'' r) of
        None \<Rightarrow> ReplayNotFound
      | Some e \<Rightarrow>
          if reReqStreamed e then ReplayStreamed
          else case newReqErr of
            Some msg \<Rightarrow> ReplayBadRequest msg
          | None \<Rightarrow> ReplaySent e (localRequest (reMethod e) (reLocalPort e) (rePath e) (reReqHeaders e) (reReqBody e)))"

text \<open>
  The rest of the handler: the local service failed, 502, or answered, and then the exchange is recorded
  in turn and the reply is 204.
\<close>

definition replayAnswered ::
  "ReqEntry \<Rightarrow> (nat \<times> headers \<times> bytes) option \<Rightarrow> nat \<Rightarrow> nat \<Rightarrow> Dashboard \<Rightarrow> Dashboard \<times> nat" where
  "replayAnswered e answer started now d = (case answer of
       None \<Rightarrow> (d, 502)
     | Some (status, rsHdr, body) \<Rightarrow>
         (recordEntry (e\<lparr>reID := 0, reTime := started, reStatus := status, reDuration := now - started,
            reRespHeaders := rsHdr, reRespBody := take dashBodyCap body, reReqStreamed := False,
            reReplayed := True\<rparr>) d, 204))"

subsection \<open>Exports\<close>

definition entryURL :: "ReqEntry \<Rightarrow> string" where
  "entryURL e = (let host = (if reHost e = '''' then localhost (reLocalPort e) else reHost e) in ''http://'' @ host @ rePath e)"

definition harHeaders :: "headers \<Rightarrow> (string \<times> string) list" where
  "harHeaders h = concat (map (\<lambda>(k, vs). map (\<lambda>v. (k, v)) vs) h)"

record harEntry =
  heStarted :: string
  heTime :: nat
  heMethod :: string
  heURL :: string
  heReqHeaders :: "(string \<times> string) list"
  hePostData :: "(string \<times> string) option"
  heReqBodySize :: nat
  heStatus :: nat
  heStatusText :: string
  heRespHeaders :: "(string \<times> string) list"
  heContentType :: string
  heContentText :: string
  heRedirectURL :: string
  heRespBodySize :: nat

definition handleExportHAR :: "(nat \<Rightarrow> string) \<Rightarrow> (nat \<Rightarrow> string) \<Rightarrow> Dashboard \<Rightarrow> harEntry list" where
  "handleExportHAR clock statusText d = map (\<lambda>e.
     \<lparr>heStarted = clock (reTime e), heTime = reDuration e div 1000000, heMethod = reMethod e, heURL = entryURL e,
      heReqHeaders = harHeaders (reReqHeaders e),
      hePostData = (if length (reReqBody e) > 0
                    then Some (firstHeader (reReqHeaders e) ''Content-Type'', string_of (reReqBody e)) else None),
      heReqBodySize = length (reReqBody e), heStatus = reStatus e, heStatusText = statusText (reStatus e),
      heRespHeaders = harHeaders (reRespHeaders e), heContentType = firstHeader (reRespHeaders e) ''Content-Type'',
      heContentText = string_of (reRespBody e), heRedirectURL = firstHeader (reRespHeaders e) ''Location'',
      heRespBodySize = length (reRespBody e)\<rparr>) (dEntries d)"

fun str_le :: "string \<Rightarrow> string \<Rightarrow> bool" where
  "str_le [] t = True"
| "str_le (a # s) [] = False"
| "str_le (a # s) (b # t) = ((of_char a :: nat) < of_char b \<or> a = b \<and> str_le s t)"

fun insert_key :: "string \<Rightarrow> string list \<Rightarrow> string list" where
  "insert_key k [] = [k]"
| "insert_key k (x # xs) = (if str_le k x then k # x # xs else x # insert_key k xs)"

definition writeDumpHeaders :: "string \<Rightarrow> headers \<Rightarrow> string" where
  "writeDumpHeaders pre h =
     concat (map (\<lambda>k. concat (map (\<lambda>v. pre @ k @ '': '' @ v @ nl) (header_values h k)))
       (foldr insert_key (map fst h) []))"

definition dumpEntry :: "(nat \<Rightarrow> string) \<Rightarrow> (nat \<Rightarrow> string) \<Rightarrow> ReqEntry \<Rightarrow> string" where
  "dumpEntry clock statusText e =
     replicate 80 CHR ''='' @ nl @
     ''#'' @ dec (reID e) @ ''  '' @ clock (reTime e) @ ''  '' @ reMethod e @ '' '' @ entryURL e @ ''  ->  '' @
     dec (reStatus e) @ '' '' @ statusText (reStatus e) @ ''  ('' @ dec (reDuration e div 1000000) @ '' ms)'' @
     (if reReplayed e then ''  [replay]'' else '''') @ nl @
     replicate 80 CHR ''-'' @ nl @
     ''> '' @ reMethod e @ '' '' @ rePath e @ nl @ writeDumpHeaders ''> '' (reReqHeaders e) @
     (if length (reReqBody e) > 0 then ''>'' @ nl @ string_of (reReqBody e) @ nl else '''') @ nl @
     ''< HTTP '' @ dec (reStatus e) @ '' '' @ statusText (reStatus e) @ nl @ writeDumpHeaders ''< '' (reRespHeaders e) @
     (if length (reRespBody e) > 0 then ''<'' @ nl @ string_of (reRespBody e) @ nl else '''') @ nl"

definition handleExportText :: "(nat \<Rightarrow> string) \<Rightarrow> (nat \<Rightarrow> string) \<Rightarrow> string \<Rightarrow> Dashboard \<Rightarrow> string" where
  "handleExportText clock statusText now d =
     ''vlgr inspector dump '' @ string_of [0xE2, 0x80, 0x94] @ '' '' @ dec (length (dEntries d)) @ '' request(s) '' @
     string_of [0xE2, 0x80, 0x94] @ '' '' @ now @ nl @ concat (map (dumpEntry clock statusText) (dEntries d))"

section \<open>The ring buffer\<close>

text \<open>All exchanges ever recorded, numbered from 1.\<close>

definition numbered :: "ReqEntry list \<Rightarrow> ReqEntry list" where
  "numbered es = map (\<lambda>i. (es ! i)\<lparr>reID := Suc i\<rparr>) [0..<length es]"

lemma numbered_snoc: "numbered (es @ [e]) = numbered es @ [e\<lparr>reID := Suc (length es)\<rparr>]"
  by (simp add: numbered_def nth_append)

lemma length_numbered [simp]: "length (numbered es) = length es"
  by (simp add: numbered_def)

lemma nth_numbered: "i < length es \<Longrightarrow> numbered es ! i = (es ! i)\<lparr>reID := Suc i\<rparr>"
  by (simp add: numbered_def)

lemma recordEntry_fields:
  "dMaxEntries (recordEntry e d) = dMaxEntries d" "dNextID (recordEntry e d) = dNextID d + 1"
  "dEntries (recordEntry e d) = drop (Suc (length (dEntries d)) - dMaxEntries d) (dEntries d @ [e\<lparr>reID := Suc (dNextID d)\<rparr>])"
  by (simp_all add: recordEntry_def Let_def)

lemma recorded_entries:
  assumes "dEntries d = []" "dNextID d = 0" "0 < dMaxEntries d"
  shows "dEntries (fold recordEntry es d) = drop (length es - dMaxEntries d) (numbered es) \<and>
    dNextID (fold recordEntry es d) = length es \<and> dMaxEntries (fold recordEntry es d) = dMaxEntries d"
proof (induction es rule: rev_induct)
  case Nil
  then show ?case using assms by (simp add: numbered_def)
next
  case (snoc e es)
  let ?d = "fold recordEntry es d" and ?m = "dMaxEntries d" and ?n = "length es"
  let ?e = "e\<lparr>reID := Suc ?n\<rparr>"
  have "dEntries (recordEntry e ?d) = drop (Suc ?n - ?m) (numbered es @ [?e])"
  proof (cases "?n < ?m")
    case True
    then show ?thesis using snoc by (simp add: recordEntry_fields)
  next
    case False
    then have "dEntries (recordEntry e ?d) = drop 1 (drop (?n - ?m) (numbered es) @ [?e])"
      using snoc assms(3) by (simp add: recordEntry_fields)
    also have "\<dots> = drop (Suc ?n - ?m) (numbered es @ [?e])"
      using False assms(3) by (simp add: Suc_diff_le)
    finally show ?thesis .
  qed
  then show ?case using snoc by (simp add: numbered_snoc recordEntry_fields)
qed

lemma NewDashboard_max: "0 < dMaxEntries (NewDashboard limit) \<and> dMaxEntries (NewDashboard limit) \<le> 100000"
  by (auto simp: NewDashboard_def defaultInspectLimit_def maxInspectLimit_def Let_def)

lemma find_numbered:
  assumes "i < length es" "k \<le> i"
  shows "find (\<lambda>e. int (reID e) = int (Suc i)) (drop k (numbered es)) = Some ((es ! i)\<lparr>reID := Suc i\<rparr>)"
proof -
  have "find (\<lambda>e. int (reID e) = int (Suc i)) (drop k (numbered es)) = Some (drop k (numbered es) ! (i - k))"
    unfolding find_Some_iff using assms by (intro exI [of _ "i - k"]) (auto simp: nth_numbered)
  then show ?thesis using assms by (simp add: numbered_def)
qed

lemma find_numbered_none:
  assumes "i \<notin> {int k + 1..int (length es)}"
  shows "find (\<lambda>e. int (reID e) = i) (drop k (numbered es)) = None"
  using assms by (auto simp: find_None_iff numbered_def in_set_conv_nth)

text \<open>What a look-up by number finds after any history.\<close>

lemma findEntry_recorded:
  fixes es :: "ReqEntry list" and limit :: int
  defines "d \<equiv> fold recordEntry es (NewDashboard limit)" and "n \<equiv> length es"
  defines "m \<equiv> dMaxEntries (NewDashboard limit)"
  shows "dEntries d = drop (n - m) (numbered es) \<and>
    findEntry d i = (if int (n - m) < i \<and> i \<le> int n then Some ((es ! nat (i - 1))\<lparr>reID := nat i\<rparr>) else None)"
proof -
  have z: "dEntries (NewDashboard limit) = []" "dNextID (NewDashboard limit) = 0" by (simp_all add: NewDashboard_def Let_def)
  have e: "dEntries d = drop (n - m) (numbered es)"
    using recorded_entries [OF z, of es] NewDashboard_max [of limit] by (simp add: d_def n_def m_def)
  have "findEntry d i = (if int (n - m) < i \<and> i \<le> int n then Some ((es ! nat (i - 1))\<lparr>reID := nat i\<rparr>) else None)"
  proof (cases "int (n - m) < i \<and> i \<le> int n")
    case True
    define k where "k = nat (i - 1)"
    have k: "int (Suc k) = i" "nat (i - 1) = k" "nat i = Suc k" "k < length es" "n - m \<le> k"
      using True by (auto simp: k_def n_def)
    show ?thesis using find_numbered [OF k(4,5)] True k by (simp add: findEntry_def e)
  next
    case False
    then show ?thesis using find_numbered_none [of i "n - m" es] by (simp add: findEntry_def e n_def)
  qed
  with e show ?thesis by simp
qed

text \<open>
  C25. The inspector's buffer is a window on the full history: after recording any sequence of exchanges
  it holds exactly the latest ones, at most the configured limit (between 1 and 100000), under
  consecutive numbers that are never reused; looking a number up gives exactly the exchange recorded
  under it or nothing when it is not in the window; and the list shows the newest first.
\<close>

theorem inspector_keeps_latest:
  fixes es :: "ReqEntry list" and limit :: int
  defines "d \<equiv> fold recordEntry es (NewDashboard limit)" and "n \<equiv> length es"
  defines "m \<equiv> dMaxEntries (NewDashboard limit)"
  shows "1 \<le> m \<and> m \<le> 100000 \<and> length (dEntries d) = min n m \<and>
    (\<forall>i. findEntry d i = (if int (n - m) < i \<and> i \<le> int n then Some ((es ! nat (i - 1))\<lparr>reID := nat i\<rparr>) else None)) \<and>
    map jID (handleList clock d) = rev [n - m + 1..<n + 1]"
proof -
  have m: "1 \<le> m" "m \<le> 100000" using NewDashboard_max [of limit] by (simp_all add: m_def)
  note found = findEntry_recorded [of es limit, folded d_def n_def m_def]
  then have e: "dEntries d = drop (n - m) (numbered es)" by blast
  have "map reID (numbered es) = map Suc [0..<n]" by (simp add: numbered_def n_def)
  also have "\<dots> = [1..<n + 1]" by (simp add: map_Suc_upt)
  finally have "map reID (drop (n - m) (numbered es)) = drop (n - m) [1..<n + 1]" by (metis drop_map)
  then have "map reID (dEntries d) = [n - m + 1..<n + 1]" by (simp add: e add.commute)
  then have "map jID (handleList clock d) = rev [n - m + 1..<n + 1]"
    by (simp add: handleList_def toJSON_def Let_def o_def rev_map [symmetric])
  with m found show ?thesis by (simp add: n_def)
qed

end
