(* ===== verification/Inspector.thy ===== *)
theory Inspector
  imports Dashboard
begin

text \<open>
  The web server of the inspector, \<^verbatim>\<open>internal/client/dashboard.go\<close>: its routes behind the check \<^verbatim>\<open>local\<close>,
  the live stream with its subscribers, the page, the downloads, and replays. A reply is the value handed
  to the encoder; time stamps, the page template and \<^verbatim>\<open>http.StatusText\<close> are arguments.
\<close>

section \<open>The live stream\<close>

text \<open>A new subscriber's channel gets an address no other channel has.\<close>

definition subscribe :: "Dashboard \<Rightarrow> Dashboard \<times> addr" where
  "subscribe d = (let a = Suc (foldr max (map fst (dSubs d)) 0) in (d\<lparr>dSubs := AList.update a [] (dSubs d)\<rparr>, a))"

definition unsubscribe :: "addr \<Rightarrow> Dashboard \<Rightarrow> Dashboard" where
  "unsubscribe a d = d\<lparr>dSubs := AList.delete a (dSubs d)\<rparr>"

text \<open>One round of the loop: the next entry of the channel, if there is one, goes out.\<close>

definition streamNext :: "(nat \<Rightarrow> string) \<Rightarrow> addr \<Rightarrow> Dashboard \<Rightarrow> Dashboard \<times> jsonEntry option" where
  "streamNext clock a d = (case map_of (dSubs d) a of
       Some (e # q) \<Rightarrow> (d\<lparr>dSubs := AList.update a q (dSubs d)\<rparr>, Some (toJSON clock False e))
     | _ \<Rightarrow> (d, None))"

section \<open>Routes\<close>

function replaceAll :: "string \<Rightarrow> string \<Rightarrow> string \<Rightarrow> string" where
  "replaceAll old new s =
     (if s = [] \<or> old = [] then s
      else if hasPrefix s old then new @ replaceAll old new (drop (length old) s)
      else hd s # replaceAll old new (tl s))"
  by pat_completeness auto
termination by (relation "measure (\<lambda>(old, new, s). length s)") auto

declare replaceAll.simps [simp del]

definition attachment :: "string \<Rightarrow> string \<Rightarrow> string \<Rightarrow> headers" where
  "attachment stamp ext contentType =
     [(''Content-Type'', [contentType]),
      (''Content-Disposition'',
       [''attachment; filename='' @ [CHR 0x22] @ ''vlgr-inspector-'' @ stamp @ ''.'' @ ext @ [CHR 0x22]])]"

datatype inspectReply =
    InspForbidden
  | InspNotFound
  | InspRedirect
  | InspNoStreaming
  | InspPage string
  | InspList "jsonEntry list"
  | InspDetail jsonEntry
  | InspReplay replayOut
  | InspStream addr
  | InspHAR headers "harEntry list"
  | InspText headers string

record inspectEnv =
  ieURLHost :: "string \<Rightarrow> string option"
  ieClock :: "nat \<Rightarrow> string"
  ieStatusText :: "nat \<Rightarrow> string"
  iePage :: string
  ieStamp :: string
  ieNow :: string
  ieFlusher :: bool
  ieReqErr :: "string option"

definition dashIndex :: "string \<Rightarrow> Dashboard \<Rightarrow> Request \<Rightarrow> inspectReply" where
  "dashIndex page d r =
     (if rqPath r \<noteq> ''/'' then InspNotFound
      else InspPage (replaceAll ''__MAX_ENTRIES__'' (dec (dMaxEntries d)) page))"

definition handleStream :: "bool \<Rightarrow> Dashboard \<Rightarrow> Dashboard \<times> inspectReply" where
  "handleStream flusher d =
     (if \<not> flusher then (d, InspNoStreaming) else case subscribe d of (d', a) \<Rightarrow> (d', InspStream a))"

text \<open>
  The handlers \<^verbatim>\<open>Start\<close> installs, for a clean path; a pattern that ends in a slash takes every path below it
  and redirects the path without the slash.
\<close>

definition dashServe :: "inspectEnv \<Rightarrow> Request \<Rightarrow> Dashboard \<Rightarrow> Dashboard \<times> inspectReply" where
  "dashServe e r d =
     (let path = rqPath r in
      if path = ''/api/request'' \<or> path = ''/api/replay'' then (d, InspRedirect)
      else if \<not> localOnly (ieURLHost e) r then (d, InspForbidden)
      else if path = ''/api/requests'' then (d, InspList (handleList (ieClock e) d))
      else if hasPrefix path ''/api/request/'' then
        (d, case handleDetail (ieClock e) d r of None \<Rightarrow> InspNotFound | Some j \<Rightarrow> InspDetail j)
      else if hasPrefix path ''/api/replay/'' then (d, InspReplay (handleReplay (ieReqErr e) d r))
      else if path = ''/api/stream'' then handleStream (ieFlusher e) d
      else if path = ''/api/export.har'' then
        (d, InspHAR (attachment (ieStamp e) ''har'' ''application/json'') (handleExportHAR (ieClock e) (ieStatusText e) d))
      else if path = ''/api/export.txt'' then
        (d, InspText (attachment (ieStamp e) ''txt'' ''text/plain; charset=utf-8'')
              (handleExportText (ieClock e) (ieStatusText e) (ieNow e) d))
      else (d, dashIndex (iePage e) d r))"


section \<open>Replays\<close>

text \<open>
  C26. A replay repeats the request: for any exchange still in the inspector's window, replaying it by
  its number sends the local service the same method, path, port and headers as the tunnel did, and
  the same body up to the 128 KiB that were captured; a streamed upload is refused; and once the local
  service has answered, the replay is the newest entry, marked as one, with the same request in it.
\<close>

theorem replay_repeats_request:
  fixes limit :: int
  assumes "d = fold recordEntry (xs @ httpEntry method path port hdr body streamed st rh rb t0 t1 # ys) (NewDashboard limit)"
    and "length ys < dMaxEntries (NewDashboard limit)" "Suc (length xs) < 2 ^ 63"
    and "rqPath r = ''/api/replay/'' @ dec (Suc (length xs))"
  shows "\<exists>e. handleReplay None d r =
      (if streamed then ReplayStreamed
       else ReplaySent e (localRequest method port path hdr (if length body \<le> dashBodyCap then body else take dashBodyCap body))) \<and>
    (\<forall>status rsHdr answer started now. \<exists>e'.
       last (dEntries (fst (replayAnswered e (Some (status, rsHdr, answer)) started now d))) = e' \<and>
       reReplayed e' \<and> reStatus e' = status \<and> reReqHeaders e' = hdr \<and> reMethod e' = method \<and> rePath e' = path \<and>
       reReqBody e' = take dashBodyCap body)"
proof -
  let ?e = "httpEntry method path port hdr body streamed st rh rb t0 t1" and ?i = "Suc (length xs)"
  let ?h = "?e\<lparr>reID := ?i\<rparr>"
  have "path_id ''/api/replay/'' r = int ?i"
    unfolding path_id_def assms(4) using atoi_val_dec [OF assms(3)] by (simp add: trimPrefix_def hasPrefix_def)
  moreover have "findEntry d (int ?i) = Some ?h"
    using findEntry_recorded [of "xs @ ?e # ys" limit "int ?i"] assms(1,2) by (simp add: nth_append nat_add_distrib)
  ultimately have "handleReplay None d r = (if streamed then ReplayStreamed
      else ReplaySent ?h (localRequest method port path hdr (if length body \<le> dashBodyCap then body else take dashBodyCap body)))"
    by (simp add: handleReplay_def httpEntry_def capBody_def)
  moreover have "0 < dMaxEntries d"
    using recorded_entries [of "NewDashboard limit" "xs @ ?e # ys"] NewDashboard_max [of limit] assms(1)
    by (simp add: NewDashboard_def Let_def)
  then have "last (dEntries (recordEntry x d)) = x\<lparr>reID := Suc (dNextID d)\<rparr>" for x
    by (simp add: recordEntry_fields last_drop)
  ultimately show ?thesis
    by (intro exI [of _ ?h]) (simp add: replayAnswered_def httpEntry_def capBody_def)
qed

theorem replay_repeats_request_witness:
  "let d = fold recordEntry ([] @ httpEntry ''POST'' ''/a'' 8080 [(''Host'', [''x''])] [1, 2] False 200 [] [] 0 1 # []) (NewDashboard 5) in
   \<exists>e. handleReplay None d (sample_visit\<lparr>rqPath := ''/api/replay/1''\<rparr>) =
     ReplaySent e (localRequest ''POST'' 8080 ''/a'' [(''Host'', [''x''])] [1, 2])"
proof -
  define d where "d = fold recordEntry ([] @ httpEntry ''POST'' ''/a'' 8080 [(''Host'', [''x''])] [1, 2] False 200 [] [] 0 1 # []) (NewDashboard 5)"
  have p: "rqPath (sample_visit\<lparr>rqPath := ''/api/replay/1''\<rparr>) = ''/api/replay/'' @ dec (Suc (length ([] :: ReqEntry list)))"
    by (simp add: dec.simps) code_simp
  have "\<exists>e. handleReplay None d (sample_visit\<lparr>rqPath := ''/api/replay/1''\<rparr>) =
      ReplaySent e (localRequest ''POST'' 8080 ''/a'' [(''Host'', [''x''])] [1, 2])"
    using replay_repeats_request [OF d_def _ _ p]
    by (auto simp: NewDashboard_def maxInspectLimit_def dashBodyCap_def Let_def)
  then show ?thesis by (simp add: d_def)
qed

text \<open>
  The check on the origin applies to other methods than GET and HEAD only, and the replay handler accepts
  every method: a page of another origin can have a recorded request sent again by a GET.
\<close>

lemma get_replays_across_origins:
  assumes "rqMethod r = ''GET''" "peerIsLoopback (rqRemoteAddr r)" "hostIsLoopback (rqHost r)"
    and "hasPrefix (rqPath r) ''/api/replay/''"
  shows "dashServe e r d = (d, InspReplay (handleReplay (ieReqErr e) d r))"
proof -
  obtain id where "rqPath r = ''/api/replay/'' @ id"
    using assms(4) by (metis hasPrefix_def append_take_drop_id)
  with assms show ?thesis by (simp add: dashServe_def localOnly_def hasPrefix_def Let_def)
qed

text \<open>Nobody else than a local caller who names a local host gets more than a refusal or a redirect.\<close>

lemma inspector_is_local:
  "snd (dashServe e r d) \<in> {InspForbidden, InspRedirect} \<or> peerIsLoopback (rqRemoteAddr r) \<and> hostIsLoopback (rqHost r)"
  by (auto simp: dashServe_def localOnly_def Let_def split: if_splits)

end
