(* ===== verification/Link.thy ===== *)
theory Link
  imports Client Proxy
begin

text \<open>
  Client and server together: \<^verbatim>\<open>Connect\<close> of \<^verbatim>\<open>internal/client/tunnel.go\<close> talking to the connection handler of
  \<^verbatim>\<open>internal/server/handler.go\<close>, and the agreement between the client's table of forwards and the
  server's tunnels that it establishes.
\<close>

section \<open>The server as the other side of Connect\<close>

text \<open>
  Each message the client sends is handled with the next environment; what the handler writes is
  what the client reads, and when it writes nothing the read times out.
\<close>

definition server_peer :: "config \<Rightarrow> (Shared \<times> ClientHandler \<times> env list) peer" where
  "server_peer cf msg st = (case st of
       (sh, h, []) \<Rightarrow> (st, ReadFailed)
     | (sh, h, e # es) \<Rightarrow>
         (case DecodeFrame msg of
            Inl _ \<Rightarrow> ((sh, h, es), ReadFailed)
          | Inr f \<Rightarrow>
              (case handleFrame cf e f (sh, h) of
                 (sh', h') \<Rightarrow> ((sh', h', es), if length (hOut h') > length (hOut h) then Reply (last (hOut h')) else ReadFailed))))"

lemma exchange_server:
  assumes "exchange (server_peer cf) desc frame (sh, h, es) = ((sh', h', es'), Inr resp)"
    and "length (Payload frame) \<le> MaxFrameSize"
  obtains e where "es = e # es'" "handleFrame cf e frame (sh, h) = (sh', h')"
    "length (hOut h) < length (hOut h')" "DecodeFrame (last (hOut h')) = Inr resp"
proof (cases es)
  case Nil
  then show thesis using assms(1) by (simp add: exchange_def server_peer_def)
next
  case (Cons e es2)
  have d: "DecodeFrame (EncodeFrame frame) = Inr frame"
    using DecodeFrame_EncodeFrame [OF assms(2), of "[]"] by simp
  obtain sh2 h2 where s: "handleFrame cf e frame (sh, h) = (sh2, h2)" by fastforce
  with assms(1) d Cons show thesis
    by (intro that [of e]) (auto simp: exchange_def server_peer_def split: if_splits sum.splits)
qed

lemma last_writeMessage:
  assumes "length (hOut h) < length (hOut (fst (writeMessage w m t r p h)))"
  shows "last (hOut (fst (writeMessage w m t r p h))) =
    EncodeFrame \<lparr>ftype = m, TunnelID = t, RequestID = r, Payload = p\<rparr>"
  using assms by (simp add: hOut_writeMessage split: if_splits)

lemma registerErr_reply:
  assumes "length (hOut h) < length (hOut (registerErr w msg h))" "DecodeFrame (last (hOut (registerErr w msg h))) = Inr resp"
  shows "ftype resp = MsgRegisterErr"
  using assms last_writeMessage [of h w MsgRegisterErr 0 0 "bytes_of msg"] DecodeFrame_ftype
  by (fastforce simp: registerErr_def)

lemma registerOne_server:
  assumes "registerOne (server_peer cf) m payload desc (sh, h, es) = ((sh', h', es'), Inr (url, tid))"
    and "length payload \<le> MaxFrameSize"
  obtains e resp where "es = e # es'"
    "handleFrame cf e \<lparr>ftype = m, TunnelID = 0, RequestID = 0, Payload = payload\<rparr> (sh, h) = (sh', h')"
    "length (hOut h) < length (hOut h')" "DecodeFrame (last (hOut h')) = Inr resp"
    "ftype resp = MsgRegisterOK" "DecodeRegisterOK (Payload resp) = Inr (url, tid)"
proof -
  let ?f = "\<lparr>ftype = m, TunnelID = 0, RequestID = 0, Payload = payload\<rparr>"
  from assms(1) obtain resp where x: "exchange (server_peer cf) desc ?f (sh, h, es) = ((sh', h', es'), Inr resp)"
    "ftype resp = MsgRegisterOK" "DecodeRegisterOK (Payload resp) = Inr (url, tid)"
    by (auto simp: registerOne_def split: prod.splits sum.splits if_splits)
  show thesis by (rule exchange_server [OF x(1)]) (use assms(2) x that in auto)
qed

lemma reply_RegisterOK:
  assumes "length (hOut h) < length (hOut (fst (writeMessage w MsgRegisterOK t 0 p h)))"
    and "DecodeFrame (last (hOut (fst (writeMessage w MsgRegisterOK t 0 p h)))) = Inr resp"
    and "DecodeRegisterOK (Payload resp) = Inr (url, tid)" "EncodeRegisterOK url0 tid0 = Inr p"
  shows "url = url0 \<and> tid = tid0"
proof -
  have l: "length url0 \<le> 255" "length p \<le> MaxFrameSize" using assms(4)
    by (auto simp: EncodeRegisterOK_def MaxFrameSize_def MaxBodySize_def split: if_splits)
  have "Payload resp = p"
    using assms(2) last_writeMessage [OF assms(1)] l(2)
      DecodeFrame_EncodeFrame [of "\<lparr>ftype = MsgRegisterOK, TunnelID = t, RequestID = 0, Payload = p\<rparr>" "[]"] by simp
  moreover have "DecodeRegisterOK p = Inr (url0, tid0)"
    using regOkC.decode_enc [of "(url0, tid0)" p] assms(4) l(1) by simp
  ultimately show ?thesis using assms(3) by simp
qed

section \<open>What each registration leaves on both sides\<close>

definition new_id :: "env \<Rightarrow> u64" where
  "new_id e = generateTunnelID (eIdRand e) (eNow e)"

abbreviation reg_frame :: "u8 \<Rightarrow> bytes \<Rightarrow> Frame" where
  "reg_frame m payload \<equiv> \<lparr>ftype = m, TunnelID = 0, RequestID = 0, Payload = payload\<rparr>"

lemma reg_done_reply:
  assumes "length (hOut h) < length (hOut (reg_done e sub t h1))" "hOut h1 = hOut h" "hBaseDomain h1 = hBaseDomain h"
    and "DecodeFrame (last (hOut (reg_done e sub t h1))) = Inr resp" "DecodeRegisterOK (Payload resp) = Inr (url, tid)"
    and "length (public_url sub (hBaseDomain h)) \<le> 255"
  shows "url = public_url sub (hBaseDomain h) \<and> tid = tunID t"
proof -
  obtain p where p: "EncodeRegisterOK (public_url sub (hBaseDomain h1)) (tunID t) = Inr p"
    using assms(3,6) by (simp add: EncodeRegisterOK_def)
  have r: "reg_done e sub t h1 = fst (writeMessage (eWriteOk e) MsgRegisterOK (tunID t) 0 p h1)"
    by (simp add: reg_done_def p reply_payload_def)
  show ?thesis
    using reply_RegisterOK [OF _ _ assms(5) p, of h1 "eWriteOk e" "tunID t"] assms(1-4) unfolding r by simp
qed

lemma Register_new_id:
  "reg_inv g \<Longrightarrow> Register sub c (eIdRand e) g = (g', Inr t) \<Longrightarrow> tunID t = new_id e"
  by (drule (1) Get_Register_ok) (auto simp: new_id_def generateTunnelID_def)

lemma register_http:
  assumes reg: "registerOne (server_peer cf) MsgRegister payload desc (sh, h, es) = ((sh', h', es'), Inr (url, tid))"
    and "length payload \<le> MaxFrameSize" "hAuthenticated h" "reg_inv (shRegistry sh)"
    and dec: "DecodeRegister payload = Inr (port, requested)"
  obtains e t g where "es = e # es'" "sh' = sh\<lparr>shRegistry := g\<rparr>" "Get (shRegistry sh) (tunSubdomain t) = None"
    "Get g = (Get (shRegistry sh))(tunSubdomain t \<mapsto> t)" "reg_inv g" "tunID t = tid" "tid = new_id e" "tunHandler t = hSelf h"
    "url = public_url (tunSubdomain t) (hBaseDomain h)" "validSubdomain requested"
    "tunSubdomain t = wanted_name e requested"
    "resources_of h' = resources_of (h\<lparr>hTunnels := AList.update tid t (hTunnels h), hTunnelCount := hTunnelCount h + 1\<rparr>)"
proof -
  obtain e resp where e: "es = e # es'" "handleFrame cf e (reg_frame MsgRegister payload) (sh, h) = (sh', h')"
    "length (hOut h) < length (hOut h')" "DecodeFrame (last (hOut h')) = Inr resp" "ftype resp = MsgRegisterOK"
    "DecodeRegisterOK (Payload resp) = Inr (url, tid)"
    using registerOne_server [OF assms(1,2)] by blast
  have hf: "handleRegister cf e (reg_frame MsgRegister payload) (sh, h) = (sh', h')"
    using e(2) assms(3) by (simp add: handleFrame_def msg_defs)
  have "\<not> (\<exists>msg. handleRegister cf e (reg_frame MsgRegister payload) (sh, h) = (sh, registerErr (eWriteOk e) msg h))"
    using registerErr_reply [of h "eWriteOk e" _ resp] e(3-5) hf by (auto simp: msg_defs)
  then obtain sub g t where acc: "reg_accepts e (reg_frame MsgRegister payload) h = Some sub"
    and r: "Register sub (hSelf h) (eIdRand e) (shRegistry sh) = (g, Inr t)"
    using handleRegister_refused [of e "reg_frame MsgRegister payload" h sh cf] by (metis prod.exhaust sum.exhaust)
  let ?h1 = "h\<lparr>hTunnels := AList.update (tunID t) t (hTunnels h), hTunnelCount := hTunnelCount h + 1\<rparr>"
  have st: "sh' = sh\<lparr>shRegistry := g\<rparr>" "h' = reg_done e sub t ?h1"
    using handleRegister_ok [OF acc r, of cf] hf by simp_all
  have sub: "sub = wanted_name e requested" "validSubdomain requested" "length (public_url sub (hBaseDomain h)) \<le> 255"
    using acc dec by (auto simp: reg_accepts_def split: if_splits)
  have u: "url = public_url sub (hBaseDomain h) \<and> tid = tunID t"
    by (rule reg_done_reply [where ?h1.0 = ?h1, OF _ _ _ _ e(6) sub(3)]) (use e(3,4) st in simp_all)
  note G = Get_Register_ok [OF assms(4) r] and I = reg_inv_Register [OF assms(4), of sub "hSelf h" "eIdRand e"]
  show thesis
    by (rule that [of e g t])
      (use e(1) st u sub G I r Register_new_id [OF assms(4) r] in \<open>simp_all add: frame_cond\<close>)
qed

lemma register_tls:
  assumes reg: "registerOne (server_peer cf) MsgRegisterTLS payload desc (sh, h, es) = ((sh', h', es'), Inr (url, tid))"
    and "length payload \<le> MaxFrameSize" "hAuthenticated h" "\<And>g. shTLS sh = Some g \<Longrightarrow> reg_inv g"
    and dec: "DecodeRegister payload = Inr (port, requested)"
  obtains e t g0 g where "es = e # es'" "shTLS sh = Some g0" "sh' = sh\<lparr>shTLS := Some g\<rparr>" "Get g0 (tunSubdomain t) = None"
    "Get g = (Get g0)(tunSubdomain t \<mapsto> t)" "reg_inv g" "tunID t = tid" "tid = new_id e" "tunHandler t = hSelf h"
    "url = public_url (tunSubdomain t) (hBaseDomain h)" "validSubdomain requested"
    "tunSubdomain t = wanted_name e requested"
    "resources_of h' = resources_of (h\<lparr>hTlsTunnels := AList.update tid t (hTlsTunnels h), hTunnelCount := hTunnelCount h + 1\<rparr>)"
proof -
  obtain e resp where e: "es = e # es'" "handleFrame cf e (reg_frame MsgRegisterTLS payload) (sh, h) = (sh', h')"
    "length (hOut h) < length (hOut h')" "DecodeFrame (last (hOut h')) = Inr resp" "ftype resp = MsgRegisterOK"
    "DecodeRegisterOK (Payload resp) = Inr (url, tid)"
    using registerOne_server [OF assms(1,2)] by blast
  have hf: "handleRegisterTLS cf e (reg_frame MsgRegisterTLS payload) (sh, h) = (sh', h')"
    using e(2) assms(3) by (simp add: handleFrame_def msg_defs)
  have "\<not> (\<exists>msg. handleRegisterTLS cf e (reg_frame MsgRegisterTLS payload) (sh, h) = (sh, registerErr (eWriteOk e) msg h))"
    using registerErr_reply [of h "eWriteOk e" _ resp] e(3-5) hf by (auto simp: msg_defs)
  then obtain sub g0 g t where acc: "reg_accepts e (reg_frame MsgRegisterTLS payload) h = Some sub"
    and tls: "shTLS sh = Some g0" and r: "Register sub (hSelf h) (eIdRand e) g0 = (g, Inr t)"
    using handleRegisterTLS_refused [of e "reg_frame MsgRegisterTLS payload" h sh cf] by (metis prod.exhaust sum.exhaust)
  let ?h1 = "h\<lparr>hTlsTunnels := AList.update (tunID t) t (hTlsTunnels h), hTunnelCount := hTunnelCount h + 1\<rparr>"
  have st: "sh' = sh\<lparr>shTLS := Some g\<rparr>" "h' = reg_done e sub t ?h1"
    using handleRegisterTLS_ok [OF acc tls r, of cf] hf by simp_all
  have sub: "sub = wanted_name e requested" "validSubdomain requested" "length (public_url sub (hBaseDomain h)) \<le> 255"
    using acc dec by (auto simp: reg_accepts_def split: if_splits)
  have u: "url = public_url sub (hBaseDomain h) \<and> tid = tunID t"
    by (rule reg_done_reply [where ?h1.0 = ?h1, OF _ _ _ _ e(6) sub(3)]) (use e(3,4) st in simp_all)
  note inv = assms(4) [OF tls]
  note G = Get_Register_ok [OF inv r] and I = reg_inv_Register [OF inv, of sub "hSelf h" "eIdRand e"]
  show thesis
    by (rule that [of e g0 g t])
      (use e(1) tls st u sub G I r Register_new_id [OF inv r] in \<open>simp_all add: frame_cond\<close>)
qed

lemma handleRegisterTCP_unencodable:
  assumes "tcp_accepts frame h = Some (lp, rp)" "shAlloc sh = Some a" "Allocate a rp = (a', Inr p)"
    "eListenErr e = None" "EncodeRegisterOK (hTcpHost h @ '':'' @ dec (unat p)) (ttID (new_tcp e p lp)) = Inl err"
  shows "handleRegisterTCP cf e frame (sh, h) =
     (closeTCPTunnel (new_tcp e p lp) (sh\<lparr>shAlloc := Some a', shListeners := p # shListeners sh\<rparr>),
      registerErr (eWriteOk e) (err_text (cfQuote cf) err)
        (h\<lparr>hTcpTunnels := AList.update (ttID (new_tcp e p lp)) (new_tcp e p lp) (hTcpTunnels h),
           hTunnelCount := hTunnelCount h + 1\<rparr>))"
  using assms by (auto simp: handleRegisterTCP_def tcp_accepts_def new_tcp_def Let_def
      split: sum.splits if_splits)

lemma register_tcp:
  assumes reg: "registerOne (server_peer cf) MsgRegisterTCP (EncodeRegisterTCP lp rp) desc (sh, h, es) = ((sh', h', es'), Inr (url, tid))"
    and "hAuthenticated h"
  obtains e p a' where "es = e # es'" "sh' = sh\<lparr>shAlloc := Some a', shListeners := p # shListeners sh\<rparr>" "tid = new_id e"
    "url = hTcpHost h @ '':'' @ dec (unat p)" "lp \<noteq> 0"
    "resources_of h' = resources_of (h\<lparr>hTcpTunnels := AList.update tid \<lparr>ttID = tid, ttPublicPort = p, ttLocalPort = lp\<rparr>
       (hTcpTunnels h), hTunnelCount := hTunnelCount h + 1\<rparr>)"
proof -
  let ?f = "reg_frame MsgRegisterTCP (EncodeRegisterTCP lp rp)"
  have "length (EncodeRegisterTCP lp rp) \<le> MaxFrameSize"
    by (simp add: EncodeRegisterTCP_def MaxFrameSize_def MaxBodySize_def)
  then obtain e resp where e: "es = e # es'" "handleFrame cf e ?f (sh, h) = (sh', h')"
    "length (hOut h) < length (hOut h')" "DecodeFrame (last (hOut h')) = Inr resp" "ftype resp = MsgRegisterOK"
    "DecodeRegisterOK (Payload resp) = Inr (url, tid)"
    using registerOne_server [OF assms(1)] by blast
  have hf: "handleRegisterTCP cf e ?f (sh, h) = (sh', h')" using e(2) assms(2) by (simp add: handleFrame_def msg_defs)
  have no: "handleRegisterTCP cf e ?f (sh, h) \<noteq> (sh1, registerErr (eWriteOk e) msg h1)" if "hOut h1 = hOut h" for sh1 h1 msg
    using registerErr_reply [of h1 "eWriteOk e" msg resp] e(3-5) hf that by (auto simp: msg_defs)
  have "\<not> (tcp_accepts ?f h = None \<or> shAlloc sh = None)"
    using handleRegisterTCP_refused [of ?f h sh cf e] no [OF refl] by blast
  then obtain a where a: "shAlloc sh = Some a" and acc: "tcp_accepts ?f h = Some (lp, rp)" and lp: "lp \<noteq> 0"
    using regTcpC.decode_enc [of "(lp, rp)"] by (auto simp: tcp_accepts_def split: if_splits)
  obtain a' res where al: "Allocate a rp = (a', res)" by fastforce
  then obtain p where p: "Allocate a rp = (a', Inr p)"
    using handleRegisterTCP_full [OF acc a, of a' _ cf e] no [OF refl] by (cases res) auto
  have l: "eListenErr e = None"
    using handleRegisterTCP_nolisten [OF acc a p, of e _ cf] no [OF refl] by (cases "eListenErr e") auto
  let ?tt = "new_tcp e p lp" and ?url = "hTcpHost h @ '':'' @ dec (unat p)"
  show thesis
  proof (cases "EncodeRegisterOK ?url (ttID ?tt)")
    case (Inl err)
    show thesis using no [of "h\<lparr>hTcpTunnels := AList.update (ttID ?tt) ?tt (hTcpTunnels h), hTunnelCount := hTunnelCount h + 1\<rparr>"]
      handleRegisterTCP_unencodable [OF acc a p l Inl, of cf] by auto
  next
    case (Inr pl)
    let ?h1 = "h\<lparr>hTcpTunnels := AList.update (ttID ?tt) ?tt (hTcpTunnels h), hTunnelCount := hTunnelCount h + 1\<rparr>"
    have st: "sh' = sh\<lparr>shAlloc := Some a', shListeners := p # shListeners sh\<rparr>"
      "h' = fst (writeMessage (eWriteOk e) MsgRegisterOK (ttID ?tt) 0 pl ?h1)"
      using handleRegisterTCP_ok [OF acc a p l Inr, of cf] hf by simp_all
    have "url = ?url \<and> tid = ttID ?tt"
      by (rule reply_RegisterOK [OF _ _ e(6) Inr, where h = ?h1]) (use e(3,4) st(2) in simp_all)
    then show thesis
      by (intro that [of e p a']) (use e(1) st lp in \<open>simp_all add: new_tcp_def new_id_def frame_cond\<close>)
  qed
qed

section \<open>Agreement\<close>

text \<open>A forward of the client is backed by a tunnel of the server, of one of the three kinds.\<close>

definition http_backed :: "Shared \<Rightarrow> ClientHandler \<Rightarrow> CForward \<Rightarrow> bool" where
  "http_backed sh h f \<longleftrightarrow> (\<exists>t. map_of (hTunnels h) (fwTunnelID f) = Some t \<and> tunID t = fwTunnelID f \<and>
     tunHandler t = hSelf h \<and> Get (shRegistry sh) (tunSubdomain t) = Some t \<and>
     tunSubdomain t \<noteq> '''' \<and> validSubdomain (tunSubdomain t) \<and>
     fwURL f = public_url (tunSubdomain t) (hBaseDomain h))"

definition tls_backed :: "Shared \<Rightarrow> ClientHandler \<Rightarrow> CForward \<Rightarrow> bool" where
  "tls_backed sh h f \<longleftrightarrow> (\<exists>t g. map_of (hTlsTunnels h) (fwTunnelID f) = Some t \<and> tunID t = fwTunnelID f \<and>
     tunHandler t = hSelf h \<and> shTLS sh = Some g \<and> Get g (tunSubdomain t) = Some t \<and>
     tunSubdomain t \<noteq> '''' \<and> validSubdomain (tunSubdomain t) \<and>
     fwURL f = ''tls://'' @ public_url (tunSubdomain t) (hBaseDomain h))"

definition tcp_backed :: "Shared \<Rightarrow> ClientHandler \<Rightarrow> CForward \<Rightarrow> bool" where
  "tcp_backed sh h f \<longleftrightarrow> (\<exists>tt. map_of (hTcpTunnels h) (fwTunnelID f) = Some tt \<and> ttID tt = fwTunnelID f \<and>
     ttLocalPort tt = fwPort f \<and> ttPublicPort tt \<in> set (shListeners sh) \<and>
     fwURL f = ''tcp://'' @ hTcpHost h @ '':'' @ dec (unat (ttPublicPort tt)))"

definition backed :: "Shared \<Rightarrow> ClientHandler \<Rightarrow> CForward \<Rightarrow> bool" where
  "backed sh h f \<longleftrightarrow> http_backed sh h f \<or> tcp_backed sh h f \<or> tls_backed sh h f"

definition kept :: "Shared \<Rightarrow> ClientHandler \<Rightarrow> Shared \<Rightarrow> ClientHandler \<Rightarrow> CForward \<Rightarrow> bool" where
  "kept sh h sh' h' f \<longleftrightarrow> (http_backed sh h f \<longrightarrow> http_backed sh' h' f) \<and> (tcp_backed sh h f \<longrightarrow> tcp_backed sh' h' f) \<and>
     (tls_backed sh h f \<longrightarrow> tls_backed sh' h' f)"

lemma kept_backed: "kept sh h sh' h' f \<Longrightarrow> backed sh h f \<Longrightarrow> backed sh' h' f"
  by (auto simp: kept_def backed_def)

lemma kept_trans: "kept sh h sh1 h1 f \<Longrightarrow> kept sh1 h1 sh2 h2 f \<Longrightarrow> kept sh h sh2 h2 f"
  by (simp add: kept_def)

lemma kept_refl: "kept sh h sh h f"
  by (simp add: kept_def)

definition link :: "ClientTunnel \<Rightarrow> Shared \<Rightarrow> ClientHandler \<Rightarrow> u64 set \<Rightarrow> bool" where
  "link ct sh h used \<longleftrightarrow>
     hAuthenticated h \<and> reg_inv (shRegistry sh) \<and> (\<forall>g. shTLS sh = Some g \<longrightarrow> reg_inv g) \<and>
     dom (map_of (hTunnels h)) \<subseteq> used \<and> dom (map_of (hTcpTunnels h)) \<subseteq> used \<and> dom (map_of (hTlsTunnels h)) \<subseteq> used \<and>
     distinct (map fwTunnelID (ctForwards ct)) \<and> set (map fwTunnelID (ctForwards ct)) \<subseteq> used \<and>
     (\<forall>f \<in> set (ctForwards ct). backed sh h f)"

lemma kept_http:
  assumes "fwTunnelID f \<noteq> tid" "Get (shRegistry sh) (tunSubdomain t) = None"
    and "Get g = (Get (shRegistry sh))(tunSubdomain t \<mapsto> t)"
    and "resources_of h' = resources_of (h\<lparr>hTunnels := AList.update tid t (hTunnels h), hTunnelCount := c\<rparr>)"
  shows "kept sh h (sh\<lparr>shRegistry := g\<rparr>) h' f"
  using assms unfolding kept_def http_backed_def tls_backed_def tcp_backed_def resources_of_eq_iff
  by (fastforce simp: update_conv')

lemma kept_tls:
  assumes "fwTunnelID f \<noteq> tid" "shTLS sh = Some g0" "Get g0 (tunSubdomain t) = None"
    and "Get g = (Get g0)(tunSubdomain t \<mapsto> t)"
    and "resources_of h' = resources_of (h\<lparr>hTlsTunnels := AList.update tid t (hTlsTunnels h), hTunnelCount := c\<rparr>)"
  shows "kept sh h (sh\<lparr>shTLS := Some g\<rparr>) h' f"
  using assms unfolding kept_def http_backed_def tls_backed_def tcp_backed_def resources_of_eq_iff
  by (fastforce simp: update_conv')

lemma kept_tcp:
  assumes "fwTunnelID f \<noteq> tid"
    and "resources_of h' = resources_of (h\<lparr>hTcpTunnels := AList.update tid tt (hTcpTunnels h), hTunnelCount := c\<rparr>)"
  shows "kept sh h (sh\<lparr>shAlloc := a, shListeners := p # shListeners sh\<rparr>) h' f"
  using assms unfolding kept_def http_backed_def tls_backed_def tcp_backed_def resources_of_eq_iff
  by (fastforce simp: update_conv')

text \<open>Adding one forward to a linked pair, whatever its kind.\<close>

lemma link_add:
  assumes "link ct sh h used" "tid \<notin> used" "hAuthenticated h'" "reg_inv (shRegistry sh')" "\<And>g. shTLS sh' = Some g \<Longrightarrow> reg_inv g"
    and "\<And>f. fwTunnelID f \<noteq> tid \<Longrightarrow> kept sh h sh' h' f"
    and "dom (map_of (hTunnels h')) \<subseteq> insert tid used" "dom (map_of (hTcpTunnels h')) \<subseteq> insert tid used"
    and "dom (map_of (hTlsTunnels h')) \<subseteq> insert tid used"
    and "backed sh' h' \<lparr>fwTunnelID = tid, fwPort = port, fwURL = url\<rparr>"
  shows "link (setMapping tid port url ct) sh' h' (insert tid used)"
proof -
  have "fwTunnelID f \<noteq> tid" if "f \<in> set (ctForwards ct)" for f
    using assms(1,2) that by (auto simp: link_def)
  then have "backed sh' h' f" if "f \<in> set (ctForwards ct)" for f
    using assms(1) kept_backed [OF assms(6)] that by (simp add: link_def)
  then show ?thesis using assms by (auto simp: link_def setMapping_def)
qed

section \<open>The three loops of Connect\<close>

text \<open>Identifiers not yet used, and environments that draw well.\<close>

definition good_envs :: "env list \<Rightarrow> u64 set \<Rightarrow> bool" where
  "good_envs es used \<longleftrightarrow> distinct (map new_id es) \<and> set (map new_id es) \<inter> used = {} \<and> (\<forall>e \<in> set es. good_rand e)"

lemma good_envs_Cons:
  "good_envs (e # es) used \<longleftrightarrow> new_id e \<notin> used \<and> good_rand e \<and> good_envs es (insert (new_id e) used)"
  by (auto simp: good_envs_def)

lemma EncodeRegister_InrD:
  assumes "EncodeRegister port sub = Inr payload"
  shows "length payload \<le> MaxFrameSize \<and> DecodeRegister payload = Inr (port, sub)"
proof
  have l: "length sub \<le> MaxSubdomainLen" using assms by (auto simp: EncodeRegister_def split: if_splits)
  then show "length payload \<le> MaxFrameSize" using assms
    by (auto simp: EncodeRegister_def limit_defs MaxFrameSize_def MaxBodySize_def split: if_splits)
  show "DecodeRegister payload = Inr (port, sub)" using regC.decode_enc [of "(port, sub)" payload] l assms by simp
qed

definition fwd :: "u64 \<Rightarrow> u16 \<Rightarrow> string \<Rightarrow> CForward" where
  "fwd tid port url = \<lparr>fwTunnelID = tid, fwPort = port, fwURL = url\<rparr>"

text \<open>What the new forwards look like: one per request, in order, with the name that was asked for.\<close>

definition named_fwd :: "string \<Rightarrow> string \<Rightarrow> u16 \<times> string \<Rightarrow> CForward \<Rightarrow> bool" where
  "named_fwd scheme base p f \<longleftrightarrow> fwPort f = fst p \<and> (snd p \<noteq> '''' \<longrightarrow> fwURL f = scheme @ public_url (snd p) base)"

lemma link_http:
  assumes "registerOne (server_peer cf) MsgRegister payload desc (sh, h, es) = ((sh', h', es'), Inr (url, tid))"
    and "EncodeRegister port sub = Inr payload" "link ct sh h used" "good_envs es used"
  shows "link (setMapping tid port url ct) sh' h' (insert tid used) \<and> good_envs es' (insert tid used) \<and>
    http_backed sh' h' (fwd tid port url) \<and> named_fwd '''' (hBaseDomain h) (port, sub) (fwd tid port url) \<and>
    hBaseDomain h' = hBaseDomain h \<and> hTcpHost h' = hTcpHost h \<and> hSelf h' = hSelf h \<and>
    (\<forall>f. fwTunnelID f \<noteq> tid \<longrightarrow> kept sh h sh' h' f) \<and> tid \<notin> used"
proof -
  have L: "hAuthenticated h" "reg_inv (shRegistry sh)" using assms(3) by (simp_all add: link_def)
  note p = EncodeRegister_InrD [OF assms(2)]
  obtain e t g where e: "es = e # es'" "sh' = sh\<lparr>shRegistry := g\<rparr>" "Get (shRegistry sh) (tunSubdomain t) = None"
    "Get g = (Get (shRegistry sh))(tunSubdomain t \<mapsto> t)" "reg_inv g" "tunID t = tid" "tid = new_id e" "tunHandler t = hSelf h"
    "url = public_url (tunSubdomain t) (hBaseDomain h)" "validSubdomain sub" "tunSubdomain t = wanted_name e sub"
    "resources_of h' = resources_of (h\<lparr>hTunnels := AList.update tid t (hTunnels h), hTunnelCount := hTunnelCount h + 1\<rparr>)"
    by (rule register_http [OF assms(1) _ L(1,2)]) (use p in auto)
  have good: "tid \<notin> used" "good_rand e" "good_envs es' (insert tid used)"
    using assms(4) e(1,7) by (simp_all add: good_envs_Cons)
  note valid = wanted_name_valid [OF good(2) e(10)]
  have h': "hTunnels h' = AList.update tid t (hTunnels h)" "hTcpTunnels h' = hTcpTunnels h" "hTlsTunnels h' = hTlsTunnels h"
    "hAuthenticated h'" "hBaseDomain h' = hBaseDomain h" "hTcpHost h' = hTcpHost h" "hSelf h' = hSelf h"
    using e(12) L(1) by (simp_all add: resources_of_eq_iff)
  have b: "http_backed sh' h' (fwd tid port url)"
    using e valid h' by (auto simp: http_backed_def fwd_def update_conv')
  have k: "kept sh h sh' h' f" if "fwTunnelID f \<noteq> tid" for f
    using kept_http [OF that e(3,4,12)] e(2) by simp
  have "link (setMapping tid port url ct) sh' h' (insert tid used)"
  proof (rule link_add [OF assms(3) good(1)])
    show "kept sh h sh' h' f" if "fwTunnelID f \<noteq> tid" for f by (rule k [OF that])
  qed (use assms(3) e(2,5) h' b in \<open>auto simp: link_def backed_def fwd_def update_conv'\<close>)
  then show ?thesis using k good(1,3) b h' e(9,11) by (simp add: named_fwd_def fwd_def wanted_name_def)
qed

lemma link_tls:
  assumes "registerOne (server_peer cf) MsgRegisterTLS payload desc (sh, h, es) = ((sh', h', es'), Inr (url, tid))"
    and "EncodeRegister port sub = Inr payload" "link ct sh h used" "good_envs es used"
  shows "link (setMapping tid port (''tls://'' @ url) ct) sh' h' (insert tid used) \<and> good_envs es' (insert tid used) \<and>
    named_fwd ''tls://'' (hBaseDomain h) (port, sub) (fwd tid port (''tls://'' @ url)) \<and>
    hBaseDomain h' = hBaseDomain h \<and> hTcpHost h' = hTcpHost h \<and> hSelf h' = hSelf h \<and>
    (\<forall>f. fwTunnelID f \<noteq> tid \<longrightarrow> kept sh h sh' h' f) \<and> tid \<notin> used"
proof -
  have L: "hAuthenticated h" "\<And>g. shTLS sh = Some g \<Longrightarrow> reg_inv g" using assms(3) by (simp_all add: link_def)
  note p = EncodeRegister_InrD [OF assms(2)]
  obtain e t g0 g where e: "es = e # es'" "shTLS sh = Some g0" "sh' = sh\<lparr>shTLS := Some g\<rparr>" "Get g0 (tunSubdomain t) = None"
    "Get g = (Get g0)(tunSubdomain t \<mapsto> t)" "reg_inv g" "tunID t = tid" "tid = new_id e" "tunHandler t = hSelf h"
    "url = public_url (tunSubdomain t) (hBaseDomain h)" "validSubdomain sub" "tunSubdomain t = wanted_name e sub"
    "resources_of h' = resources_of (h\<lparr>hTlsTunnels := AList.update tid t (hTlsTunnels h), hTunnelCount := hTunnelCount h + 1\<rparr>)"
    by (rule register_tls [OF assms(1) _ L(1,2)]) (use p in auto)
  have good: "tid \<notin> used" "good_rand e" "good_envs es' (insert tid used)"
    using assms(4) e(1,8) by (simp_all add: good_envs_Cons)
  note valid = wanted_name_valid [OF good(2) e(11)]
  have h': "hTunnels h' = hTunnels h" "hTcpTunnels h' = hTcpTunnels h" "hTlsTunnels h' = AList.update tid t (hTlsTunnels h)"
    "hAuthenticated h'" "hBaseDomain h' = hBaseDomain h" "hTcpHost h' = hTcpHost h" "hSelf h' = hSelf h"
    using e(13) L(1) by (simp_all add: resources_of_eq_iff)
  have b: "tls_backed sh' h' (fwd tid port (''tls://'' @ url))"
    using e valid h' by (auto simp: tls_backed_def fwd_def update_conv')
  have k: "kept sh h sh' h' f" if "fwTunnelID f \<noteq> tid" for f
    using kept_tls [OF that e(2,4,5,13)] e(3) by simp
  have "link (setMapping tid port (''tls://'' @ url) ct) sh' h' (insert tid used)"
  proof (rule link_add [OF assms(3) good(1)])
    show "kept sh h sh' h' f" if "fwTunnelID f \<noteq> tid" for f by (rule k [OF that])
  qed (use assms(3) e(3,6) h' b in \<open>auto simp: link_def backed_def fwd_def update_conv'\<close>)
  then show ?thesis using k good(1,3) h' e(10,12) by (simp add: named_fwd_def fwd_def wanted_name_def)
qed

lemma link_tcp:
  assumes "registerOne (server_peer cf) MsgRegisterTCP (EncodeRegisterTCP lp rp) desc (sh, h, es) = ((sh', h', es'), Inr (url, tid))"
    and "link ct sh h used" "good_envs es used"
  shows "link (setMapping tid lp (''tcp://'' @ url) ct) sh' h' (insert tid used) \<and> good_envs es' (insert tid used) \<and>
    hBaseDomain h' = hBaseDomain h \<and> hTcpHost h' = hTcpHost h \<and> hSelf h' = hSelf h \<and>
    (\<forall>f. fwTunnelID f \<noteq> tid \<longrightarrow> kept sh h sh' h' f) \<and> tid \<notin> used"
proof -
  have L: "hAuthenticated h" using assms(2) by (simp add: link_def)
  obtain e p a' where e: "es = e # es'" "sh' = sh\<lparr>shAlloc := Some a', shListeners := p # shListeners sh\<rparr>" "tid = new_id e"
    "url = hTcpHost h @ '':'' @ dec (unat p)" "lp \<noteq> 0"
    "resources_of h' = resources_of (h\<lparr>hTcpTunnels := AList.update tid \<lparr>ttID = tid, ttPublicPort = p, ttLocalPort = lp\<rparr>
       (hTcpTunnels h), hTunnelCount := hTunnelCount h + 1\<rparr>)"
    by (rule register_tcp [OF assms(1) L])
  have good: "tid \<notin> used" "good_envs es' (insert tid used)"
    using assms(3) e(1,3) by (simp_all add: good_envs_Cons)
  have h': "hTunnels h' = hTunnels h" "hTlsTunnels h' = hTlsTunnels h"
    "hTcpTunnels h' = AList.update tid \<lparr>ttID = tid, ttPublicPort = p, ttLocalPort = lp\<rparr> (hTcpTunnels h)"
    "hAuthenticated h'" "hBaseDomain h' = hBaseDomain h" "hTcpHost h' = hTcpHost h" "hSelf h' = hSelf h"
    using e(6) L by (simp_all add: resources_of_eq_iff)
  have b: "tcp_backed sh' h' (fwd tid lp (''tcp://'' @ url))"
    using e h' by (auto simp: tcp_backed_def fwd_def update_conv')
  have k: "kept sh h sh' h' f" if "fwTunnelID f \<noteq> tid" for f
    using kept_tcp [OF that e(6)] e(2) by simp
  have "link (setMapping tid lp (''tcp://'' @ url) ct) sh' h' (insert tid used)"
  proof (rule link_add [OF assms(2) good(1)])
    show "kept sh h sh' h' f" if "fwTunnelID f \<noteq> tid" for f by (rule k [OF that])
  qed (use assms(2) e(2) h' b in \<open>auto simp: link_def backed_def fwd_def update_conv'\<close>)
  then show ?thesis using k good(1,2) h' by simp
qed

text \<open>What one of the loops achieves on a linked pair.\<close>

definition loop_ok ::
  "ClientTunnel \<Rightarrow> Shared \<times> ClientHandler \<Rightarrow> u64 set \<Rightarrow> ClientTunnel \<Rightarrow> Shared \<times> ClientHandler \<times> env list \<Rightarrow> CForward list \<Rightarrow> u64 set \<Rightarrow> bool" where
  "loop_ok ct st used ct' st' fs used' \<longleftrightarrow> (case (st, st') of ((sh, h), (sh', h', es')) \<Rightarrow>
     link ct' sh' h' used' \<and> good_envs es' used' \<and> used \<subseteq> used' \<and> ctForwards ct' = ctForwards ct @ fs \<and>
     hBaseDomain h' = hBaseDomain h \<and> hTcpHost h' = hTcpHost h \<and> hSelf h' = hSelf h \<and>
     (\<forall>f. fwTunnelID f \<in> used \<longrightarrow> kept sh h sh' h' f))"

lemma loop_ok_refl: "link ct sh h used \<Longrightarrow> good_envs es used \<Longrightarrow> loop_ok ct (sh, h) used ct (sh, h, es) [] used"
  by (simp add: loop_ok_def kept_refl)

lemma loop_ok_step:
  assumes "link (setMapping tid port url ct) sh1 h1 (insert tid used) \<and> good_envs es1 (insert tid used)"
    and "hBaseDomain h1 = hBaseDomain h \<and> hTcpHost h1 = hTcpHost h \<and> hSelf h1 = hSelf h \<and>
      (\<forall>f. fwTunnelID f \<noteq> tid \<longrightarrow> kept sh h sh1 h1 f)"
    and "loop_ok (setMapping tid port url ct) (sh1, h1) (insert tid used) ct' (sh', h', es') fs used'" "tid \<notin> used"
  shows "loop_ok ct (sh, h) used ct' (sh', h', es') (fwd tid port url # fs) used'"
proof -
  have "kept sh h sh' h' f" if "fwTunnelID f \<in> used" for f
  proof -
    have "fwTunnelID f \<noteq> tid" "fwTunnelID f \<in> insert tid used" using that assms(4) by auto
    then show ?thesis using assms(2,3) kept_trans by (fastforce simp: loop_ok_def)
  qed
  then show ?thesis using assms(2,3) by (auto simp: loop_ok_def setMapping_def fwd_def)
qed

lemma then_map_eq_Inr:
  assumes "then_map port scheme ct r = (s', Inr ct')"
  obtains url tid where "r = (s', Inr (url, tid))" "ct' = setMapping tid port (scheme @ url) ct"
  using assms by (auto simp: then_map_def split: prod.splits sum.splits)

lemma loop_http:
  assumes "registerPorts (server_peer cf) ps ct (sh, h, es) = ((sh', h', es'), Inr ct')" "link ct sh h used" "good_envs es used"
  shows "\<exists>fs used'. loop_ok ct (sh, h) used ct' (sh', h', es') fs used' \<and>
    list_all2 (named_fwd '''' (hBaseDomain h)) ps fs \<and> (\<forall>f \<in> set fs. http_backed sh' h' f)"
  using assms
proof (induction ps arbitrary: ct sh h es used)
  case (Cons p ps)
  obtain port sub where p: "p = (port, sub)" by fastforce
  from Cons.prems(1) obtain payload s1 ct1 where enc: "EncodeRegister port sub = Inr payload"
    and m: "then_map port '''' ct (registerOne (server_peer cf) MsgRegister payload (''register for port '' @ dec (unat port)) (sh, h, es)) = (s1, Inr ct1)"
    and rest: "registerPorts (server_peer cf) ps ct1 s1 = ((sh', h', es'), Inr ct')"
    by (auto simp: p split: sum.splits prod.splits)
  obtain sh1 h1 es1 where s1: "s1 = (sh1, h1, es1)" by (metis prod_cases3)
  from then_map_eq_Inr [OF m] obtain url tid where
    r: "registerOne (server_peer cf) MsgRegister payload (''register for port '' @ dec (unat port)) (sh, h, es) = ((sh1, h1, es1), Inr (url, tid))"
    and ct1: "ct1 = setMapping tid port url ct" unfolding s1 by auto
  note L = link_http [OF r enc Cons.prems(2,3)]
  have fresh: "tid \<notin> used" using L by blast
  from Cons.IH [OF rest [unfolded s1 ct1]] L obtain fs used' where
    ih: "loop_ok (setMapping tid port url ct) (sh1, h1) (insert tid used) ct' (sh', h', es') fs used'"
    "list_all2 (named_fwd '''' (hBaseDomain h)) ps fs" "\<forall>f \<in> set fs. http_backed sh' h' f" by fastforce
  have "loop_ok ct (sh, h) used ct' (sh', h', es') (fwd tid port url # fs) used'"
    by (rule loop_ok_step [OF _ _ ih(1) fresh]) (use L in auto)
  moreover have "http_backed sh' h' (fwd tid port url)"
    using ih(1) L by (auto simp: loop_ok_def kept_def fwd_def)
  ultimately show ?case using ih(2,3) L
    by (intro exI [of _ "fwd tid port url # fs"] exI [of _ used']) (simp add: p)
qed (auto intro: loop_ok_refl)

lemma loop_tcp:
  assumes "registerTCPs (server_peer cf) ps ct (sh, h, es) = ((sh', h', es'), Inr ct')" "link ct sh h used" "good_envs es used"
  shows "\<exists>fs used'. loop_ok ct (sh, h) used ct' (sh', h', es') fs used' \<and> map fwPort fs = map fst ps"
  using assms
proof (induction ps arbitrary: ct sh h es used)
  case (Cons p ps)
  obtain lp rp where p: "p = (lp, rp)" by fastforce
  let ?d = "''tcp register for port '' @ dec (unat lp)"
  from Cons.prems(1) obtain s1 ct1 where
    m: "then_map lp ''tcp://'' ct (registerOne (server_peer cf) MsgRegisterTCP (EncodeRegisterTCP lp rp) ?d (sh, h, es)) = (s1, Inr ct1)"
    and rest: "registerTCPs (server_peer cf) ps ct1 s1 = ((sh', h', es'), Inr ct')"
    by (auto simp: p split: sum.splits prod.splits)
  obtain sh1 h1 es1 where s1: "s1 = (sh1, h1, es1)" by (metis prod_cases3)
  from then_map_eq_Inr [OF m] obtain url tid where
    r: "registerOne (server_peer cf) MsgRegisterTCP (EncodeRegisterTCP lp rp) ?d (sh, h, es) = ((sh1, h1, es1), Inr (url, tid))"
    and ct1: "ct1 = setMapping tid lp (''tcp://'' @ url) ct" unfolding s1 by auto
  note L = link_tcp [OF r Cons.prems(2,3)]
  have fresh: "tid \<notin> used" using L by blast
  from Cons.IH [OF rest [unfolded s1 ct1]] L obtain fs used' where
    ih: "loop_ok (setMapping tid lp (''tcp://'' @ url) ct) (sh1, h1) (insert tid used) ct' (sh', h', es') fs used'"
    "map fwPort fs = map fst ps" by fastforce
  have "loop_ok ct (sh, h) used ct' (sh', h', es') (fwd tid lp (''tcp://'' @ url) # fs) used'"
    by (rule loop_ok_step [OF _ _ ih(1) fresh]) (use L in auto)
  then show ?case using ih(2)
    by (intro exI [of _ "fwd tid lp (''tcp://'' @ url) # fs"] exI [of _ used']) (simp add: p fwd_def)
qed (auto intro: loop_ok_refl)

lemma loop_tls:
  assumes "registerTLSs (server_peer cf) ps ct (sh, h, es) = ((sh', h', es'), Inr ct')" "link ct sh h used" "good_envs es used"
  shows "\<exists>fs used'. loop_ok ct (sh, h) used ct' (sh', h', es') fs used' \<and>
    list_all2 (named_fwd ''tls://'' (hBaseDomain h)) ps fs"
  using assms
proof (induction ps arbitrary: ct sh h es used)
  case (Cons p ps)
  obtain port sub where p: "p = (port, sub)" by fastforce
  let ?d = "''tls register for port '' @ dec (unat port)" and ?s = "''tls://''"
  from Cons.prems(1) obtain payload s1 ct1 where enc: "EncodeRegister port sub = Inr payload"
    and m: "then_map port ?s ct (registerOne (server_peer cf) MsgRegisterTLS payload ?d (sh, h, es)) = (s1, Inr ct1)"
    and rest: "registerTLSs (server_peer cf) ps ct1 s1 = ((sh', h', es'), Inr ct')"
    by (auto simp: p split: sum.splits prod.splits)
  obtain sh1 h1 es1 where s1: "s1 = (sh1, h1, es1)" by (metis prod_cases3)
  from then_map_eq_Inr [OF m] obtain url tid where
    r: "registerOne (server_peer cf) MsgRegisterTLS payload ?d (sh, h, es) = ((sh1, h1, es1), Inr (url, tid))"
    and ct1: "ct1 = setMapping tid port (?s @ url) ct" unfolding s1 by auto
  note L = link_tls [OF r enc Cons.prems(2,3)]
  have fresh: "tid \<notin> used" using L by blast
  from Cons.IH [OF rest [unfolded s1 ct1]] L obtain fs used' where
    ih: "loop_ok (setMapping tid port (?s @ url) ct) (sh1, h1) (insert tid used) ct' (sh', h', es') fs used'"
    "list_all2 (named_fwd ?s (hBaseDomain h)) ps fs" by fastforce
  have "loop_ok ct (sh, h) used ct' (sh', h', es') (fwd tid port (?s @ url) # fs) used'"
    by (rule loop_ok_step [OF _ _ ih(1) fresh]) (use L in auto)
  then show ?case using ih(2) L
    by (intro exI [of _ "fwd tid port (?s @ url) # fs"] exI [of _ used']) (simp add: p)
qed (auto intro: loop_ok_refl)

section \<open>Connect as a whole\<close>

lemma authenticate_server:
  assumes "authenticate (server_peer cf) token ver (sh, h, es) = ((sh', h', es'), Inr ())"
  obtains e where "es = e # es'" "sh' = sh" "resources_of h' = (resources_of h)\<lparr>rsAuth := True\<rparr>"
proof -
  from assms obtain payload resp where p: "EncodeAuth token ver = Inr payload"
    "exchange (server_peer cf) ''auth'' (reg_frame MsgAuth payload) (sh, h, es) = ((sh', h', es'), Inr resp)"
    "ftype resp = MsgAuthOK"
    by (auto simp: authenticate_def split: sum.splits prod.splits if_splits)
  have len: "length (Payload (reg_frame MsgAuth payload)) \<le> MaxFrameSize" using EncodeAuth_InrD [OF p(1)] by simp
  obtain e where e: "es = e # es'" "handleFrame cf e (reg_frame MsgAuth payload) (sh, h) = (sh', h')"
    "length (hOut h) < length (hOut h')" "DecodeFrame (last (hOut h')) = Inr resp"
    by (rule exchange_server [OF p(2) len])
  have ha: "handleAuth cf e (reg_frame MsgAuth payload) (sh, h) = (sh', h')" using e(2) by (simp add: handleFrame_def msg_defs)
  have dec: "DecodeAuth payload = Inr (token, ver)" using EncodeAuth_InrD [OF p(1)] by simp
  let ?w = "\<lambda>m p x. fst (writeMessage (eWriteOk e) m 0 0 p x)"
  have out: "hOut (snd (cleanup (sh, x))) = hOut x" for x by (simp add: cleanup_def Let_def hOut_fold_updReq)
  show thesis
  proof (cases "hExpectedToken h \<noteq> '''' \<and> hExpectedHash h \<noteq> cfSha256 cf (bytes_of token)")
    case True
    then have h': "(sh', h') = cleanup (sh, ?w MsgAuthErr (bytes_of ''invalid token'') h)"
      using ha dec by (simp add: handleAuth_def)
    then have o: "hOut h' = hOut (?w MsgAuthErr (bytes_of ''invalid token'') h)" using out by (metis snd_conv)
    have "ftype resp = MsgAuthErr"
      using e(3,4) DecodeFrame_ftype last_writeMessage [of h "eWriteOk e" MsgAuthErr 0 0 "bytes_of ''invalid token''"]
      unfolding o by fastforce
    with p(3) show thesis by (simp add: msg_defs)
  next
    case False
    then show thesis using ha dec
      by (intro that [OF e(1)]) (auto simp: handleAuth_def Let_def resources_of_def split: sum.splits)
  qed
qed

definition fresh_server :: "Shared \<Rightarrow> bool" where
  "fresh_server sh \<longleftrightarrow> reg_inv (shRegistry sh) \<and> (\<forall>g. shTLS sh = Some g \<longrightarrow> reg_inv g)"

lemma connect_link:
  assumes "Connect (server_peer cf) ver ct (sh, NewClientHandler cf self base token host, es) = ((sh', h', es'), Inr ct')"
    and "ctForwards ct = []" "fresh_server sh" "distinct (map new_id es)" "\<forall>e \<in> set es. good_rand e"
  shows "\<exists>fs1 fs2 fs3 used. link ct' sh' h' used \<and> ctForwards ct' = fs1 @ fs2 @ fs3 \<and>
    list_all2 (named_fwd '''' base) (named_ports ct) fs1 \<and> (\<forall>f \<in> set fs1. http_backed sh' h' f) \<and>
    map fwPort fs2 = map fst (ctTcp ct) \<and> list_all2 (named_fwd ''tls://'' base) (ctTls ct) fs3 \<and>
    hBaseDomain h' = base \<and> hTcpHost h' = host \<and> hSelf h' = self"
proof -
  let ?h = "NewClientHandler cf self base token host"
  obtain s1 s2 s3 c1 c2 where
    a: "authenticate (server_peer cf) (ctToken ct) ver (sh, ?h, es) = (s1, Inr ())"
    and b: "registerPorts (server_peer cf) (named_ports ct) ct s1 = (s2, Inr c1)"
    and c: "registerTCPs (server_peer cf) (ctTcp ct) c1 s2 = (s3, Inr c2)"
    and d: "registerTLSs (server_peer cf) (ctTls ct) c2 s3 = ((sh', h', es'), Inr ct')"
    using assms(1) by (auto simp: Connect_def split: prod.splits sum.splits unit.splits)
  obtain sh1 h1 es1 where s1: "s1 = (sh1, h1, es1)" by (metis prod_cases3)
  obtain sh2 h2 es2 where s2: "s2 = (sh2, h2, es2)" by (metis prod_cases3)
  obtain sh3 h3 es3 where s3: "s3 = (sh3, h3, es3)" by (metis prod_cases3)
  obtain e where e: "es = e # es1" "sh1 = sh" "resources_of h1 = (resources_of ?h)\<lparr>rsAuth := True\<rparr>"
    by (rule authenticate_server [OF a [unfolded s1]])
  have h1: "hAuthenticated h1" "hTunnels h1 = []" "hTcpTunnels h1 = []" "hTlsTunnels h1 = []" "hBaseDomain h1 = base"
    "hTcpHost h1 = host" "hSelf h1 = self"
    using e(3) by (simp_all add: resources_of_def NewClientHandler_def)
  have l1: "link ct sh1 h1 {}" using h1 assms(2,3) e(2) by (simp add: link_def fresh_server_def)
  have g1: "good_envs es1 {}" using assms(4,5) e(1) by (simp add: good_envs_def)
  from loop_http [OF b [unfolded s1 s2] l1 g1] obtain fs1 u1 where
    f1: "loop_ok ct (sh1, h1) {} c1 (sh2, h2, es2) fs1 u1" "list_all2 (named_fwd '''' base) (named_ports ct) fs1"
    "\<forall>f \<in> set fs1. http_backed sh2 h2 f" using h1 by auto
  have l2: "link c1 sh2 h2 u1" "good_envs es2 u1" using f1(1) by (simp_all add: loop_ok_def)
  from loop_tcp [OF c [unfolded s2 s3] l2] obtain fs2 u2 where
    f2: "loop_ok c1 (sh2, h2) u1 c2 (sh3, h3, es3) fs2 u2" "map fwPort fs2 = map fst (ctTcp ct)" by blast
  have l3: "link c2 sh3 h3 u2" "good_envs es3 u2" using f2(1) by (simp_all add: loop_ok_def)
  from loop_tls [OF d [unfolded s3] l3] obtain fs3 u3 where
    f3: "loop_ok c2 (sh3, h3) u2 ct' (sh', h', es') fs3 u3" "list_all2 (named_fwd ''tls://'' (hBaseDomain h3)) (ctTls ct) fs3"
    by blast
  have same: "hBaseDomain h3 = base" "hBaseDomain h' = base" "hTcpHost h' = host" "hSelf h' = self"
    using f1(1) f2(1) f3(1) h1 by (simp_all add: loop_ok_def)
  have "http_backed sh' h' f" if "f \<in> set fs1" for f
  proof -
    have "fwTunnelID f \<in> u1" using l2(1) f1(1) that assms(2) by (auto simp: link_def loop_ok_def)
    moreover have "u1 \<subseteq> u2" using f2(1) by (simp add: loop_ok_def)
    ultimately have "kept sh2 h2 sh3 h3 f" "kept sh3 h3 sh' h' f" using f2(1) f3(1) by (auto simp: loop_ok_def)
    then show ?thesis using f1(3) that by (simp add: kept_def)
  qed
  moreover have "ctForwards ct' = fs1 @ fs2 @ fs3" "link ct' sh' h' u3"
    using f1(1) f2(1) f3(1) assms(2) by (simp_all add: loop_ok_def)
  ultimately show ?thesis using f1(2) f2(2) f3(2) same by blast
qed

lemma portFor_link: "link ct sh h used \<Longrightarrow> f \<in> set (ctForwards ct) \<Longrightarrow> portFor ct (fwTunnelID f) = Some (fwPort f)"
proof -
  assume "link ct sh h used" "f \<in> set (ctForwards ct)"
  then have "distinct (map fwTunnelID (ctForwards ct))" by (simp add: link_def)
  moreover have "find (\<lambda>g. fwTunnelID g = fwTunnelID f) fs = Some f"
    if "distinct (map fwTunnelID fs)" "f \<in> set fs" for fs :: "CForward list"
    using that by (induction fs) auto
  ultimately show ?thesis using \<open>f \<in> set _\<close> by (simp add: portFor_def)
qed

lemma named_ports_nth:
  "length (named_ports ct) = length (ctPorts ct)"
  "i < length (ctPorts ct) \<Longrightarrow>
   named_ports ct ! i = (ctPorts ct ! i, if i < length (ctSubdomains ct) then ctSubdomains ct ! i else '''')"
  by (simp_all add: named_ports_def nth_enumerate_eq)

lemma named_fwd_ports: "list_all2 (named_fwd scheme base) ps fs \<Longrightarrow> map fwPort fs = map fst ps"
  by (induction rule: list_all2_induct) (auto simp: named_fwd_def)

text \<open>
  C5. Client and server agree after \<^verbatim>\<open>Connect\<close>: when it succeeds against the server, the client has one
  forward for every requested port, in the order HTTP, TCP, TLS; every forward is backed by a tunnel
  of this connection under the same ID, with the public name or port its URL shows actually
  registered or listening; requested subdomains are granted as asked; and looking a forward's tunnel
  ID up gives its local port, so no two forwards are confused.
\<close>

theorem connect_agrees:
  assumes "Connect (server_peer cf) ver ct (sh, NewClientHandler cf self base token host, es) = ((sh', h', es'), Inr ct')"
    and "ctForwards ct = []" "fresh_server sh" "distinct (map new_id es)" "\<forall>e \<in> set es. good_rand e"
  shows "map fwPort (ctForwards ct') = ctPorts ct @ map fst (ctTcp ct) @ map fst (ctTls ct) \<and>
    (\<forall>f \<in> set (ctForwards ct'). backed sh' h' f \<and> portFor ct' (fwTunnelID f) = Some (fwPort f)) \<and>
    (\<forall>i < length (ctPorts ct). http_backed sh' h' (ctForwards ct' ! i) \<and>
      (i < length (ctSubdomains ct) \<and> ctSubdomains ct ! i \<noteq> '''' \<longrightarrow>
        fwURL (ctForwards ct' ! i) = public_url (ctSubdomains ct ! i) base))"
proof -
  obtain fs1 fs2 fs3 used where l: "link ct' sh' h' used" and fs: "ctForwards ct' = fs1 @ fs2 @ fs3"
    and f1: "list_all2 (named_fwd '''' base) (named_ports ct) fs1" "\<forall>f \<in> set fs1. http_backed sh' h' f"
    and f2: "map fwPort fs2 = map fst (ctTcp ct)" and f3: "list_all2 (named_fwd ''tls://'' base) (ctTls ct) fs3"
    using connect_link [OF assms] by blast
  have len: "length fs1 = length (ctPorts ct)" using list_all2_lengthD [OF f1(1)] named_ports_nth(1) [of ct] by simp
  have "map fst (named_ports ct) = ctPorts ct"
    by (rule nth_equalityI) (simp_all add: named_ports_nth)
  then have "map fwPort (ctForwards ct') = ctPorts ct @ map fst (ctTcp ct) @ map fst (ctTls ct)"
    using named_fwd_ports [OF f1(1)] named_fwd_ports [OF f3] f2 by (simp add: fs)
  moreover have "backed sh' h' f \<and> portFor ct' (fwTunnelID f) = Some (fwPort f)" if "f \<in> set (ctForwards ct')" for f
    using l that portFor_link by (simp add: link_def)
  moreover have "http_backed sh' h' (ctForwards ct' ! i) \<and> (i < length (ctSubdomains ct) \<and> ctSubdomains ct ! i \<noteq> '''' \<longrightarrow>
      fwURL (ctForwards ct' ! i) = public_url (ctSubdomains ct ! i) base)" if "i < length (ctPorts ct)" for i
    using list_all2_nthD [OF f1(1), of i] f1(2) that len
    by (simp add: fs nth_append named_ports_nth named_fwd_def)
  ultimately show ?thesis by blast
qed

text \<open>
  C2. From public URL to local port: after a successful \<^verbatim>\<open>Connect\<close>, a public request whose host is the URL
  of the \<open>i\<close>-th HTTP forward, and which the access rules let pass, is sent to this client's connection
  under a tunnel ID for which the client looks up exactly the \<open>i\<close>-th local port it was told to expose.
\<close>

theorem public_url_reaches_local_port:
  assumes "Connect (server_peer cf) ver ct (sh, NewClientHandler cf self base token host, es) = ((sh', h', es'), Inr ct')"
    and "ctForwards ct = []" "fresh_server sh" "distinct (map new_id es)" "\<forall>e \<in> set es. good_rand e"
    and "i < length (ctPorts ct)" "rqHost r = fwURL (ctForwards ct' ! i)" "rpBaseDomain p = base"
    and "Allow (rpSha p) (rpProtect p) r = Allowed"
  shows "\<exists>t. serveChecks p (shRegistry sh') r (Some body) = ToTunnel t (buildRequest r body) \<and>
    tunHandler t = self \<and> portFor ct' (tunID t) = Some (ctPorts ct ! i)"
proof -
  obtain fs1 fs2 fs3 used where l: "link ct' sh' h' used" and fs: "ctForwards ct' = fs1 @ fs2 @ fs3"
    and f1: "list_all2 (named_fwd '''' base) (named_ports ct) fs1" "\<forall>f \<in> set fs1. http_backed sh' h' f"
    and base: "hBaseDomain h' = base" "hSelf h' = self"
    using connect_link [OF assms(1-5)] by blast
  have len: "length fs1 = length (ctPorts ct)" using list_all2_lengthD [OF f1(1)] named_ports_nth(1) [of ct] by simp
  let ?f = "ctForwards ct' ! i"
  have f: "?f \<in> set (ctForwards ct')" "http_backed sh' h' ?f" "fwPort ?f = ctPorts ct ! i"
    using f1 list_all2_nthD [OF f1(1), of i] assms(6) len
    by (simp_all add: fs nth_append named_ports_nth named_fwd_def)
  from f(2) obtain t where t: "tunID t = fwTunnelID ?f" "tunHandler t = self" "Get (shRegistry sh') (tunSubdomain t) = Some t"
    "tunSubdomain t \<noteq> ''''" "validSubdomain (tunSubdomain t)" "fwURL ?f = public_url (tunSubdomain t) base"
    using base by (auto simp: http_backed_def)
  have "extractSubdomain (rqHost r) (rpBaseDomain p) = tunSubdomain t"
    using extractSubdomain_public_host [OF t(5,4), of base] assms(7,8) t(6) by (simp add: public_url_def)
  then show ?thesis using t f(3) portFor_link [OF l f(1)] assms(9) by (simp add: serveChecks_def)
qed

definition sample_tunnel_client :: ClientTunnel where
  "sample_tunnel_client = NewTunnel '''' [8080] [''app''] [] []"

definition sample_envs :: "env list" where
  "sample_envs = [sample_env, sample_env\<lparr>eIdRand := Some [0, 0, 0, 0, 0, 0, 0, 8]\<rparr>]"

definition sample_open_handler :: ClientHandler where
  "sample_open_handler = NewClientHandler sample_config 1 ''x.io'' '''' ''x.io''"

lemma Decode_Encode: "length (Payload f) \<le> MaxFrameSize \<Longrightarrow> DecodeFrame (EncodeFrame f) = Inr f"
  using DecodeFrame_EncodeFrame [of f "[]"] by simp

lemma sample_auth_exchange:
  "\<exists>h. authenticate (server_peer sample_config) '''' ''1.0'' (sample_shared, sample_open_handler, sample_envs) =
     ((sample_shared, h, tl sample_envs), Inr ()) \<and> h = (sample_open_handler\<lparr>hAuthenticated := True, hClientVersion := ''1.0'', hOut := hOut h\<rparr>)"
proof -
  have a: "EncodeAuth '''' ''1.0'' = Inr [0, 0, 0, 3, 49, 46, 48]"
    by (simp add: EncodeAuth_def writeString_def limit_defs bytes_of_def put_be_def)
  have d: "DecodeAuth [0, 0, 0, 3, 49, 46, 48] = Inr ('''', ''1.0'')" using EncodeAuth_InrD [OF a] by simp
  have k: "EncodeAuthOK ''1.2'' = Inr [0, 3, 49, 46, 50]"
    by (simp add: EncodeAuthOK_def writeString_def limit_defs bytes_of_def put_be_def)
  have m: "length (Payload (reg_frame m [0, 0, 0, 3, 49, 46, 48])) \<le> MaxFrameSize"
    "length (Payload (reg_frame m [0, 3, 49, 46, 50])) \<le> MaxFrameSize" for m
    by (simp_all add: MaxFrameSize_def MaxBodySize_def)
  show ?thesis
    by (simp add: authenticate_def a exchange_def server_peer_def sample_envs_def Decode_Encode [OF m(1)] handleFrame_def
        handleAuth_def d k sample_config_def sample_open_handler_def NewClientHandler_def writeMessage_def Let_def
        sample_env_def Decode_Encode [OF m(2)]) (simp add: msg_defs)
qed

lemma sample_connect:
  "\<exists>sh' h' es' ct'. Connect (server_peer sample_config) ''1.0'' sample_tunnel_client
     (sample_shared, sample_open_handler, sample_envs) = ((sh', h', es'), Inr ct')"
proof -
  let ?p = "[0x1F, 0x90, 3, 97, 112, 112] :: bytes" and ?e = "sample_env\<lparr>eIdRand := Some [0, 0, 0, 0, 0, 0, 0, 8]\<rparr>"
  let ?f = "reg_frame MsgRegister ?p" and ?t = "\<lparr>tunID = 8, tunSubdomain = ''app'', tunHandler = 1\<rparr>"
  obtain h where a: "authenticate (server_peer sample_config) '''' ''1.0'' (sample_shared, sample_open_handler, sample_envs) =
      ((sample_shared, h, tl sample_envs), Inr ())" and h: "h = (sample_open_handler\<lparr>hAuthenticated := True, hClientVersion := ''1.0'', hOut := hOut h\<rparr>)"
    using sample_auth_exchange by blast
  have enc: "EncodeRegister 8080 ''app'' = Inr ?p"
    by (simp add: EncodeRegister_def limit_defs bytes_of_def put_be_def)
  have h2: "hAuthenticated h" "hHasConn h" "hTunnelCount h = 0" "hBaseDomain h = ''x.io''" "hSelf h = 1"
    by (subst h, simp add: sample_open_handler_def NewClientHandler_def)+
  have acc: "reg_accepts ?e ?f h = Some ''app''"
    using EncodeRegister_InrD [OF enc] h2
    by (simp add: reg_accepts_def wanted_name_def validSubdomain_def subdomain_char_def public_url_def limit_defs)
  obtain g where reg: "Register ''app'' (hSelf h) (eIdRand ?e) (shRegistry sample_shared) = (g, Inr ?t)"
    using h2 by (simp add: Register_def sample_shared_def NewRegistry_def get_be_def Let_def)
  let ?h1 = "h\<lparr>hTunnels := AList.update (tunID ?t) ?t (hTunnels h), hTunnelCount := hTunnelCount h + 1\<rparr>"
  have hf: "handleFrame sample_config ?e ?f (sample_shared, h) = (sample_shared\<lparr>shRegistry := g\<rparr>, reg_done ?e ''app'' ?t ?h1)"
    using handleRegister_ok [OF acc reg, of sample_config] h2 by (simp add: handleFrame_def msg_defs)
  obtain p where p: "EncodeRegisterOK (public_url ''app'' ''x.io'') 8 = Inr p" "length p \<le> MaxFrameSize"
    "DecodeRegisterOK p = Inr (public_url ''app'' ''x.io'', 8)"
    using regOkC.decode_enc [of "(public_url ''app'' ''x.io'', 8)"]
    by (simp add: EncodeRegisterOK_def public_url_def MaxFrameSize_def MaxBodySize_def)
  have out: "hOut (reg_done ?e ''app'' ?t ?h1) = hOut h @ [EncodeFrame \<lparr>ftype = MsgRegisterOK, TunnelID = 8, RequestID = 0, Payload = p\<rparr>]"
    using h2 p(1) by (simp add: reg_done_def hOut_writeMessage reply_payload_def sample_env_def)
  obtain sh3 h3 where s3: "handleFrame sample_config ?e ?f (sample_shared, h) = (sh3, h3)"
    "hOut h3 = hOut h @ [EncodeFrame \<lparr>ftype = MsgRegisterOK, TunnelID = 8, RequestID = 0, Payload = p\<rparr>]"
    using hf out by blast
  have df: "DecodeFrame (EncodeFrame ?f) = Inr ?f" by (rule Decode_Encode) (simp add: MaxFrameSize_def MaxBodySize_def)
  have dr: "DecodeFrame (EncodeFrame \<lparr>ftype = MsgRegisterOK, TunnelID = 8, RequestID = 0, Payload = p\<rparr>) =
      Inr \<lparr>ftype = MsgRegisterOK, TunnelID = 8, RequestID = 0, Payload = p\<rparr>"
    by (rule Decode_Encode) (simp add: p(2))
  have ty: "MsgRegisterOK \<noteq> MsgRegisterErr" "MsgRegisterOK \<noteq> MsgError" by (simp_all add: msg_defs)
  have r: "registerOne (server_peer sample_config) MsgRegister ?p desc (sample_shared, h, tl sample_envs) =
      ((sh3, h3, []), Inr (public_url ''app'' ''x.io'', 8))" for desc
    by (simp add: registerOne_def exchange_def server_peer_def sample_envs_def df s3 dr p(3) ty)
  have n: "named_ports sample_tunnel_client = [(8080, ''app'')]"
    by (simp add: named_ports_def sample_tunnel_client_def NewTunnel_def)
  have c: "ctToken sample_tunnel_client = ''''" "ctTcp sample_tunnel_client = []" "ctTls sample_tunnel_client = []"
    by (simp_all add: sample_tunnel_client_def NewTunnel_def)
  show ?thesis unfolding Connect_def c n a by (simp add: enc r then_map_def split: unit.split)
qed

lemma sample_envs_good: "distinct (map new_id sample_envs) \<and> (\<forall>e \<in> set sample_envs. good_rand e)"
  by (simp add: sample_envs_def new_id_def sample_env_def generateTunnelID_def get_be_def good_rand_def)

theorem connect_agrees_witness:
  "\<exists>sh' h' es' ct'. Connect (server_peer sample_config) ''1.0'' sample_tunnel_client
     (sample_shared, NewClientHandler sample_config 1 ''x.io'' '''' ''x.io'', sample_envs) = ((sh', h', es'), Inr ct') \<and>
     map fwPort (ctForwards ct') = [8080] \<and> fwURL (ctForwards ct' ! 0) = ''app.x.io''"
proof -
  obtain sh' h' es' ct' where c: "Connect (server_peer sample_config) ''1.0'' sample_tunnel_client
      (sample_shared, NewClientHandler sample_config 1 ''x.io'' '''' ''x.io'', sample_envs) = ((sh', h', es'), Inr ct')"
    using sample_connect unfolding sample_open_handler_def by blast
  from connect_agrees [OF c] sample_envs_good c show ?thesis
    by (auto simp: sample_tunnel_client_def NewTunnel_def fresh_server_def sample_shared_def public_url_def)
qed

theorem public_url_reaches_local_port_witness:
  "\<exists>sh' h' es' ct' t. Connect (server_peer sample_config) ''1.0'' sample_tunnel_client
     (sample_shared, NewClientHandler sample_config 1 ''x.io'' '''' ''x.io'', sample_envs) = ((sh', h', es'), Inr ct') \<and>
     serveChecks sample_proxy (shRegistry sh') (sample_visit\<lparr>rqHost := fwURL (ctForwards ct' ! 0)\<rparr>) (Some []) =
       ToTunnel t (buildRequest (sample_visit\<lparr>rqHost := fwURL (ctForwards ct' ! 0)\<rparr>) []) \<and> portFor ct' (tunID t) = Some 8080"
proof -
  obtain sh' h' es' ct' where c: "Connect (server_peer sample_config) ''1.0'' sample_tunnel_client
      (sample_shared, NewClientHandler sample_config 1 ''x.io'' '''' ''x.io'', sample_envs) = ((sh', h', es'), Inr ct')"
    using sample_connect unfolding sample_open_handler_def by blast
  let ?r = "sample_visit\<lparr>rqHost := fwURL (ctForwards ct' ! 0)\<rparr>"
  have "\<exists>t. serveChecks sample_proxy (shRegistry sh') ?r (Some []) = ToTunnel t (buildRequest ?r []) \<and>
      tunHandler t = 1 \<and> portFor ct' (tunID t) = Some (ctPorts sample_tunnel_client ! 0)"
    by (rule public_url_reaches_local_port [OF c])
      (use sample_envs_good in \<open>simp_all add: sample_tunnel_client_def NewTunnel_def fresh_server_def sample_shared_def
        sample_proxy_def Allow_def enabled_def\<close>)
  with c show ?thesis by (auto simp: sample_tunnel_client_def NewTunnel_def)
qed

end
