(* ===== verification/ProxyFlow.thy ===== *)
theory ProxyFlow
  imports Proxy Relay
begin

text \<open>
  The life of one public HTTP request after the checks, \<^verbatim>\<open>ServeHTTP\<close>, \<^verbatim>\<open>pumpRequestBody\<close> and
  \<^verbatim>\<open>streamResponse\<close> in \<^verbatim>\<open>internal/server/proxy.go\<close>, as a machine: the goroutine that serves the
  request, the one that uploads a large request body, and the read loop of the client connection take
  turns, and every list of events is one interleaving of them. WebSocket relays follow at the end.
\<close>

section \<open>Serving a request\<close>

text \<open>What the upload goroutine has still to do.\<close>

datatype pump = NoPump | PumpPrefix bytes | PumpRest | PumpDone

record turn =
  tuData :: bytes
  tuErr :: bool
  tuWok :: bool
  tuWokClose :: bool

definition request_done :: "u64 \<Rightarrow> ClientHandler \<Rightarrow> bool" where
  "request_done rid h \<longleftrightarrow> (case map_of (hReqs h) rid of None \<Rightarrow> True | Some pr \<Rightarrow> prDone pr)"

text \<open>
  One round of the upload: first the prefix, then what each \<^verbatim>\<open>Read\<close> returns (data and whether it
  came with an error), and \<^verbatim>\<open>SendStreamClose\<close> on the way out.
\<close>

definition pumpRequestBody :: "turn \<Rightarrow> u64 \<Rightarrow> pump \<times> ClientHandler \<Rightarrow> pump \<times> ClientHandler" where
  "pumpRequestBody tu rid st = (case st of (p, h) \<Rightarrow>
     let finish = (\<lambda>h. (PumpDone, fst (SendStreamClose (tuWokClose tu) rid h))) in
     case p of
       NoPump \<Rightarrow> st
     | PumpDone \<Rightarrow> st
     | PumpPrefix pre \<Rightarrow>
         (case SendStreamData (tuWok tu) rid pre h of
            (h1, ok) \<Rightarrow> if \<not> ok then finish h1 else (PumpRest, h1))
     | PumpRest \<Rightarrow>
         if request_done rid h then finish h
         else
           let (h1, ok) = (if length (tuData tu) > 0 then SendStreamData (tuWok tu) rid (tuData tu) h else (h, True))
           in if \<not> ok \<or> tuErr tu then finish h1 else (PumpRest, h1))"

datatype servePhase = Waiting | Sending | Finished

text \<open>\<open>sgRead\<close> is what has been read of the visitor's body, \<open>sgStreamed\<close> whether \<^verbatim>\<open>streamResponse\<close> was entered.\<close>

record serving =
  sgReq :: u64
  sgPhase :: servePhase
  sgStreamed :: bool
  sgPump :: pump
  sgRead :: bytes
  sgW :: ResponseWriter

definition tunnel_error :: ResponseWriter where
  "tunnel_error = http_error ''tunnel error'' 502 new_writer"

definition serveStart :: "bool \<Rightarrow> Tunnel \<Rightarrow> HTTPRequest \<Rightarrow> bytes \<Rightarrow> ClientHandler \<Rightarrow> ClientHandler \<times> serving" where
  "serveStart wok tunnel req body h =
     (case startForward wok (tunID tunnel) req (Some []) h of
        (h1, Inl _) \<Rightarrow>
          (h1, \<lparr>sgReq = hRequestIDSeq h1, sgPhase = Finished, sgStreamed = False, sgPump = NoPump,
                sgRead = body, sgW = tunnel_error\<rparr>)
      | (h1, Inr requestID) \<Rightarrow>
          (h1, \<lparr>sgReq = requestID, sgPhase = Waiting, sgStreamed = False,
                sgPump = (if reqBodyStreamed req then PumpPrefix body else NoPump),
                sgRead = body, sgW = new_writer\<rparr>))"

text \<open>The response is in: \<^verbatim>\<open>writeNormalResponse\<close>, or the head of \<^verbatim>\<open>streamResponse\<close>.\<close>

definition streamHead :: "HTTPResponse \<Rightarrow> ResponseWriter \<Rightarrow> ResponseWriter" where
  "streamHead resp w =
     write_header (unat (respStatusCode resp))
       (setSecurityDefaults (copyValidHeaders (respHeaders resp) w_add w))"

definition streamEnd :: "bool \<Rightarrow> u64 \<Rightarrow> ClientHandler \<Rightarrow> ClientHandler" where
  "streamEnd wok rid h = finishForward rid (fst (SendStreamClose wok rid h))"

definition serveResponse :: "bool \<Rightarrow> HTTPResponse \<Rightarrow> ClientHandler \<times> serving \<Rightarrow> ClientHandler \<times> serving" where
  "serveResponse wokClose resp st = (case st of (h, sg) \<Rightarrow>
     if \<not> respBodyStreamed resp
     then (finishForward (sgReq sg) h, sg\<lparr>sgPhase := Finished, sgW := writeNormalResponse resp (sgW sg)\<rparr>)
     else
       let w = streamHead resp (sgW sg)
       in if wPanic w
          then (streamEnd wokClose (sgReq sg) h, sg\<lparr>sgPhase := Finished, sgStreamed := True, sgW := w\<rparr>)
          else (h, sg\<lparr>sgPhase := Sending, sgStreamed := True, sgW := w\<rparr>))"

text \<open>One round of the loop in \<^verbatim>\<open>streamResponse\<close>; \<open>idle\<close> takes the timer case.\<close>

definition streamRound :: "bool \<Rightarrow> bool \<Rightarrow> bool \<Rightarrow> ClientHandler \<times> serving \<Rightarrow> ClientHandler \<times> serving" where
  "streamRound idle wok wokClose st = (case st of (h, sg) \<Rightarrow>
     let stop = (\<lambda>h. (streamEnd wokClose (sgReq sg) h, sg\<lparr>sgPhase := Finished\<rparr>)) in
     if idle then stop h
     else case map_of (hReqs h) (sgReq sg) of
       None \<Rightarrow> st
     | Some pr \<Rightarrow>
         (case prStreamData pr of
            None \<Rightarrow> st
          | Some [] \<Rightarrow> if prStreamClosed pr then stop h else st
          | Some (d # q) \<Rightarrow>
              let h1 = updReq (sgReq sg) (\<lambda>pr. pr\<lparr>prStreamData := Some q\<rparr>) h
              in if \<not> wok then stop h1 else (h1, sg\<lparr>sgW := write_body d (sgW sg)\<rparr>)))"

datatype event =
    Arrives env Frame
  | PumpTurn turn
  | Timer
  | Response bool
  | Round bool bool bool

type_synonym serve_state = "Shared \<times> ClientHandler \<times> serving"

fun serveStep :: "config \<Rightarrow> event \<Rightarrow> serve_state \<Rightarrow> serve_state" where
  "serveStep cf (Arrives e f) (sh, h, sg) = (case handleFrame cf e f (sh, h) of (sh', h') \<Rightarrow> (sh', h', sg))"
| "serveStep cf (PumpTurn tu) (sh, h, sg) =
     (let took = (if sgPump sg = PumpRest \<and> \<not> request_done (sgReq sg) h then tuData tu else [])
      in case pumpRequestBody tu (sgReq sg) (sgPump sg, h) of
           (p, h') \<Rightarrow> (sh, h', sg\<lparr>sgPump := p, sgRead := sgRead sg @ took\<rparr>))"
| "serveStep cf Timer (sh, h, sg) =
     (if sgPhase sg \<noteq> Waiting then (sh, h, sg)
      else case awaitResponse True (sgReq sg) h of
        Some (h', Inl _) \<Rightarrow> (sh, finishForward (sgReq sg) h', sg\<lparr>sgPhase := Finished, sgW := tunnel_error\<rparr>)
      | _ \<Rightarrow> (sh, h, sg))"
| "serveStep cf (Response wokClose) (sh, h, sg) =
     (if sgPhase sg \<noteq> Waiting then (sh, h, sg)
      else case awaitResponse False (sgReq sg) h of
        Some (h', Inr resp) \<Rightarrow> (sh, serveResponse wokClose resp (h', sg))
      | _ \<Rightarrow> (sh, h, sg))"
| "serveStep cf (Round idle wok wokClose) (sh, h, sg) =
     (if sgPhase sg \<noteq> Sending then (sh, h, sg) else (sh, streamRound idle wok wokClose (h, sg)))"

definition serve :: "config \<Rightarrow> bool \<Rightarrow> Tunnel \<Rightarrow> HTTPRequest \<Rightarrow> bytes \<Rightarrow> event list \<Rightarrow> hstate \<Rightarrow> serve_state" where
  "serve cf wok tunnel req body evs st = (case st of (sh, h) \<Rightarrow>
     fold (serveStep cf) evs (sh, serveStart wok tunnel req body h))"

section \<open>Frames never add a request\<close>

lemma pending_frame:
  "set (hPending (snd (handleFrame cf e f (sh, h)))) \<subseteq> set (hPending h)"
proof -
  have if_sub: "set (hPending (snd (if P then x else y))) \<subseteq> A"
    if "P \<Longrightarrow> set (hPending (snd x)) \<subseteq> A" "\<not> P \<Longrightarrow> set (hPending (snd y)) \<subseteq> A" for P A and x y :: hstate
    using that by simp
  have reg: "set (hPending (snd (handleRegister cf e f (sh, h)))) \<subseteq> set (hPending h)"
    "set (hPending (snd (handleRegisterTLS cf e f (sh, h)))) \<subseteq> set (hPending h)"
    "set (hPending (snd (handleRegisterTCP cf e f (sh, h)))) \<subseteq> set (hPending h)"
    "set (hPending (snd (handleUnregister e f (sh, h)))) \<subseteq> set (hPending h)"
    by (auto simp: handleRegister_def handleRegisterTLS_def handleRegisterTCP_def handleUnregister_def
        Let_def split: sum.splits option.splits prod.splits)
  have "hPending (snd (cleanup (sh, h))) = (if hDone h then hPending h else [])" for h
    by (simp add: cleanup_def Let_def)
  then have "set (hPending (snd (cleanup (sh, h)))) \<subseteq> set (hPending h)"
    "set (hPending (snd (handleAuth cf e f (sh, h)))) \<subseteq> set (hPending h)"
    by (auto simp: handleAuth_def Let_def split: sum.split)
  then show ?thesis
    unfolding handleFrame_def prod.case
    by (intro if_sub reg)
      (auto simp: handleTCPReady_def handleHTTPRes_def handleStreamData_def handleStreamClose_def Let_def
        split: sum.splits option.splits)
qed

lemma pump_view [simp]:
  "hReqs (snd (pumpRequestBody tu rid (p, h))) = hReqs h"
  "hPending (snd (pumpRequestBody tu rid (p, h))) = hPending h"
  "hAuthenticated (snd (pumpRequestBody tu rid (p, h))) = hAuthenticated h"
  by (auto simp: pumpRequestBody_def Let_def SendStreamData_def SendStreamClose_def split: pump.splits prod.splits
      dest!: arg_cong [where f = fst])

lemma pump_viewD:
  assumes "pumpRequestBody tu rid (p, h) = (p', h')"
  shows "hReqs h' = hReqs h" "hPending h' = hPending h" "hAuthenticated h' = hAuthenticated h"
  using pump_view [of tu rid p h] unfolding assms by simp_all

section \<open>A visitor is answered\<close>

definition quiet :: "u64 \<Rightarrow> event \<Rightarrow> bool" where
  "quiet rid ev \<longleftrightarrow> (case ev of Arrives e f \<Rightarrow> unrelated rid f | PumpTurn tu \<Rightarrow> True | Timer \<Rightarrow> False
     | Response wc \<Rightarrow> True | Round i w wc \<Rightarrow> True)"

definition not_taken :: "event \<Rightarrow> bool" where
  "not_taken ev \<longleftrightarrow> (case ev of Timer \<Rightarrow> False | Response wc \<Rightarrow> False | _ \<Rightarrow> True)"

text \<open>The serving goroutine waits for \<open>rid\<close> and has written nothing.\<close>

definition fresh_serving :: "u64 \<Rightarrow> serving \<Rightarrow> bool" where
  "fresh_serving rid sg \<longleftrightarrow> sgReq sg = rid \<and> sgPhase sg = Waiting \<and> sgW sg = new_writer"

lemma waiting_view:
  "waiting rid h \<Longrightarrow> hReqs h' = hReqs h \<Longrightarrow> hPending h' = hPending h \<Longrightarrow> hAuthenticated h' = hAuthenticated h \<Longrightarrow>
   waiting rid h'"
  by (simp add: waiting_def req_view_def)

lemma waiting_await: "waiting rid h \<Longrightarrow> awaitResponse False rid h = None"
  by (auto simp: waiting_def req_view_def awaitResponse_def)

lemma quiet_step:
  assumes "waiting rid h" "fresh_serving rid sg" "quiet rid ev" "serveStep cf ev (sh, h, sg) = (sh', h', sg')"
  shows "waiting rid h' \<and> fresh_serving rid sg'"
proof (cases ev)
  case (Arrives e f)
  then show ?thesis
    using assms waiting_frames [of rid h "[(e, f)]" cf sh]
    by (auto simp: quiet_def frames_between_def split: prod.splits)
next
  case (PumpTurn tu)
  then show ?thesis
    using assms waiting_view [OF assms(1), of "snd (pumpRequestBody tu rid (sgPump sg, h))"]
    by (auto simp: fresh_serving_def Let_def split: prod.splits)
next
  case (Response wc)
  then show ?thesis using assms waiting_await [OF assms(1)] by (auto simp: fresh_serving_def)
qed (use assms in \<open>auto simp: quiet_def fresh_serving_def\<close>)

lemma quiet_steps:
  "waiting rid h \<Longrightarrow> fresh_serving rid sg \<Longrightarrow> \<forall>ev \<in> set evs. quiet rid ev \<Longrightarrow>
   fold (serveStep cf) evs (sh, h, sg) = (sh', h', sg') \<Longrightarrow> waiting rid h' \<and> fresh_serving rid sg'"
proof (induction evs arbitrary: sh h sg)
  case (Cons ev evs)
  obtain sh1 h1 sg1 where s: "serveStep cf ev (sh, h, sg) = (sh1, h1, sg1)" by (metis prod_cases3)
  have "waiting rid h1 \<and> fresh_serving rid sg1"
    by (rule quiet_step [OF Cons.prems(1,2) _ s]) (use Cons.prems(3) in simp)
  with Cons.IH [of h1 sg1 sh1] Cons.prems s show ?case by simp
qed simp

lemma answered_step:
  assumes "answered rid resp h" "fresh_serving rid sg" "not_taken ev" "serveStep cf ev (sh, h, sg) = (sh', h', sg')"
  shows "answered rid resp h' \<and> fresh_serving rid sg'"
proof (cases ev)
  case (Arrives e f)
  then show ?thesis using assms answered_frame [OF assms(1), of cf e f sh] by (auto split: prod.splits)
next
  case (PumpTurn tu)
  then show ?thesis
    using assms answered_view [of rid "snd (pumpRequestBody tu rid (sgPump sg, h))" h resp]
    by (auto simp: fresh_serving_def req_view_def Let_def split: prod.splits)
qed (use assms in \<open>auto simp: not_taken_def fresh_serving_def\<close>)

lemma answered_steps:
  "answered rid resp h \<Longrightarrow> fresh_serving rid sg \<Longrightarrow> \<forall>ev \<in> set evs. not_taken ev \<Longrightarrow>
   fold (serveStep cf) evs (sh, h, sg) = (sh', h', sg') \<Longrightarrow> answered rid resp h' \<and> fresh_serving rid sg'"
proof (induction evs arbitrary: sh h sg)
  case (Cons ev evs)
  obtain sh1 h1 sg1 where s: "serveStep cf ev (sh, h, sg) = (sh1, h1, sg1)" by (metis prod_cases3)
  have "answered rid resp h1 \<and> fresh_serving rid sg1"
    by (rule answered_step [OF Cons.prems(1,2) _ s]) (use Cons.prems(3) in simp)
  with Cons.IH [of h1 sg1 sh1] Cons.prems s show ?case by simp
qed simp

text \<open>Once finished, the answer stays and the request stays gone.\<close>

definition over :: "u64 \<Rightarrow> ResponseWriter \<Rightarrow> serve_state \<Rightarrow> bool" where
  "over rid w st \<longleftrightarrow> (case st of (sh, h, sg) \<Rightarrow>
     sgReq sg = rid \<and> sgPhase sg = Finished \<and> sgW sg = w \<and> rid \<notin> set (hPending h))"

lemma over_step: "over rid w st \<Longrightarrow> over rid w (serveStep cf ev st)"
proof (induction cf ev st rule: serveStep.induct)
  case (1 cf e f sh h sg)
  then show ?case using pending_frame [of cf e f sh h] by (auto simp: over_def split: prod.splits)
next
  case (2 cf tu sh h sg)
  then show ?case by (auto simp: over_def Let_def pump_viewD split: prod.splits)
qed (auto simp: over_def)

lemma over_steps: "over rid w st \<Longrightarrow> over rid w (fold (serveStep cf) evs st)"
  by (induction evs arbitrary: st) (simp_all only: fold_simps over_step)

lemma serveStart_waiting:
  assumes "hAuthenticated h" "hHasConn h" "EncodeHTTPRequest req = Inr payload" "length payload \<le> MaxFrameSize"
  obtains h1 sg where "serveStart True t req body h = (h1, sg)" "waiting (hRequestIDSeq h + 1) h1"
    "fresh_serving (hRequestIDSeq h + 1) sg"
    "hOut h1 = hOut h @ [EncodeFrame \<lparr>ftype = MsgHTTPReq, TunnelID = tunID t,
       RequestID = hRequestIDSeq h + 1, Payload = payload\<rparr>]"
proof -
  obtain h1 where h1: "startForward True (tunID t) req (Some []) h = (h1, Inr (hRequestIDSeq h + 1))"
    "waiting (hRequestIDSeq h + 1) h1"
    "hOut h1 = hOut h @ [EncodeFrame \<lparr>ftype = MsgHTTPReq, TunnelID = tunID t,
       RequestID = hRequestIDSeq h + 1, Payload = payload\<rparr>]"
    using startForward_waiting [OF assms] by blast
  with that show thesis by (simp add: serveStart_def fresh_serving_def)
qed

lemma serve_buffered_response:
  assumes "answered rid resp h" "fresh_serving rid sg" "\<not> respBodyStreamed resp"
  shows "over rid (writeNormalResponse resp new_writer) (serveStep cf (Response wc) (sh, h, sg))"
proof -
  obtain h' where "awaitResponse False rid h = Some (h', Inr resp)" using answered_await [OF assms(1)] by blast
  then show ?thesis using assms(2,3)
    by (simp add: over_def fresh_serving_def serveResponse_def finishForward_not_pending)
qed

lemma serve_answered:
  assumes "hAuthenticated h" "hHasConn h" "EncodeHTTPRequest req = Inr payload" "length payload \<le> MaxFrameSize"
    and "\<forall>ev \<in> set pre. quiet (hRequestIDSeq h + 1) ev"
    and "ftype f = MsgHTTPRes" "RequestID f = hRequestIDSeq h + 1"
    and "DecodeHTTPResponse (Payload f) = Inr resp" "\<not> respBodyStreamed resp"
    and "\<forall>ev \<in> set mid. not_taken ev"
    and "serve cf True t req body (pre @ Arrives e f # mid @ Response wc # post) (sh, h) = (sh', h', sg)"
  shows "sgPhase sg = Finished \<and> sgW sg = writeNormalResponse resp new_writer \<and>
    hRequestIDSeq h + 1 \<notin> set (hPending h')"
proof -
  let ?rid = "hRequestIDSeq h + 1" and ?step = "fold (serveStep cf)"
  obtain h1 sg1 where s1: "serveStart True t req body h = (h1, sg1)" "waiting ?rid h1" "fresh_serving ?rid sg1"
    using serveStart_waiting [OF assms(1-4)] by blast
  obtain sh2 h2 sg2 where s2: "?step pre (sh, h1, sg1) = (sh2, h2, sg2)" by (metis prod_cases3)
  then have w2: "waiting ?rid h2" "fresh_serving ?rid sg2" using quiet_steps [OF s1(2,3) assms(5)] by simp_all
  obtain sh3 h3 where s3: "handleFrame cf e f (sh2, h2) = (sh3, h3)" by fastforce
  have a3: "answered ?rid resp h3" using waiting_response [OF w2(1) assms(6-8), of cf e sh2] s3 by simp
  obtain sh4 h4 sg4 where s4: "?step mid (sh3, h3, sg2) = (sh4, h4, sg4)" by (metis prod_cases3)
  then have a4: "answered ?rid resp h4" "fresh_serving ?rid sg4"
    using answered_steps [OF a3 w2(2) assms(10)] by simp_all
  have "over ?rid (writeNormalResponse resp new_writer) (?step post (serveStep cf (Response wc) (sh4, h4, sg4)))"
    by (intro over_steps serve_buffered_response [OF a4 assms(9)])
  moreover have "?step post (serveStep cf (Response wc) (sh4, h4, sg4)) = (sh', h', sg)"
    using assms(11) s1(1) s2 s3 s4 by (simp add: serve_def)
  ultimately show ?thesis by (simp add: over_def)
qed

text \<open>
  C7. A visitor gets the client's answer: once the request is on the wire, let anything happen that is
  not a frame for this request, the end of the connection or the timeout (upload rounds included),
  then a response frame with this request's ID, then anything but the timeout until the serving
  goroutine wakes up. Then the request is over: the visitor has been sent exactly that response, no
  later event changes it, and the request is not pending any more.
\<close>

theorem visitor_gets_first_response:
  assumes "hAuthenticated h" "hHasConn h" "EncodeHTTPRequest req = Inr payload" "length payload \<le> MaxFrameSize"
    and "\<forall>ev \<in> set pre. quiet (hRequestIDSeq h + 1) ev"
    and "ftype f = MsgHTTPRes" "RequestID f = hRequestIDSeq h + 1"
    and "DecodeHTTPResponse (Payload f) = Inr resp" "\<not> respBodyStreamed resp"
    and "\<forall>ev \<in> set mid. not_taken ev"
    and "serve cf True t req body (pre @ Arrives e f # mid @ Response wc # post) (sh, h) = (sh', h', sg)"
  shows "sgPhase sg = Finished \<and> sgW sg = writeNormalResponse resp new_writer \<and>
    hRequestIDSeq h + 1 \<notin> set (hPending h')"
  by (rule serve_answered [OF assms])

theorem visitor_gets_first_response_witness:
  "\<exists>sh' h' sg. serve sample_config True \<lparr>tunID = 7, tunSubdomain = ''a'', tunHandler = 1\<rparr> sample_req []
       ([] @ Arrives sample_env sample_resp_frame # [] @ Response True # []) (sample_shared, sample_client) = (sh', h', sg) \<and>
     sgPhase sg = Finished \<and> sgW sg = writeNormalResponse sample_resp new_writer"
proof -
  obtain sh' h' sg where s: "serve sample_config True \<lparr>tunID = 7, tunSubdomain = ''a'', tunHandler = 1\<rparr> sample_req []
      ([] @ Arrives sample_env sample_resp_frame # [] @ Response True # []) (sample_shared, sample_client) = (sh', h', sg)"
    by (metis prod_cases3)
  have "\<forall>ev \<in> set []. quiet (hRequestIDSeq sample_client + 1) ev" "\<forall>ev \<in> set []. not_taken ev" by simp_all
  with s visitor_gets_first_response [OF _ _ sample_req_enc _ _ _ _ sample_resp_dec _ _ s] show ?thesis
    by (simp add: sample_client_def NewClientHandler_def MaxFrameSize_def MaxBodySize_def sample_resp_def)
      (simp add: sample_resp_frame_def)
qed

section \<open>Bodies in both directions\<close>

definition recv :: "u64 \<Rightarrow> event list \<Rightarrow> bytes" where
  "recv rid evs = concat (map (\<lambda>ev. case ev of
       Arrives e f \<Rightarrow> if ftype f = MsgStreamData \<and> RequestID f = rid then Payload f else []
     | _ \<Rightarrow> []) evs)"

lemma recv_append [simp]: "recv rid (xs @ ys) = recv rid xs @ recv rid ys"
  by (simp add: recv_def)

lemma recv_one [simp]:
  "recv rid [Arrives e f] = (if ftype f = MsgStreamData \<and> RequestID f = rid then Payload f else [])"
  "recv rid [PumpTurn tu] = []" "recv rid [Timer] = []" "recv rid [Response wc] = []" "recv rid [Round i w wc] = []"
  "recv rid [] = []"
  by (simp_all add: recv_def)

text \<open>A response being streamed is a relay whose public side is the response body.\<close>

definition rl_of :: "serving \<Rightarrow> bytes \<Rightarrow> relay" where
  "rl_of sg out = \<lparr>rlReq = sgReq sg, rlPhase = (if sgPhase sg = Waiting then AwaitReady else Pumping),
     rlConnOpen = True, rlDraining = (sgPhase sg = Sending), rlOut = out\<rparr>"

lemma rl_of_fields [simp]:
  "rlReq (rl_of sg out) = sgReq sg" "rlOut (rl_of sg out) = out" "rlConnOpen (rl_of sg out)"
  "rlDraining (rl_of sg out) \<longleftrightarrow> sgPhase sg = Sending" "active (rl_of sg out) \<longleftrightarrow> sgPhase sg \<noteq> Finished"
  by (auto simp: rl_of_def active_def) (metis relayPhase.distinct(1) servePhase.exhaust)

definition takes_body :: "ResponseWriter \<Rightarrow> bool" where
  "takes_body w \<longleftrightarrow> \<not> wPanic w \<and> (case wStatus w of None \<Rightarrow> True | Some c \<Rightarrow> body_allowed c)"

definition serve_down :: "bytes \<Rightarrow> ClientHandler \<Rightarrow> serving \<Rightarrow> bool" where
  "serve_down S h sg \<longleftrightarrow> (\<exists>out. down_inv S h (rl_of sg out) \<and>
     (sgPhase sg = Waiting \<longrightarrow> out = [] \<and> \<not> sgStreamed sg \<and> sgW sg = new_writer) \<and>
     (sgPhase sg = Sending \<longrightarrow> sgStreamed sg) \<and>
     (sgStreamed sg \<longrightarrow> wBody (sgW sg) = (if takes_body (sgW sg) then out else [])))"

lemma write_body_takes:
  "takes_body (write_body d w) = takes_body w"
  "wBody (write_body d w) = (if takes_body w then wBody w @ d else wBody w)"
  by (auto simp: write_body_def takes_body_def body_allowed_def Let_def split: option.splits)

lemma streamHead_body: "wBody (streamHead resp new_writer) = []"
  using w_add_fields [of "respHeaders resp" new_writer]
  by (simp add: streamHead_def write_header_def new_writer_def)

lemma down_inv_stopped:
  "down_inv S h rl \<Longrightarrow> \<not> active rl' \<Longrightarrow> rlReq rl' = rlReq rl \<Longrightarrow> rlOut rl' = rlOut rl \<Longrightarrow> down_inv S h rl'"
  by (auto simp: down_inv_def)

lemma down_inv_finish:
  assumes "down_inv S h rl" "rlReq rl = rid"
  shows "down_inv S (finishForward rid h) rl"
proof -
  have "down_inv (S @ []) (finishForward rid h) rl"
    by (rule down_inv_weaken [OF assms(1), where f = closeDone])
      (use assms in \<open>simp_all add: finishForward_def\<close>, simp add: down_inv_def)
  then show ?thesis by simp
qed

lemma down_inv_await:
  assumes "down_inv S h rl" "awaitResponse fired rid h = Some (h', r)" "rlReq rl = rid"
  shows "down_inv S h' rl"
proof (cases fired)
  case True
  then show ?thesis using assms down_inv_finish by (auto simp: awaitResponse_def)
next
  case False
  then show ?thesis using assms by (auto simp: awaitResponse_def down_inv_def split: option.splits list.splits)
qed

lemma serve_down_end:
  assumes "down_inv S h (rl_of sg out)" "sgReq sg' = sgReq sg" "sgPhase sg' = Finished"
    and "sgStreamed sg' \<Longrightarrow> wBody (sgW sg') = (if takes_body (sgW sg') then out else [])"
  shows "serve_down S (finishForward (sgReq sg) h) sg'"
proof -
  have "down_inv S (finishForward (sgReq sg) h) (rl_of sg' out)"
    by (rule down_inv_stopped [OF down_inv_finish [OF assms(1)]]) (use assms in simp_all)
  then show ?thesis using assms(3,4) by (auto simp: serve_down_def)
qed

lemma serve_down_streamEnd:
  assumes "down_inv S h (rl_of sg out)" "sgReq sg' = sgReq sg" "sgPhase sg' = Finished"
    and "sgStreamed sg' \<Longrightarrow> wBody (sgW sg') = (if takes_body (sgW sg') then out else [])"
  shows "serve_down S (streamEnd wc (sgReq sg) h) sg'"
  unfolding streamEnd_def by (rule serve_down_end [OF down_inv_send(2) [OF assms(1)] assms(2-4)])

lemma serve_down_response:
  assumes "serve_down S h sg" "sgPhase sg = Waiting"
  shows "serve_down S (fst (serveResponse wc resp (h, sg))) (snd (serveResponse wc resp (h, sg)))"
proof -
  from assms have inv: "down_inv S h (rl_of sg [])" "\<not> sgStreamed sg" "sgW sg = new_writer"
    by (auto simp: serve_down_def)
  have body: "wBody (streamHead resp (sgW sg)) = []" by (simp add: inv streamHead_body)
  have sending: "down_inv S h (rl_of (sg\<lparr>sgPhase := Sending, sgStreamed := True, sgW := w\<rparr>) [])" for w
    using inv(1) assms(2) by (simp add: down_inv_def)
  show ?thesis
  proof (cases "\<not> respBodyStreamed resp \<or> wPanic (streamHead resp (sgW sg))")
    case True
    then show ?thesis
      using serve_down_end [OF inv(1), of "sg\<lparr>sgPhase := Finished, sgW := writeNormalResponse resp (sgW sg)\<rparr>"]
        serve_down_streamEnd [OF inv(1), of "sg\<lparr>sgPhase := Finished, sgStreamed := True, sgW := streamHead resp (sgW sg)\<rparr>"]
        inv(2) body by (simp add: serveResponse_def Let_def)
  next
    case False
    then show ?thesis using sending body by (auto simp: serveResponse_def Let_def serve_down_def)
  qed
qed

lemma serve_down_round:
  assumes "serve_down S h sg" "sgPhase sg = Sending"
  shows "serve_down S (fst (streamRound i w wc (h, sg))) (snd (streamRound i w wc (h, sg)))"
proof -
  from assms obtain out where inv: "down_inv S h (rl_of sg out)"
    and body: "wBody (sgW sg) = (if takes_body (sgW sg) then out else [])" and st: "sgStreamed sg"
    by (auto simp: serve_down_def)
  from inv obtain pr q where pr: "map_of (hReqs h) (sgReq sg) = Some pr" "prStreamData pr = Some q"
    by (auto simp: down_inv_def)
  let ?sg = "sg\<lparr>sgPhase := Finished\<rparr>"
  have stop: "serve_down S (streamEnd wc (sgReq sg) x) ?sg" if "down_inv S x (rl_of sg out)" for x
    by (rule serve_down_streamEnd [OF that]) (use body in simp_all)
  show ?thesis
  proof (cases "i \<or> q = []")
    case True
    then show ?thesis using stop [OF inv] assms(1) pr by (auto simp: streamRound_def Let_def)
  next
    case False
    then obtain d q' where q: "q = d # q'" by (cases q) auto
    let ?h = "updReq (sgReq sg) (\<lambda>pr. pr\<lparr>prStreamData := Some q'\<rparr>) h"
    have late: "drains_late (rl_of sg out)" using assms(2) by (simp add: drains_late_def rl_of_def)
    have d: "relayDrain False True (h, rl_of sg out) = (?h, (rl_of sg out)\<lparr>rlOut := out @ d\<rparr>)"
      "fst (relayDrain False False (h, rl_of sg out)) = ?h"
      using pr q assms(2) by (simp_all add: relayDrain_def Let_def)
    show ?thesis
    proof (cases w)
      case True
      have "down_inv S ?h (rl_of (sg\<lparr>sgW := write_body d (sgW sg)\<rparr>) (out @ d))"
        using down_inv_drain [OF inv late, of False True] d(1) by (simp add: rl_of_def)
      then have "serve_down S ?h (sg\<lparr>sgW := write_body d (sgW sg)\<rparr>)"
        unfolding serve_down_def using body st assms(2)
        by (intro exI [of _ "out @ d"]) (simp add: write_body_takes)
      then show ?thesis using True False pr q by (simp add: streamRound_def Let_def)
    next
      case False
      have dr: "relayDrain False False (h, rl_of sg out) = (?h, (rl_of sg out)\<lparr>rlConnOpen := False, rlDraining := False\<rparr>)"
        using pr q assms(2) by (simp add: relayDrain_def Let_def)
      have "down_inv S ?h ((rl_of sg out)\<lparr>rlConnOpen := False, rlDraining := False\<rparr>)"
        using down_inv_drain [OF inv late, of False False] dr by simp
      then have "down_inv S ?h (rl_of ?sg out)"
        by (rule down_inv_stopped) simp_all
      then have "serve_down S (streamEnd wc (sgReq ?sg) ?h) ?sg"
        by (rule serve_down_streamEnd) (use body in simp_all)
      then show ?thesis using False pr q \<open>\<not> (i \<or> q = [])\<close> by (simp add: streamRound_def Let_def)
    qed
  qed
qed

lemma serve_down_transfer:
  assumes "serve_down S h sg" "\<And>out. down_inv S h (rl_of sg out) \<Longrightarrow> down_inv S' h' (rl_of sg out)"
    and "sgReq sg' = sgReq sg" "sgPhase sg' = sgPhase sg" "sgStreamed sg' = sgStreamed sg" "sgW sg' = sgW sg"
  shows "serve_down S' h' sg'"
proof -
  have "rl_of sg' = rl_of sg" by (simp add: fun_eq_iff rl_of_def assms)
  then show ?thesis using assms(1,2) unfolding serve_down_def assms(4-6) by metis
qed

lemma serve_down_step:
  assumes "serve_down S h sg" "serveStep cf ev (sh, h, sg) = (sh', h', sg')"
  shows "serve_down (S @ recv (sgReq sg) [ev]) h' sg'"
proof (cases ev)
  case (Arrives e f)
  then obtain s: "handleFrame cf e f (sh, h) = (sh', h')" and sg': "sg' = sg"
    using assms(2) by (auto split: prod.splits)
  show ?thesis unfolding Arrives recv_one sg'
    by (rule serve_down_transfer [OF assms(1)]) (drule down_inv_frame [OF _ s], simp_all)
next
  case (PumpTurn tu)
  obtain p h1 where p: "pumpRequestBody tu (sgReq sg) (sgPump sg, h) = (p, h1)" by fastforce
  have "down_inv S h1 rl" if "down_inv S h rl" for rl by (rule down_inv_out [OF that]) (use pump_viewD [OF p] in simp_all)
  then show ?thesis
    by (intro serve_down_transfer [OF assms(1)]) (use assms(2) PumpTurn p in \<open>auto simp: Let_def\<close>)
next
  case Timer
  show ?thesis
  proof (cases "sgPhase sg = Waiting")
    case True
    from assms(1) True have "down_inv S h (rl_of sg [])" "\<not> sgStreamed sg" by (auto simp: serve_down_def)
    from down_inv_finish [OF this(1)] this(2) show ?thesis
      using serve_down_end [of S "finishForward (sgReq sg) h" sg "[]" "sg\<lparr>sgPhase := Finished, sgW := tunnel_error\<rparr>"]
        assms(2) Timer True by (auto simp: awaitResponse_def)
  qed (use assms Timer in simp)
next
  case (Response wc)
  show ?thesis
  proof (cases "sgPhase sg = Waiting \<and> awaitResponse False (sgReq sg) h \<noteq> None")
    case True
    then obtain h1 r where a: "awaitResponse False (sgReq sg) h = Some (h1, Inr r)"
      by (auto simp: awaitResponse_def split: option.splits list.splits)
    have "serve_down S h1 sg" by (rule serve_down_transfer [OF assms(1)]) (simp_all add: down_inv_await [OF _ a])
    moreover have "serveResponse wc r (h1, sg) = (h', sg')" using True a assms(2) Response by simp
    ultimately show ?thesis using serve_down_response [of S h1 sg wc r] True Response by simp
  qed (use assms Response in \<open>auto split: option.splits\<close>)
next
  case (Round i w wc)
  then show ?thesis using assms serve_down_round [OF assms(1), of i w wc]
    by (cases "sgPhase sg = Sending") auto
qed

text \<open>The upload: what was sent as stream data of this request since \<open>B\<close>.\<close>

definition serve_up :: "bytes \<Rightarrow> ClientHandler \<Rightarrow> serving \<Rightarrow> bool" where
  "serve_up B h sg \<longleftrightarrow> (case sgPump sg of
       NoPump \<Rightarrow> stream_out (sgReq sg) (hOut h) = B
     | PumpPrefix pre \<Rightarrow> stream_out (sgReq sg) (hOut h) = B \<and> sgRead sg = pre \<and> length pre \<le> MaxFrameSize
     | PumpRest \<Rightarrow> stream_out (sgReq sg) (hOut h) = B @ sgRead sg
     | PumpDone \<Rightarrow> \<exists>X. stream_out (sgReq sg) (hOut h) = B @ X \<and> prefix X (sgRead sg))"

lemma serve_up_same:
  "serve_up B h sg \<Longrightarrow> stream_out (sgReq sg) (hOut h') = stream_out (sgReq sg) (hOut h) \<Longrightarrow>
   sgPump sg' = sgPump sg \<Longrightarrow> sgReq sg' = sgReq sg \<Longrightarrow> sgRead sg' = sgRead sg \<Longrightarrow> serve_up B h' sg'"
  unfolding serve_up_def by presburger

lemma hOut_fields [simp]:
  "hOut (updReq rid f h) = hOut h" "hOut (finishForward rid h) = hOut h"
  "stream_out rid (hOut (streamEnd wc rid' h)) = stream_out rid (hOut h)"
  by (simp_all add: updReq_def finishForward_def streamEnd_def)

lemma serve_up_pump:
  assumes "serve_up B h sg" "length (tuData tu) \<le> MaxFrameSize"
    and "pumpRequestBody tu (sgReq sg) (sgPump sg, h) = (p, h')"
  shows "serve_up B h' (sg\<lparr>sgPump := p, sgRead := sgRead sg @
    (if sgPump sg = PumpRest \<and> \<not> request_done (sgReq sg) h then tuData tu else [])\<rparr>)"
proof (cases "sgPump sg")
  case (PumpPrefix pre)
  obtain h1 ok where s: "SendStreamData (tuWok tu) (sgReq sg) pre h = (h1, ok)" by fastforce
  have "stream_out (sgReq sg) (hOut h1) = B @ (if ok then pre else [])"
    using send_data_out [OF s] assms(1) PumpPrefix by (simp add: serve_up_def)
  then show ?thesis using assms(1,3) PumpPrefix s
    by (auto simp: pumpRequestBody_def Let_def serve_up_def split: if_splits)
next
  case PumpRest
  obtain h1 ok where s: "(if length (tuData tu) > 0 then SendStreamData (tuWok tu) (sgReq sg) (tuData tu) h
      else (h, True)) = (h1, ok)" by fastforce
  have "stream_out (sgReq sg) (hOut h1) = B @ sgRead sg @ (if ok then tuData tu else [])"
    using s send_data_out [of "tuWok tu" "sgReq sg" "tuData tu" h h1 ok] assms(1,2) PumpRest
    by (auto simp: serve_up_def split: if_splits)
  then show ?thesis using assms(1,3) PumpRest s
    by (auto simp: pumpRequestBody_def Let_def serve_up_def split: if_splits)
qed (use assms in \<open>simp_all add: pumpRequestBody_def serve_up_def Let_def\<close>)

lemma hOut_await: "awaitResponse fired rid h = Some (h', r) \<Longrightarrow> hOut h' = hOut h"
  by (auto simp: awaitResponse_def split: if_splits option.splits list.splits)

lemma serving_kept:
  "stream_out rid (hOut (fst (serveResponse wc r (h, sg)))) = stream_out rid (hOut h)"
  "stream_out rid (hOut (fst (streamRound i w wc (h, sg)))) = stream_out rid (hOut h)"
  "sgPump (snd (serveResponse wc r (h, sg))) = sgPump sg" "sgPump (snd (streamRound i w wc (h, sg))) = sgPump sg"
  "sgReq (snd (serveResponse wc r (h, sg))) = sgReq sg" "sgReq (snd (streamRound i w wc (h, sg))) = sgReq sg"
  "sgRead (snd (serveResponse wc r (h, sg))) = sgRead sg" "sgRead (snd (streamRound i w wc (h, sg))) = sgRead sg"
  by (simp_all add: serveResponse_def streamRound_def Let_def split: option.split list.split)

definition small_turn :: "event \<Rightarrow> bool" where
  "small_turn ev \<longleftrightarrow> (case ev of PumpTurn tu \<Rightarrow> length (tuData tu) \<le> StreamBufSize | _ \<Rightarrow> True)"

lemma serve_up_step:
  assumes "serve_up B h sg" "small_turn ev" "serveStep cf ev (sh, h, sg) = (sh', h', sg')"
  shows "serve_up B h' sg' \<and> sgReq sg' = sgReq sg"
proof (cases ev)
  case (Arrives e f)
  then obtain "handleFrame cf e f (sh, h) = (sh', h')" "sg' = sg" using assms(3) by (auto split: prod.splits)
  then show ?thesis using serve_up_same [OF assms(1) stream_out_frame] by blast
next
  case (PumpTurn tu)
  obtain p h1 where p: "pumpRequestBody tu (sgReq sg) (sgPump sg, h) = (p, h1)" by fastforce
  have "length (tuData tu) \<le> MaxFrameSize"
    using assms(2) PumpTurn by (simp add: small_turn_def limit_defs MaxFrameSize_def MaxBodySize_def)
  from serve_up_pump [OF assms(1) this p] show ?thesis using assms(3) PumpTurn p by (auto simp: Let_def)
next
  case Timer
  then show ?thesis using assms(3) serve_up_same [OF assms(1)]
    by (cases "sgPhase sg = Waiting") (auto simp: assms(1) awaitResponse_def)
next
  case (Response wc)
  show ?thesis
  proof (cases "sgPhase sg = Waiting \<and> awaitResponse False (sgReq sg) h \<noteq> None")
    case True
    then obtain h1 r where a: "awaitResponse False (sgReq sg) h = Some (h1, Inr r)"
      by (auto simp: awaitResponse_def split: option.splits list.splits)
    then have e: "serveResponse wc r (h1, sg) = (h', sg')" using True assms(3) Response by simp
    show ?thesis using serve_up_same [OF assms(1), of h' sg'] serving_kept(1,3,5,7) [where wc = wc and r = r and h = h1 and sg = sg] hOut_await [OF a]
      unfolding e by simp
  qed (use assms Response in \<open>auto split: option.splits\<close>)
next
  case (Round i w wc)
  show ?thesis
  proof (cases "sgPhase sg = Sending")
    case True
    then have e: "streamRound i w wc (h, sg) = (h', sg')" using Round assms(3) by simp
    show ?thesis using serve_up_same [OF assms(1), of h' sg'] serving_kept(2,4,6,8) [where i = i and w = w and wc = wc and h = h and sg = sg]
      unfolding e by simp
  qed (use assms Round in simp)
qed

lemma serve_start_inv:
  assumes "hAuthenticated h0" "length body \<le> MaxFrameSize" "serveStart wok t req body h0 = (h, sg)"
  shows "serve_down [] h sg \<and> serve_up (stream_out (hRequestIDSeq h0 + 1) (hOut h0)) h sg \<and> sgReq sg = hRequestIDSeq h0 + 1"
proof -
  have "sgReq sg = hRequestIDSeq h0 + 1" using assms(3)
    by (auto simp: serveStart_def startForward_def nextRequestID_def addPending_def writeMessage_def finishForward_def
        updReq_def removePending_def Let_def split: sum.splits if_splits option.splits)
  moreover have "down_inv [] h (rl_of sg [])" using assms
    by (auto simp: serveStart_def startForward_def nextRequestID_def addPending_def writeMessage_def finishForward_def
        down_inv_def update_conv' updReq_def removePending_def closeDone_def Let_def
        split: sum.splits if_splits option.splits)
  moreover have "stream_out (sgReq sg) (hOut h) = stream_out (sgReq sg) (hOut h0)" using assms(3)
    by (auto simp: serveStart_def startForward_def nextRequestID_def addPending_def writeMessage_def Let_def msg_defs
        split: sum.splits if_splits)
  ultimately show ?thesis using assms(2,3)
    by (auto simp: serve_down_def serve_up_def serveStart_def split: prod.splits sum.splits)
qed

lemma serve_inv:
  assumes "serve_down S h sg" "serve_up B h sg" "\<forall>ev \<in> set evs. small_turn ev"
    and "fold (serveStep cf) evs (sh, h, sg) = (sh', h', sg')"
  shows "serve_down (S @ recv (sgReq sg) evs) h' sg' \<and> serve_up B h' sg' \<and> sgReq sg' = sgReq sg"
  using assms
proof (induction evs arbitrary: S sh h sg)
  case (Cons ev evs)
  obtain sh1 h1 sg1 where s: "serveStep cf ev (sh, h, sg) = (sh1, h1, sg1)" by (metis prod_cases3)
  have up: "serve_up B h1 sg1 \<and> sgReq sg1 = sgReq sg"
    by (rule serve_up_step [OF Cons.prems(2) _ s]) (use Cons.prems(3) in simp)
  note dn = serve_down_step [OF Cons.prems(1) s]
  have "recv (sgReq sg) (ev # evs) = recv (sgReq sg) [ev] @ recv (sgReq sg) evs" by (simp add: recv_def)
  with Cons.IH [OF dn, of sh1] up Cons.prems(3,4) s show ?case by simp
qed simp

text \<open>
  C6. Streamed bodies, both ways, under every interleaving: what the visitor has received of a streamed
  response is an initial piece of what the client sent for it (nothing where the status allows no
  body), and all of it as long as the request is pending and the queue drained; what went out to the
  client as stream data of this request is an initial piece of what was read from the visitor's
  body, prefix first, and all of it while the upload runs. Nothing is sent for a body that fits into
  the request itself.
\<close>

theorem streamed_bodies_in_order:
  assumes "hAuthenticated h0" "length body \<le> InlineBodyLimit + 1" "\<forall>ev \<in> set evs. small_turn ev"
    and "serve cf wok t req body evs (sh0, h0) = (sh, h, sg)"
  defines "rid \<equiv> hRequestIDSeq h0 + 1"
  shows "(sgStreamed sg \<longrightarrow> prefix (wBody (sgW sg)) (recv rid evs) \<and>
      (sgPhase sg = Sending \<and> takes_body (sgW sg) \<and> rid \<in> set (hPending h) \<and>
        map_option prStreamData (map_of (hReqs h) rid) = Some (Some []) \<longrightarrow> wBody (sgW sg) = recv rid evs)) \<and>
    (\<exists>X. stream_out rid (hOut h) = stream_out rid (hOut h0) @ X \<and> prefix X (sgRead sg) \<and>
      (sgPump sg = NoPump \<longrightarrow> X = []) \<and> (sgPump sg = PumpRest \<longrightarrow> X = sgRead sg))"
proof -
  obtain h1 sg1 where s: "serveStart wok t req body h0 = (h1, sg1)" by fastforce
  have "length body \<le> MaxFrameSize" using assms(2) by (simp add: limit_defs MaxFrameSize_def MaxBodySize_def)
  note st = serve_start_inv [OF assms(1) this s]
  have "fold (serveStep cf) evs (sh0, h1, sg1) = (sh, h, sg)" using assms(4) s by (simp add: serve_def)
  from serve_inv [OF _ _ assms(3) this, of "[]" "stream_out rid (hOut h0)"] st
  have inv: "serve_down (recv rid evs) h sg" "serve_up (stream_out rid (hOut h0)) h sg" "sgReq sg = rid"
    by (simp_all add: rid_def)
  from inv(1) obtain out where out: "down_inv (recv rid evs) h (rl_of sg out)"
    "sgStreamed sg \<longrightarrow> wBody (sgW sg) = (if takes_body (sgW sg) then out else [])"
    by (auto simp: serve_down_def)
  then have down: "prefix out (recv rid evs)"
    "sgPhase sg = Sending \<Longrightarrow> rid \<in> set (hPending h) \<Longrightarrow>
     map_option prStreamData (map_of (hReqs h) rid) = Some (Some []) \<Longrightarrow> out = recv rid evs"
    using inv(3) by (auto simp: down_inv_def)
  have "\<exists>X. stream_out rid (hOut h) = stream_out rid (hOut h0) @ X \<and> prefix X (sgRead sg) \<and>
      (sgPump sg = NoPump \<longrightarrow> X = []) \<and> (sgPump sg = PumpRest \<longrightarrow> X = sgRead sg)"
    using inv(2,3) by (cases "sgPump sg") (auto simp: serve_up_def)
  then show ?thesis using out(2) down by simp
qed

definition sample_tunnel :: Tunnel where
  "sample_tunnel = \<lparr>tunID = 7, tunSubdomain = ''a'', tunHandler = 1\<rparr>"

definition sample_upload :: HTTPRequest where
  "sample_upload = sample_req\<lparr>reqBodyStreamed := True\<rparr>"

definition sample_turns :: "event list" where
  "sample_turns = [PumpTurn \<lparr>tuData = [], tuErr = False, tuWok = True, tuWokClose = True\<rparr>,
     PumpTurn \<lparr>tuData = [9], tuErr = False, tuWok = True, tuWokClose = True\<rparr>]"

lemma sample_upload_enc: "\<exists>p. EncodeHTTPRequest sample_upload = Inr p \<and> length p \<le> MaxFrameSize"
  by (simp add: sample_upload_def sample_req_def EncodeHTTPRequest_def writeString_def writeHeaders_def writeBody_def
      limit_defs bytes_of_def put_be_def MaxFrameSize_def MaxBodySize_def)

lemma sample_upload_run:
  assumes "serve sample_config True sample_tunnel sample_upload [5] sample_turns (sample_shared, sample_client) = (sh, h, sg)"
  shows "sgPump sg = PumpRest \<and> sgRead sg = [5, 9]"
proof -
  obtain p where p: "EncodeHTTPRequest sample_upload = Inr p" "length p \<le> MaxFrameSize"
    using sample_upload_enc by blast
  show ?thesis using assms p
    by (auto simp: serve_def sample_turns_def serveStart_def startForward_def nextRequestID_def addPending_def
        writeMessage_def SendStreamData_def pumpRequestBody_def request_done_def sample_upload_def
        sample_client_def NewClientHandler_def Let_def)
qed

theorem streamed_bodies_in_order_witness:
  "\<exists>sh h sg. serve sample_config True sample_tunnel sample_upload [5] sample_turns (sample_shared, sample_client) = (sh, h, sg) \<and>
     stream_out 1 (hOut h) = [5, 9]"
proof -
  obtain sh h sg where s: "serve sample_config True sample_tunnel sample_upload [5] sample_turns (sample_shared, sample_client) = (sh, h, sg)"
    by (metis prod_cases3)
  have "hAuthenticated sample_client" "hRequestIDSeq sample_client = 0" "hOut sample_client = []"
    "\<forall>ev \<in> set sample_turns. small_turn ev" "length [5 :: u8] \<le> InlineBodyLimit + 1"
    by (simp_all add: sample_client_def NewClientHandler_def sample_turns_def small_turn_def StreamBufSize_def)
  with streamed_bodies_in_order [OF _ _ _ s] sample_upload_run [OF s] s show ?thesis by auto
qed

section \<open>WebSocket relays\<close>

datatype wsOut = WsAnswered ResponseWriter | WsClosed | WsRelaying u64 string

text \<open>
  \<^verbatim>\<open>serveWebSocket\<close> up to the two goroutines. Whether the connection can be hijacked, whether that
  succeeds and whether the head can be flushed are arguments; the result is \<^const>\<open>None\<close> while the
  response is awaited.
\<close>

definition serveWebSocket ::
  "config \<Rightarrow> bool \<Rightarrow> bool \<Rightarrow> (env \<times> Frame) list \<Rightarrow> bool \<Rightarrow> bool \<Rightarrow> bool \<Rightarrow> Tunnel \<Rightarrow> HTTPRequest \<Rightarrow> hstate \<Rightarrow>
   (hstate \<times> wsOut) option" where
  "serveWebSocket cf wok fired fs canHijack hijackOk flushOk tunnel req st =
     (case forward cf wok fired fs (tunID tunnel) req (Some []) st of
        None \<Rightarrow> None
      | Some (st', Inl _) \<Rightarrow> Some (st', WsAnswered tunnel_error)
      | Some ((sh, h), Inr (requestID, resp)) \<Rightarrow>
          let h1 = forwardCleanup requestID (Some []) h in
          if respStatusCode resp \<noteq> 101 then Some ((sh, h1), WsAnswered (writeNormalResponse resp new_writer))
          else if \<not> canHijack then Some ((sh, h1), WsAnswered (http_error ''hijacking not supported'' 500 new_writer))
          else if \<not> hijackOk then Some ((sh, h1), WsAnswered (http_error ''hijack error'' 500 new_writer))
          else if \<not> flushOk then Some ((sh, h1), WsClosed)
          else Some ((sh, h), WsRelaying requestID (upgrade_head resp)))"

text \<open>
  The relay: \<open>rlPhase\<close> is \<open>Pumping\<close> while the reading goroutine runs, \<open>rlDraining\<close> says that the
  writing one does.
\<close>

definition wsRelay :: "u64 \<Rightarrow> relay" where
  "wsRelay rid = \<lparr>rlReq = rid, rlPhase = Pumping, rlConnOpen = True, rlDraining = True, rlOut = []\<rparr>"

definition wsRead :: "bytes \<Rightarrow> bool \<Rightarrow> bool \<Rightarrow> bool \<Rightarrow> ClientHandler \<times> relay \<Rightarrow> ClientHandler \<times> relay" where
  "wsRead data err wok wokClose st = (case st of (h, rl) \<Rightarrow>
     let stop = (\<lambda>h. (fst (SendStreamClose wokClose (rlReq rl) h), rl\<lparr>rlPhase := Ended\<rparr>)) in
     if rlPhase rl \<noteq> Pumping then st
     else if err \<or> \<not> rlConnOpen rl then stop h
     else case SendStreamData wok (rlReq rl) data h of
       (h1, ok) \<Rightarrow> if \<not> ok then stop h1 else (h1, rl))"

definition wsWrite :: "bool \<Rightarrow> ClientHandler \<times> relay \<Rightarrow> ClientHandler \<times> relay" where
  "wsWrite wok st = (case st of (h, rl) \<Rightarrow>
     if \<not> rlDraining rl then st
     else case map_of (hReqs h) (rlReq rl) of
       None \<Rightarrow> st
     | Some pr \<Rightarrow>
         (case prStreamData pr of
            None \<Rightarrow> st
          | Some [] \<Rightarrow> if prStreamClosed pr then (h, rl\<lparr>rlConnOpen := False, rlDraining := False\<rparr>) else st
          | Some (d # q) \<Rightarrow>
              let h1 = updReq (rlReq rl) (\<lambda>pr. pr\<lparr>prStreamData := Some q\<rparr>) h
              in if wok \<and> rlConnOpen rl then (h1, rl\<lparr>rlOut := rlOut rl @ d\<rparr>)
                 else (h1, rl\<lparr>rlDraining := False\<rparr>)))"

text \<open>After \<^verbatim>\<open>wg.Wait\<close>: the connection is closed and the request forgotten.\<close>

definition wsWait :: "ClientHandler \<times> relay \<Rightarrow> ClientHandler \<times> relay" where
  "wsWait st = (case st of (h, rl) \<Rightarrow>
     if rlPhase rl = Ended \<and> \<not> rlDraining rl
     then (forwardCleanup (rlReq rl) (Some []) h, rl\<lparr>rlConnOpen := False\<rparr>) else st)"

datatype wsEvent = WsArrives env Frame | WsRead bytes bool bool bool | WsWrite bool | WsWait

fun wsStep :: "config \<Rightarrow> wsEvent \<Rightarrow> Shared \<times> ClientHandler \<times> relay \<Rightarrow> Shared \<times> ClientHandler \<times> relay" where
  "wsStep cf (WsArrives e f) (sh, h, rl) = (case handleFrame cf e f (sh, h) of (sh', h') \<Rightarrow> (sh', h', rl))"
| "wsStep cf (WsRead d err wok wokc) (sh, h, rl) = (sh, wsRead d err wok wokc (h, rl))"
| "wsStep cf (WsWrite wok) (sh, h, rl) = (sh, wsWrite wok (h, rl))"
| "wsStep cf WsWait (sh, h, rl) = (sh, wsWait (h, rl))"

text \<open>What the client sent for this relay, and what was read from the visitor while reading went on.\<close>

definition ws_recv :: "u64 \<Rightarrow> wsEvent \<Rightarrow> bytes" where
  "ws_recv rid ev = (case ev of WsArrives e f \<Rightarrow> if ftype f = MsgStreamData \<and> RequestID f = rid then Payload f else []
     | _ \<Rightarrow> [])"

definition ws_took :: "wsEvent \<Rightarrow> relay \<Rightarrow> bytes" where
  "ws_took ev rl = (case ev of
       WsRead d err wok wokc \<Rightarrow> if rlPhase rl = Pumping \<and> \<not> err \<and> rlConnOpen rl then d else []
     | _ \<Rightarrow> [])"

fun ws_run :: "config \<Rightarrow> wsEvent list \<Rightarrow> bytes \<times> bytes \<Rightarrow> Shared \<times> ClientHandler \<times> relay \<Rightarrow>
    (bytes \<times> bytes) \<times> Shared \<times> ClientHandler \<times> relay" where
  "ws_run cf [] g st = (g, st)"
| "ws_run cf (ev # evs) (S, R) (sh, h, rl) =
     ws_run cf evs (S @ ws_recv (rlReq rl) ev, R @ ws_took ev rl) (wsStep cf ev (sh, h, rl))"

definition ws_inv :: "bytes \<Rightarrow> bytes \<Rightarrow> bytes \<Rightarrow> ClientHandler \<Rightarrow> relay \<Rightarrow> bool" where
  "ws_inv B S R h rl \<longleftrightarrow> down_inv S h rl \<and> up_inv B [] R h rl \<and> rlPhase rl \<noteq> AwaitReady"

lemma down_inv_conn: "down_inv S h (rl\<lparr>rlConnOpen := b\<rparr>) = down_inv S h rl"
  by (simp add: down_inv_def active_def)

lemma down_inv_ended:
  "down_inv S h rl \<Longrightarrow> rlPhase rl \<noteq> AwaitReady \<Longrightarrow> down_inv S h (rl\<lparr>rlPhase := Ended\<rparr>)"
  by (simp add: down_inv_def active_def)

lemma ws_inv_read:
  assumes "ws_inv B S R h rl" "length d \<le> StreamBufSize" "wsRead d err wok wokc (h, rl) = (h', rl')"
  shows "ws_inv B S (R @ ws_took (WsRead d err wok wokc) rl) h' rl' \<and> rlReq rl' = rlReq rl"
proof (cases "rlPhase rl = Pumping")
  case True
  obtain h1 ok where s: "SendStreamData wok (rlReq rl) d h = (h1, ok)" by fastforce
  have "length d \<le> MaxFrameSize" using assms(2) by (simp add: limit_defs MaxFrameSize_def MaxBodySize_def)
  note o = send_data_out [OF s this]
  have up: "stream_out (rlReq rl) (hOut h) = B @ R" and dn: "down_inv S h rl"
    using assms(1) True by (simp_all add: ws_inv_def up_inv_def)
  have dn1: "down_inv S h1 rl" using down_inv_send(1) [OF dn, of wok "rlReq rl" d] s by simp
  have stop: "down_inv S (fst (SendStreamClose wokc (rlReq rl) x)) (rl\<lparr>rlPhase := Ended\<rparr>)" if "down_inv S x rl" for x
    by (rule down_inv_ended [OF down_inv_send(2) [OF that]]) (simp add: True)
  show ?thesis
    using assms(3) stop [OF dn] stop [OF dn1] dn1 True s up o
    by (auto simp: wsRead_def ws_inv_def up_inv_def ws_took_def split: if_splits)
qed (use assms in \<open>auto simp: wsRead_def ws_took_def\<close>)

lemma ws_inv_write:
  assumes "ws_inv B S R h rl" "wsWrite wok (h, rl) = (h', rl')"
  shows "ws_inv B S R h' rl' \<and> rlReq rl' = rlReq rl"
proof -
  have late: "drains_late rl" and dn: "down_inv S h rl" using assms(1) by (simp_all add: ws_inv_def drains_late_def)
  obtain h1 rl1 where r: "relayDrain False wok (h, rl) = (h1, rl1)" by fastforce
  have same: "h' = h1" "rl'\<lparr>rlConnOpen := False\<rparr> = rl1\<lparr>rlConnOpen := False\<rparr>" "rlReq rl' = rlReq rl"
    "rlPhase rl' = rlPhase rl" "stream_out (rlReq rl) (hOut h') = stream_out (rlReq rl) (hOut h)"
    using r assms(2) by (auto simp: wsWrite_def relayDrain_def Let_def split: if_splits option.splits list.splits)
  have "down_inv S h1 rl1" using down_inv_drain [OF dn late, of False wok] r by simp
  then have "down_inv S h' rl'" using same(1,2) by (metis down_inv_conn)
  then show ?thesis using assms(1) same up_inv_out [of rl' rl h' h B "[]" R] by (simp add: ws_inv_def)
qed

lemma ws_inv_wait:
  assumes "ws_inv B S R h rl" "wsWait (h, rl) = (h', rl')"
  shows "ws_inv B S R h' rl' \<and> rlReq rl' = rlReq rl"
proof (cases "rlPhase rl = Ended \<and> \<not> rlDraining rl")
  case True
  then have e: "h' = finishForward (rlReq rl) h" "rl' = rl\<lparr>rlConnOpen := False\<rparr>"
    using assms(2) by (auto simp: wsWait_def forwardCleanup_def)
  have "down_inv S (finishForward (rlReq rl) h) rl" using assms(1) down_inv_finish by (simp add: ws_inv_def)
  then show ?thesis using assms(1) True unfolding e by (simp add: ws_inv_def down_inv_conn up_inv_def)
qed (use assms in \<open>auto simp: wsWait_def\<close>)

lemma ws_inv_step:
  assumes "ws_inv B S R h rl" "case ev of WsRead d err w wc \<Rightarrow> length d \<le> StreamBufSize | _ \<Rightarrow> True"
    and "wsStep cf ev (sh, h, rl) = (sh', h', rl')"
  shows "ws_inv B (S @ ws_recv (rlReq rl) ev) (R @ ws_took ev rl) h' rl' \<and> rlReq rl' = rlReq rl"
proof (cases ev)
  case (WsArrives e f)
  then obtain s: "handleFrame cf e f (sh, h) = (sh', h')" and rl': "rl' = rl" using assms(3) by (auto split: prod.splits)
  show ?thesis using assms(1) down_inv_frame [OF _ s, of S rl]
      up_inv_out [OF refl refl stream_out_frame [OF s, of "rlReq rl"], of B "[]" R]
    by (simp add: rl' ws_inv_def WsArrives ws_recv_def ws_took_def)
next
  case (WsRead d err w wc)
  then have "length d \<le> StreamBufSize" "wsRead d err w wc (h, rl) = (h', rl')" using assms(2,3) by simp_all
  from ws_inv_read [OF assms(1) this] WsRead show ?thesis by (simp add: ws_recv_def)
next
  case (WsWrite w)
  then have "wsWrite w (h, rl) = (h', rl')" using assms(3) by simp
  from ws_inv_write [OF assms(1) this] WsWrite show ?thesis by (simp add: ws_recv_def ws_took_def)
next
  case WsWait
  then have "wsWait (h, rl) = (h', rl')" using assms(3) by simp
  from ws_inv_wait [OF assms(1) this] WsWait show ?thesis by (simp add: ws_recv_def ws_took_def)
qed

definition small_read :: "wsEvent \<Rightarrow> bool" where
  "small_read ev \<longleftrightarrow> (case ev of WsRead d err w wc \<Rightarrow> length d \<le> StreamBufSize | _ \<Rightarrow> True)"

lemma ws_run_inv:
  assumes "ws_inv B S R h rl" "\<forall>ev \<in> set evs. small_read ev" "ws_run cf evs (S, R) (sh, h, rl) = ((S', R'), sh', h', rl')"
  shows "ws_inv B S' R' h' rl' \<and> rlReq rl' = rlReq rl"
  using assms
proof (induction evs arbitrary: S R sh h rl)
  case (Cons ev evs)
  obtain sh1 h1 rl1 where s: "wsStep cf ev (sh, h, rl) = (sh1, h1, rl1)" by (metis prod_cases3)
  have "ws_inv B (S @ ws_recv (rlReq rl) ev) (R @ ws_took ev rl) h1 rl1 \<and> rlReq rl1 = rlReq rl"
    by (rule ws_inv_step [OF Cons.prems(1) _ s]) (use Cons.prems(2) in \<open>simp add: small_read_def\<close>)
  with Cons.IH [of "S @ ws_recv (rlReq rl) ev" "R @ ws_took ev rl" h1 rl1 sh1] Cons.prems(2,3) s show ?case by simp
qed simp

definition frames_recv :: "u64 \<Rightarrow> (env \<times> Frame) list \<Rightarrow> bytes" where
  "frames_recv rid fs = concat (map (\<lambda>(e, f). if ftype f = MsgStreamData \<and> RequestID f = rid then Payload f else []) fs)"

lemma frames_between_inv:
  "down_inv S h rl \<Longrightarrow> frames_between cf fs (sh, h) = (sh', h') \<Longrightarrow>
   down_inv (S @ frames_recv (rlReq rl) fs) h' rl \<and> stream_out rid (hOut h') = stream_out rid (hOut h)"
proof (induction fs arbitrary: S sh h)
  case (Cons ef fs)
  obtain e f where ef: "ef = (e, f)" by fastforce
  obtain sh1 h1 where s: "handleFrame cf e f (sh, h) = (sh1, h1)" by fastforce
  have "frames_between cf fs (sh1, h1) = (sh', h')" using Cons.prems(2) by (simp add: frames_between_def ef s)
  from Cons.IH [OF down_inv_frame [OF Cons.prems(1) s] this] stream_out_frame [OF s, of rid] show ?case
    by (simp add: frames_recv_def ef)
qed (simp add: frames_between_def frames_recv_def)

lemma forward_upgrade:
  assumes "hAuthenticated h0" "forward cf wok fired fs tid req (Some []) (sh0, h0) = Some ((sh, h), Inr (rid, resp))"
  shows "rid = hRequestIDSeq h0 + 1 \<and> down_inv (frames_recv rid fs) h (wsRelay rid) \<and>
    stream_out rid (hOut h) = stream_out rid (hOut h0)"
proof -
  obtain h1 r1 where s: "startForward wok tid req (Some []) h0 = (h1, r1)" by fastforce
  obtain sh2 h2 where f: "frames_between cf fs (sh0, h1) = (sh2, h2)" by fastforce
  from assms(2) s f have r: "r1 = Inr rid" "awaitResponse fired rid h2 = Some (h, Inr resp)"
    by (auto simp: forward_def split: option.splits sum.splits)
  let ?rl = "(wsRelay rid)\<lparr>rlPhase := AwaitReady, rlDraining := False\<rparr>"
  have rid: "rid = hRequestIDSeq h0 + 1" using startForward_pending(3) [OF s r(1)] .
  have "down_inv [] h1 ?rl" using s r(1) assms(1)
    by (auto simp: startForward_def nextRequestID_def addPending_def writeMessage_def down_inv_def wsRelay_def
        update_conv' Let_def split: sum.splits if_splits)
  from frames_between_inv [OF this f, of rid] have i: "down_inv (frames_recv rid fs) h2 ?rl"
    "stream_out rid (hOut h2) = stream_out rid (hOut h1)" by (simp_all add: wsRelay_def)
  have "stream_out rid (hOut h1) = stream_out rid (hOut h0)" using s r(1)
    by (auto simp: startForward_def nextRequestID_def addPending_def writeMessage_def Let_def msg_defs
        split: sum.splits if_splits)
  moreover have "down_inv (frames_recv rid fs) h ?rl"
    by (rule down_inv_await [OF i(1) r(2)]) (simp add: wsRelay_def)
  from down_inv_pump [OF this] have "down_inv (frames_recv rid fs) h (wsRelay rid)" by (simp add: wsRelay_def)
  ultimately show ?thesis using rid i(2) hOut_await [OF r(2)] by simp
qed

text \<open>
  C17. WebSocket relays: once an upgrade is accepted, under every interleaving of the two goroutines with
  the client's frames, the visitor has received an initial piece of what the client sent for the
  connection from the start, bytes that came in before the switch included, and all of it while the
  request is pending and the queue drained; the client is sent an initial piece of what was read from
  the visitor, and all of it while reading goes on. When both goroutines are done the request is no
  longer pending.
\<close>

theorem websocket_relay_in_order:
  assumes "hAuthenticated h0" "\<forall>ev \<in> set evs. small_read ev"
    and "serveWebSocket cf wok fired fs True True True t req (sh0, h0) = Some ((sh1, h1), WsRelaying rid headText)"
    and "ws_run cf evs (frames_recv rid fs, []) (sh1, h1, wsRelay rid) = ((S, R), sh, h, rl)"
  shows "prefix (rlOut rl) S \<and>
    (rid \<in> set (hPending h) \<and> rlDraining rl \<and>
      map_option prStreamData (map_of (hReqs h) rid) = Some (Some []) \<longrightarrow> rlOut rl = S) \<and>
    (\<exists>X. stream_out rid (hOut h) = stream_out rid (hOut h0) @ X \<and> prefix X R \<and> (rlPhase rl = Pumping \<longrightarrow> X = R)) \<and>
    (rlPhase rl = Ended \<and> \<not> rlDraining rl \<longrightarrow> rid \<notin> set (hPending (fst (wsWait (h, rl)))))"
proof -
  obtain resp where "forward cf wok fired fs (tunID t) req (Some []) (sh0, h0) = Some ((sh1, h1), Inr (rid, resp))"
    using assms(3) by (auto simp: serveWebSocket_def Let_def split: option.splits sum.splits if_splits)
  from forward_upgrade [OF assms(1) this, THEN conjunct2]
  have "ws_inv (stream_out rid (hOut h0)) (frames_recv rid fs) [] h1 (wsRelay rid)"
    by (simp add: ws_inv_def up_inv_def wsRelay_def)
  from ws_run_inv [OF this assms(2,4)]
  have inv: "ws_inv (stream_out rid (hOut h0)) S R h rl" "rlReq rl = rid" by (simp_all add: wsRelay_def)
  then have dn: "down_inv S h rl" and up: "up_inv (stream_out rid (hOut h0)) [] R h rl" by (simp_all add: ws_inv_def)
  have "\<exists>X. stream_out rid (hOut h) = stream_out rid (hOut h0) @ X \<and> prefix X R \<and> (rlPhase rl = Pumping \<longrightarrow> X = R)"
    using up inv by (cases "rlPhase rl") (auto simp: up_inv_def ws_inv_def)
  moreover have "prefix (rlOut rl) S \<and> (rid \<in> set (hPending h) \<and> rlDraining rl \<and>
      map_option prStreamData (map_of (hReqs h) rid) = Some (Some []) \<longrightarrow> rlOut rl = S)"
    using dn inv(2) by (auto simp: down_inv_def active_def)
  moreover have "rid \<notin> set (hPending (fst (wsWait (h, rl))))" if "rlPhase rl = Ended \<and> \<not> rlDraining rl"
    using that inv(2) by (simp add: wsWait_def forwardCleanup_def finishForward_not_pending)
  ultimately show ?thesis by blast
qed

definition sample_101_frame :: Frame where
  "sample_101_frame = \<lparr>ftype = MsgHTTPRes, TunnelID = 0, RequestID = 1, Payload = [0, 101, 0, 0, 0, 0, 0, 0, 0, 0]\<rparr>"

lemma sample_101_dec: "DecodeHTTPResponse (Payload sample_101_frame) =
    Inr \<lparr>respStatusCode = 101, respHeaders = [], respBody = [], respBodyStreamed = False\<rparr>"
  by (simp add: sample_101_frame_def DecodeHTTPResponse_def readHeaders_def readBody_def
      readUint_def readFull_def get_be_def limit_defs StreamedBodyLen_def)

lemma sample_upgrade:
  "\<exists>sh h. serveWebSocket sample_config True False [(sample_env, sample_101_frame)] True True True sample_tunnel sample_req
     (sample_shared, sample_client) = Some ((sh, h), WsRelaying 1 (upgrade_head
       \<lparr>respStatusCode = 101, respHeaders = [], respBody = [], respBodyStreamed = False\<rparr>)) \<and> hHasConn h"
  using sample_101_dec
  by (simp add: serveWebSocket_def forward_def startForward_def sample_req_enc frames_between_def awaitResponse_def
      nextRequestID_def addPending_def writeMessage_def Let_def handleFrame_def handleHTTPRes_def lookupPending_def
      sample_client_def NewClientHandler_def MaxFrameSize_def MaxBodySize_def sample_tunnel_def updReq_def msg_defs)
    (simp add: sample_101_frame_def msg_defs)

theorem websocket_relay_in_order_witness:
  "\<exists>sh1 h1 headText S R sh h rl.
     serveWebSocket sample_config True False [(sample_env, sample_101_frame)] True True True sample_tunnel sample_req
       (sample_shared, sample_client) = Some ((sh1, h1), WsRelaying 1 headText) \<and>
     ws_run sample_config [WsRead [9] False True True] (frames_recv 1 [(sample_env, sample_101_frame)], [])
       (sh1, h1, wsRelay 1) = ((S, R), sh, h, rl) \<and>
     stream_out 1 (hOut h) = [9]"
proof -
  let ?fs = "[(sample_env, sample_101_frame)]"
  obtain sh1 h1 headText where w: "serveWebSocket sample_config True False ?fs True True True sample_tunnel sample_req
      (sample_shared, sample_client) = Some ((sh1, h1), WsRelaying 1 headText)" "hHasConn h1"
    using sample_upgrade by blast
  obtain S R sh h rl where r: "ws_run sample_config [WsRead [9] False True True] (frames_recv 1 ?fs, [])
      (sh1, h1, wsRelay 1) = ((S, R), sh, h, rl)" by (metis prod.exhaust)
  then have p: "R = [9]" "rlPhase rl = Pumping"
    using w(2) by (auto simp: wsRead_def SendStreamData_def writeMessage_def wsRelay_def ws_took_def Let_def)
  have "hAuthenticated sample_client" "hOut sample_client = []"
    "\<forall>ev \<in> set [WsRead [9] False True True]. small_read ev"
    by (simp_all add: sample_client_def NewClientHandler_def small_read_def StreamBufSize_def)
  with websocket_relay_in_order [OF _ _ w(1) r] p have "stream_out 1 (hOut h) = [9]" by auto
  with w(1) r show ?thesis by blast
qed

section \<open>The whole handler\<close>

datatype served = Replied ResponseWriter | Upgraded "(hstate \<times> wsOut) option" | Forwarded serve_state

text \<open>
  \<^verbatim>\<open>ServeHTTP\<close>: the checks, then WebSocket or plain forwarding on the connection \<open>st\<close> of the tunnel found.
  \<open>hj\<close> are the three outcomes of taking over the connection.
\<close>

definition ServeHTTP ::
  "config \<Rightarrow> ReverseProxy \<Rightarrow> bool \<Rightarrow> bool \<Rightarrow> (env \<times> Frame) list \<Rightarrow> bool \<times> bool \<times> bool \<Rightarrow> event list \<Rightarrow>
   Request \<Rightarrow> bytes option \<Rightarrow> hstate \<Rightarrow> served" where
  "ServeHTTP cf p wok fired fs hj evs r body st = (case st of (sh, h) \<Rightarrow>
     case serveChecks p (shRegistry sh) r body of
       Answer w \<Rightarrow> Replied w
     | ToTunnel tunnel req \<Rightarrow>
         if IsWebSocketUpgrade (rqHeader r)
         then (case hj of (canHijack, hijackOk, flushOk) \<Rightarrow>
                 Upgraded (serveWebSocket cf wok fired fs canHijack hijackOk flushOk tunnel req st))
         else Forwarded (serve cf wok tunnel req (the body) evs st))"

end
