(* ===== verification/ClientFlow.thy ===== *)
theory ClientFlow
  imports Inspector Link ProxyFlow
begin

text \<open>
  Traffic on the client, \<^verbatim>\<open>internal/client/tunnel.go\<close>: requests forwarded to the local service, streamed
  bodies both ways, WebSocket and raw TCP relays. The read loop and every goroutine it starts are steps
  of one machine; a goroutine is a \<open>task\<close>, its constructor the point where it waits. What the local side
  does (answers, dial and write results) and whether writes to the server succeed are arguments.
\<close>

section \<open>Answering the server\<close>

definition writeResponse :: "(string \<Rightarrow> string) \<Rightarrow> bool \<Rightarrow> u64 \<Rightarrow> u64 \<Rightarrow> HTTPResponse \<Rightarrow> ClientTunnel \<Rightarrow> ClientTunnel" where
  "writeResponse q wok tunnelID requestID resp ct =
     (let enc = EncodeHTTPResponse resp;
          err = (case enc of
                   Inl e \<Rightarrow> Some (err_text q e)
                 | Inr p \<Rightarrow> if length p > MaxFrameSize
                           then Some (''encoded response exceeds max frame size: '' @ dec (length p) @ '' > '' @ dec MaxFrameSize)
                           else None);
          respPayload = (case err of
                   None \<Rightarrow> reply_payload enc
                 | Some msg \<Rightarrow> reply_payload (EncodeHTTPResponse
                     \<lparr>respStatusCode = 502, respHeaders = [(''Content-Type'', [''text/plain''])],
                      respBody = bytes_of (''vlgr: response encoding failed: '' @ msg), respBodyStreamed = False\<rparr>))
      in fst (writeFrame wok \<lparr>ftype = MsgHTTPRes, TunnelID = tunnelID, RequestID = requestID, Payload = respPayload\<rparr> ct))"

definition sendHTTPError :: "(string \<Rightarrow> string) \<Rightarrow> bool \<Rightarrow> u64 \<Rightarrow> u64 \<Rightarrow> u16 \<Rightarrow> string \<Rightarrow> ClientTunnel \<Rightarrow> ClientTunnel" where
  "sendHTTPError q wok tunnelID requestID statusCode msg ct =
     writeResponse q wok tunnelID requestID
       \<lparr>respStatusCode = statusCode, respHeaders = [(''Content-Type'', [''text/plain''])], respBody = bytes_of msg,
        respBodyStreamed = False\<rparr> ct"

section \<open>Slots\<close>

definition releaseLocal :: "ClientTunnel \<Rightarrow> ClientTunnel" where
  "releaseLocal ct = ct\<lparr>ctLocalReqs := ctLocalReqs ct - 1\<rparr>"

definition releaseRelay :: "ClientTunnel \<Rightarrow> ClientTunnel" where
  "releaseRelay ct = ct\<lparr>ctRelaySem := ctRelaySem ct - 1\<rparr>"

text \<open>
  Where a goroutine of the client waits. The first argument of \<open>RelayPump\<close> says that it began as an HTTP
  request, and \<open>TaskOver\<close> keeps the ID of the HTTP request it served, if it did.
\<close>

datatype streamPhase = SendPrefix bytes | SendRest

datatype task =
    HttpNew Frame
  | TcpNew Frame
  | HttpWait u64 u64 HTTPRequest localReq
  | HttpStream u64 u64 bool addr streamPhase
  | WsCall u64 u64 localReq
  | WsUpgraded u64 u64
  | TcpDial u64 u64 u16
  | RelayPump bool u64 u64 addr
  | TaskOver "u64 option"

section \<open>HTTP requests\<close>

definition dropBody :: "bool \<Rightarrow> u64 \<Rightarrow> ClientTunnel \<Rightarrow> ClientTunnel" where
  "dropBody streamed requestID ct =
     (if streamed then ct\<lparr>ctBodyStreams := AList.delete requestID (ctBodyStreams ct)\<rparr> else ct)"

definition openBody :: "u64 \<Rightarrow> ClientTunnel \<Rightarrow> ClientTunnel \<times> addr" where
  "openBody requestID ct =
     (let a = length (ctBodyObjs ct)
      in (ct\<lparr>ctBodyObjs := ctBodyObjs ct @ [\<lparr>bsCh = [], bsClosed = False, bsAborted = False\<rparr>],
             ctBodyStreams := AList.update requestID a (ctBodyStreams ct)\<rparr>, a))"

definition handleNormalHTTPReq ::
  "(string \<Rightarrow> string) \<Rightarrow> bool \<Rightarrow> string option \<Rightarrow> u64 \<Rightarrow> u64 \<Rightarrow> HTTPRequest \<Rightarrow> ClientTunnel \<Rightarrow> ClientTunnel \<times> task" where
  "handleNormalHTTPReq q wok newReqErr tunnelID requestID req ct =
     (case portFor ct tunnelID of
        None \<Rightarrow>
          (releaseLocal (sendHTTPError q wok tunnelID requestID 502 (''unknown tunnel '' @ dec (unat tunnelID)) ct), TaskOver (Some requestID))
      | Some localPort \<Rightarrow>
          let base = localRequest (reqMethod req) localPort (reqPath req) (reqHeaders req) (reqBody req);
              (ct1, lr) = (if reqBodyStreamed req
                           then (let (c, a) = openBody requestID ct
                                 in (c, base\<lparr>lqStream := Some a, lqLength := contentLength (reqHeaders req)\<rparr>))
                           else (ct, base))
          in case newReqErr of
               Some err \<Rightarrow>
                 (releaseLocal (dropBody (reqBodyStreamed req) requestID
                    (sendHTTPError q wok tunnelID requestID 502 err ct1)), TaskOver (Some requestID))
             | None \<Rightarrow> (ct1, HttpWait tunnelID requestID req lr))"

text \<open>The local service, as \<^verbatim>\<open>httpClient.Do\<close> and the first read of the body see it.\<close>

datatype localOutcome = LocalError string | LocalAnswer nat headers "string + bytes"

definition takeCancel :: "u64 \<Rightarrow> ClientTunnel \<Rightarrow> ClientTunnel \<times> addr" where
  "takeCancel requestID ct =
     (let a = length (ctCancelObjs ct)
      in (ct\<lparr>ctCancelObjs := ctCancelObjs ct @ [False],
             ctRespCancels := AList.update requestID a (ctRespCancels ct)\<rparr>, a))"

definition httpDone :: "bool \<Rightarrow> u64 \<Rightarrow> ClientTunnel \<Rightarrow> ClientTunnel" where
  "httpDone streamed requestID ct = releaseLocal (dropBody streamed requestID ct)"

text \<open>\<^verbatim>\<open>streamResponseBody\<close> up to its first send.\<close>

definition streamResponseBody ::
  "(string \<Rightarrow> string) \<Rightarrow> bool \<Rightarrow> u64 \<Rightarrow> u64 \<Rightarrow> bool \<Rightarrow> u16 \<Rightarrow> headers \<Rightarrow> bytes \<Rightarrow> ClientTunnel \<Rightarrow> ClientTunnel \<times> task" where
  "streamResponseBody q wok tunnelID requestID up statusCode hs pre ct =
     (if ctRelaySem ct \<ge> maxConcurrentRelays
      then (httpDone up requestID
              (sendHTTPError q wok tunnelID requestID 503 ''too many concurrent streamed transfers'' ct), TaskOver (Some requestID))
      else
        let (ct1, cancel) = takeCancel requestID (ct\<lparr>ctRelaySem := ctRelaySem ct + 1\<rparr>)
        in (writeResponse q wok tunnelID requestID
              \<lparr>respStatusCode = statusCode, respHeaders = hs, respBody = [], respBodyStreamed = True\<rparr> ct1,
            HttpStream tunnelID requestID up cancel (SendPrefix pre)))"

definition localAnswered ::
  "(string \<Rightarrow> string) \<Rightarrow> bool \<Rightarrow> localOutcome \<Rightarrow> u64 \<Rightarrow> u64 \<Rightarrow> HTTPRequest \<Rightarrow> ClientTunnel \<Rightarrow> ClientTunnel \<times> task" where
  "localAnswered q wok outcome tunnelID requestID req ct =
     (let up = reqBodyStreamed req;
          fail = (\<lambda>err. (httpDone up requestID (sendHTTPError q wok tunnelID requestID 502 err ct), TaskOver (Some requestID)))
      in case outcome of
           LocalError err \<Rightarrow> fail err
         | LocalAnswer status hs (Inl err) \<Rightarrow> fail err
         | LocalAnswer status hs (Inr body) \<Rightarrow>
             let statusCode = of_nat status; streamed = length body > InlineBodyLimit
             in if \<not> streamed
                then (httpDone up requestID
                        (writeResponse q wok tunnelID requestID
                          \<lparr>respStatusCode = statusCode, respHeaders = hs, respBody = body, respBodyStreamed = False\<rparr> ct),
                      TaskOver (Some requestID))
                else streamResponseBody q wok tunnelID requestID up statusCode hs body ct)"

text \<open>What the inspector records of the exchange, when it is on.\<close>

definition recordAnswer :: "localOutcome \<Rightarrow> HTTPRequest \<Rightarrow> u16 \<Rightarrow> nat \<Rightarrow> nat \<Rightarrow> Dashboard option \<Rightarrow> Dashboard option" where
  "recordAnswer outcome req localPort started now dash = (case outcome of
       LocalAnswer status hs (Inr body) \<Rightarrow>
         map_option (recordHTTP (reqMethod req) (reqPath req) localPort (reqHeaders req) (reqBody req) (reqBodyStreamed req)
           (unat (of_nat status :: u16)) hs body started now) dash
     | _ \<Rightarrow> dash)"

text \<open>
  One round of the response pump: the prefix, then what each read of the local body returns. A
  cancelled request or a closed tunnel stops it; the deferred calls close the stream and give back
  what is held.
\<close>

definition streamPump ::
  "bool \<Rightarrow> bool \<Rightarrow> bytes \<Rightarrow> bool \<Rightarrow> u64 \<Rightarrow> u64 \<Rightarrow> bool \<Rightarrow> addr \<Rightarrow> streamPhase \<Rightarrow> ClientTunnel \<Rightarrow> ClientTunnel \<times> task" where
  "streamPump wok wokClose data err tunnelID requestID up cancel ph ct =
     (let send = (\<lambda>d. if ctCancelObjs ct ! cancel \<or> ctDone ct then (ct, False)
                      else writeFrame wok \<lparr>ftype = MsgStreamData, TunnelID = tunnelID, RequestID = requestID, Payload = d\<rparr> ct);
          finish = (\<lambda>c. (httpDone up requestID (releaseRelay
             ((sendStreamClose wokClose tunnelID requestID c)
                \<lparr>ctRespCancels := AList.delete requestID (ctRespCancels (sendStreamClose wokClose tunnelID requestID c))\<rparr>)), TaskOver (Some requestID)));
          again = HttpStream tunnelID requestID up cancel SendRest
      in case ph of
           SendPrefix pre \<Rightarrow> (case send pre of (ct1, ok) \<Rightarrow> if \<not> ok then finish ct1 else (ct1, again))
         | SendRest \<Rightarrow>
             (case (if length data > 0 then send data else (ct, True)) of
                (ct1, ok) \<Rightarrow> if \<not> ok \<or> err then finish ct1 else (ct1, again)))"

section \<open>Relays\<close>

definition openRelay :: "u64 \<Rightarrow> ClientTunnel \<Rightarrow> ClientTunnel \<times> addr" where
  "openRelay requestID ct =
     (let a = length (ctRelayObjs ct)
      in (ct\<lparr>ctRelayObjs := ctRelayObjs ct @ [\<lparr>srOpen = True, srDone = False, srWritten = []\<rparr>],
             ctRelays := AList.update requestID a (ctRelays ct)\<rparr>, a))"

definition handleWebSocketReq ::
  "(string \<Rightarrow> string) \<Rightarrow> bool \<Rightarrow> u64 \<Rightarrow> u64 \<Rightarrow> HTTPRequest \<Rightarrow> ClientTunnel \<Rightarrow> ClientTunnel \<times> task" where
  "handleWebSocketReq q wok tunnelID requestID req ct =
     (if ctRelaySem ct \<ge> maxConcurrentRelays
      then (releaseLocal (sendHTTPError q wok tunnelID requestID 503 ''too many concurrent websocket relays'' ct), TaskOver (Some requestID))
      else
        let ct1 = ct\<lparr>ctRelaySem := ctRelaySem ct + 1\<rparr>
        in case portFor ct1 tunnelID of
             None \<Rightarrow>
               (releaseLocal (releaseRelay
                  (sendHTTPError q wok tunnelID requestID 502 (''unknown tunnel '' @ dec (unat tunnelID)) ct1)), TaskOver (Some requestID))
           | Some localPort \<Rightarrow>
               (ct1, WsCall tunnelID requestID
                  (localRequest (reqMethod req) localPort (reqPath req) (reqHeaders req) (reqBody req))))"

text \<open>Dialling, writing the upgrade request and reading the answer: one of them failed, or the answer is in.\<close>

datatype wsOutcome = WsDialError string | WsLocalError string | WsLocalAnswer nat headers

definition wsAnswered ::
  "(string \<Rightarrow> string) \<Rightarrow> bool \<Rightarrow> wsOutcome \<Rightarrow> u64 \<Rightarrow> u64 \<Rightarrow> localReq \<Rightarrow> ClientTunnel \<Rightarrow> ClientTunnel \<times> task" where
  "wsAnswered q wok outcome tunnelID requestID lr ct =
     (let fail = (\<lambda>msg. (releaseLocal (releaseRelay (sendHTTPError q wok tunnelID requestID 502 msg ct)), TaskOver (Some requestID)))
      in case outcome of
           WsDialError err \<Rightarrow> fail (''dial '' @ localhost (lqPort lr) @ '': '' @ err)
         | WsLocalError err \<Rightarrow> fail err
         | WsLocalAnswer status hs \<Rightarrow>
             let statusCode = of_nat status;
                 ct1 = writeResponse q wok tunnelID requestID
                   \<lparr>respStatusCode = statusCode, respHeaders = hs, respBody = [], respBodyStreamed = False\<rparr> ct
             in if statusCode \<noteq> (101 :: u16) then (releaseLocal (releaseRelay ct1), TaskOver (Some requestID))
                else (ct1, WsUpgraded tunnelID requestID))"

text \<open>
  The answer is on the wire, and only now the relay is entered under the request's ID and the request
  slot given back; what the server relays before this step finds no relay.
\<close>

definition wsRelay :: "u64 \<Rightarrow> u64 \<Rightarrow> ClientTunnel \<Rightarrow> ClientTunnel \<times> task" where
  "wsRelay tunnelID requestID ct =
     (case openRelay requestID ct of (ct1, a) \<Rightarrow> (releaseLocal ct1, RelayPump True tunnelID requestID a))"

definition handleTCPOpen :: "bool \<Rightarrow> Frame \<Rightarrow> ClientTunnel \<Rightarrow> ClientTunnel \<times> task" where
  "handleTCPOpen wok frame ct =
     (if ctRelaySem ct \<ge> maxConcurrentRelays
      then (sendStreamClose wok (TunnelID frame) (RequestID frame) ct, TaskOver None)
      else
        let ct1 = ct\<lparr>ctRelaySem := ctRelaySem ct + 1\<rparr>
        in case portFor ct1 (TunnelID frame) of
             None \<Rightarrow> (releaseRelay (sendStreamClose wok (TunnelID frame) (RequestID frame) ct1), TaskOver None)
           | Some localPort \<Rightarrow> (ct1, TcpDial (TunnelID frame) (RequestID frame) localPort))"

definition tcpDialed :: "bool \<Rightarrow> bool \<Rightarrow> u64 \<Rightarrow> u64 \<Rightarrow> ClientTunnel \<Rightarrow> ClientTunnel \<times> task" where
  "tcpDialed wok dialOk tunnelID requestID ct =
     (if \<not> dialOk then (releaseRelay (sendStreamClose wok tunnelID requestID ct), TaskOver None)
      else case openRelay requestID ct of
        (ct1, a) \<Rightarrow>
          (fst (writeFrame wok \<lparr>ftype = MsgTCPOpen, TunnelID = tunnelID, RequestID = requestID, Payload = []\<rparr> ct1),
           RelayPump False tunnelID requestID a))"

text \<open>One round of either relay's read loop; a closed local connection makes the read fail.\<close>

definition relayPump :: "bool \<Rightarrow> bool \<Rightarrow> bytes \<Rightarrow> bool \<Rightarrow> bool \<Rightarrow> u64 \<Rightarrow> u64 \<Rightarrow> addr \<Rightarrow> ClientTunnel \<Rightarrow> ClientTunnel \<times> task" where
  "relayPump wok wokClose data err http tunnelID requestID a ct =
     (let finish = (\<lambda>c. (releaseRelay (sendStreamClose wokClose tunnelID requestID
            ((setRelay a ((ctRelayObjs c ! a)\<lparr>srDone := True, srOpen := False\<rparr>) c)
               \<lparr>ctRelays := AList.delete requestID (ctRelays c)\<rparr>)), TaskOver (if http then Some requestID else None)))
      in if err \<or> \<not> srOpen (ctRelayObjs ct ! a) then finish ct
         else case writeFrame wok \<lparr>ftype = MsgStreamData, TunnelID = tunnelID, RequestID = requestID, Payload = data\<rparr> ct of
           (ct1, ok) \<Rightarrow> if \<not> ok then finish ct1 else (ct1, RelayPump http tunnelID requestID a))"

section \<open>Reading an uploaded body\<close>

datatype readOut = ReadData bytes | ReadEOF | ReadAborted | ReadClosed | ReadBlocks

text \<open>
  \<^verbatim>\<open>bodyStreamReader.Read\<close>: \<open>rem\<close> is what is left of the last chunk, \<open>n\<close> the size of the caller's buffer,
  \<open>pickDone\<close> prefers a closed tunnel to a ready chunk.
\<close>

fun bodyFill :: "bytes list \<Rightarrow> bytes \<Rightarrow> bytes list \<times> bytes" where
  "bodyFill [] rem = ([], rem)"
| "bodyFill (d # q) rem = (if length rem \<noteq> 0 then (d # q, rem) else bodyFill q d)"

definition bodyRead :: "bool \<Rightarrow> nat \<Rightarrow> bool \<Rightarrow> bytes \<times> bodyStream \<Rightarrow> (bytes \<times> bodyStream) \<times> readOut" where
  "bodyRead pickDone n isDone st = (case st of (rem, bs) \<Rightarrow>
     if length rem = 0 \<and> isDone \<and> pickDone then (st, ReadClosed)
     else case bodyFill (bsCh bs) rem of
       (q, rem') \<Rightarrow>
         if length rem' \<noteq> 0 then ((drop n rem', bs\<lparr>bsCh := q\<rparr>), ReadData (take n rem'))
         else ((rem', bs\<lparr>bsCh := q\<rparr>),
               if bsClosed bs then (if bsAborted bs then ReadAborted else ReadEOF)
               else if isDone then ReadClosed else ReadBlocks))"

section \<open>The client as a machine\<close>

definition handleHTTPReq :: "(string \<Rightarrow> string) \<Rightarrow> bool \<Rightarrow> string option \<Rightarrow> Frame \<Rightarrow> ClientTunnel \<Rightarrow> ClientTunnel \<times> task" where
  "handleHTTPReq q wok newReqErr frame ct =
     (let tunnelID = TunnelID frame; requestID = RequestID frame in
      if ctLocalReqs ct \<ge> maxConcurrentLocalReqs
      then (sendHTTPError q wok tunnelID requestID 503 ''too many concurrent local requests'' ct, TaskOver (Some requestID))
      else
        let ct1 = ct\<lparr>ctLocalReqs := ctLocalReqs ct + 1\<rparr>
        in case DecodeHTTPRequest (Payload frame) of
             Inl err \<Rightarrow> (releaseLocal (sendHTTPError q wok tunnelID requestID 502 (err_text q err) ct1), TaskOver (Some requestID))
           | Inr req \<Rightarrow>
               if IsWebSocketUpgradeReq req then handleWebSocketReq q wok tunnelID requestID req ct1
               else handleNormalHTTPReq q wok newReqErr tunnelID requestID req ct1)"

text \<open>What one step draws from outside.\<close>

record cenv =
  ceQuote :: "string \<Rightarrow> string"
  ceWok :: bool
  ceWokClose :: bool
  ceNewReqErr :: "string option"
  ceLocalOk :: bool
  ceLocal :: localOutcome
  ceWs :: wsOutcome
  ceData :: bytes
  ceErr :: bool
  ceStarted :: nat
  ceNow :: nat

definition taskStep :: "cenv \<Rightarrow> task \<Rightarrow> ClientTunnel \<Rightarrow> ClientTunnel \<times> task" where
  "taskStep e t ct = (case t of
       HttpNew frame \<Rightarrow> handleHTTPReq (ceQuote e) (ceWok e) (ceNewReqErr e) frame ct
     | TcpNew frame \<Rightarrow> handleTCPOpen (ceWok e) frame ct
     | HttpWait tid rid req lr \<Rightarrow> localAnswered (ceQuote e) (ceWok e) (ceLocal e) tid rid req ct
     | HttpStream tid rid up cancel ph \<Rightarrow> streamPump (ceWok e) (ceWokClose e) (ceData e) (ceErr e) tid rid up cancel ph ct
     | WsCall tid rid lr \<Rightarrow> wsAnswered (ceQuote e) (ceWok e) (ceWs e) tid rid lr ct
     | WsUpgraded tid rid \<Rightarrow> wsRelay tid rid ct
     | TcpDial tid rid port \<Rightarrow> tcpDialed (ceWok e) (ceLocalOk e) tid rid ct
     | RelayPump http tid rid a \<Rightarrow> relayPump (ceWok e) (ceWokClose e) (ceData e) (ceErr e) http tid rid a ct
     | TaskOver r \<Rightarrow> (ct, t))"

record Client =
  clTun :: ClientTunnel
  clDash :: "Dashboard option"
  clTasks :: "task list"
  clRunning :: bool

text \<open>One message of the read loop in \<^verbatim>\<open>Run\<close>; a goroutine it starts has not yet run.\<close>

definition clientFrame :: "cenv \<Rightarrow> Frame \<Rightarrow> Client \<Rightarrow> Client" where
  "clientFrame e frame cl =
     (let ct = clTun cl; m = ftype frame; text = Some (string_of (Payload frame)) in
      if m = MsgHTTPReq then cl\<lparr>clTasks := clTasks cl @ [HttpNew frame]\<rparr>
      else if m = MsgRegisterOK then cl\<lparr>clTun := fst (handleAddResponse frame None ct)\<rparr>
      else if m = MsgRegisterErr then cl\<lparr>clTun := fst (handleAddResponse frame text ct)\<rparr>
      else if m = MsgUnregisterOK then cl\<lparr>clTun := handleDelResponse None ct\<rparr>
      else if m = MsgUnregisterErr then cl\<lparr>clTun := handleDelResponse text ct\<rparr>
      else if m = MsgTCPOpen then cl\<lparr>clTasks := clTasks cl @ [TcpNew frame]\<rparr>
      else if m = MsgStreamData then cl\<lparr>clTun := clientStreamData (ceLocalOk e) frame ct\<rparr>
      else if m = MsgStreamClose then cl\<lparr>clTun := clientStreamClose frame ct\<rparr>
      else if m = MsgError then cl\<lparr>clTun := fst (handleAddResponse frame text ct)\<rparr>
      else if m = MsgCloseTunnel then cl\<lparr>clRunning := False, clTun := ct\<lparr>ctDone := True\<rparr>\<rparr>
      else cl)"

text \<open>A message, a turn of a goroutine, a read error that ends the loop, or \<^verbatim>\<open>Close\<close> called from outside.\<close>

datatype clientEvent = Msg bytes | Go nat | Lost | Closing

fun clientStep :: "cenv \<times> clientEvent \<Rightarrow> Client \<Rightarrow> Client" where
  "clientStep (e, Msg msg) cl =
     (if \<not> clRunning cl then cl
      else case DecodeFrame msg of Inl _ \<Rightarrow> cl | Inr frame \<Rightarrow> clientFrame e frame cl)"
| "clientStep (e, Go i) cl =
     (if i < length (clTasks cl)
      then (case taskStep e (clTasks cl ! i) (clTun cl) of
              (ct, t) \<Rightarrow>
                cl\<lparr>clTun := ct, clTasks := (clTasks cl)[i := t],
                   clDash := (case clTasks cl ! i of
                        HttpWait tid rid req lr \<Rightarrow> recordAnswer (ceLocal e) req (lqPort lr) (ceStarted e) (ceNow e) (clDash cl)
                      | _ \<Rightarrow> clDash cl)\<rparr>)
      else cl)"
| "clientStep (e, Lost) cl = cl\<lparr>clTun := (clTun cl)\<lparr>ctDone := True\<rparr>, clRunning := False\<rparr>"
| "clientStep (e, Closing) cl = cl\<lparr>clTun := Close (ceWok e) (clTun cl), clRunning := False\<rparr>"

definition clientRun :: "(cenv \<times> clientEvent) list \<Rightarrow> Client \<Rightarrow> Client" where
  "clientRun evs cl = fold clientStep evs cl"

definition startClient :: "ClientTunnel \<Rightarrow> Dashboard option \<Rightarrow> Client" where
  "startClient ct dash = \<lparr>clTun = ct, clDash = dash, clTasks = [], clRunning = True\<rparr>"

section \<open>Slots are accounted for\<close>

lemma write_ct_fields [simp]:
  "ctLocalReqs (fst (writeFrame w f ct)) = ctLocalReqs ct" "ctRelaySem (fst (writeFrame w f ct)) = ctRelaySem ct"
  "ctForwards (fst (writeFrame w f ct)) = ctForwards ct"
  "ctLocalReqs (sendStreamClose w t r ct) = ctLocalReqs ct" "ctRelaySem (sendStreamClose w t r ct) = ctRelaySem ct"
  "ctLocalReqs (writeResponse q w t r p ct) = ctLocalReqs ct" "ctRelaySem (writeResponse q w t r p ct) = ctRelaySem ct"
  "ctLocalReqs (sendHTTPError q w t r c m ct) = ctLocalReqs ct" "ctRelaySem (sendHTTPError q w t r c m ct) = ctRelaySem ct"
  by (simp_all add: writeFrame_def sendStreamClose_def writeResponse_def sendHTTPError_def Let_def)

lemma set_ct_fields [simp]:
  "ctLocalReqs (setRelay a r ct) = ctLocalReqs ct" "ctRelaySem (setRelay a r ct) = ctRelaySem ct"
  "ctLocalReqs (setBody a b ct) = ctLocalReqs ct" "ctRelaySem (setBody a b ct) = ctRelaySem ct"
  "ctLocalReqs (releaseLocal ct) = ctLocalReqs ct - 1" "ctRelaySem (releaseLocal ct) = ctRelaySem ct"
  "ctLocalReqs (releaseRelay ct) = ctLocalReqs ct" "ctRelaySem (releaseRelay ct) = ctRelaySem ct - 1"
  "ctLocalReqs (dropBody up rid ct) = ctLocalReqs ct" "ctRelaySem (dropBody up rid ct) = ctRelaySem ct"
  "ctLocalReqs (httpDone up rid ct) = ctLocalReqs ct - 1" "ctRelaySem (httpDone up rid ct) = ctRelaySem ct"
  "ctLocalReqs (fst (openBody rid ct)) = ctLocalReqs ct" "ctRelaySem (fst (openBody rid ct)) = ctRelaySem ct"
  "ctLocalReqs (fst (takeCancel rid ct)) = ctLocalReqs ct" "ctRelaySem (fst (takeCancel rid ct)) = ctRelaySem ct"
  "ctLocalReqs (fst (openRelay rid ct)) = ctLocalReqs ct" "ctRelaySem (fst (openRelay rid ct)) = ctRelaySem ct"
  by (simp_all add: setRelay_def setBody_def releaseLocal_def releaseRelay_def dropBody_def httpDone_def openBody_def
      takeCancel_def openRelay_def Let_def)

definition lslot :: "task \<Rightarrow> nat" where
  "lslot t = (case t of HttpWait _ _ _ _ \<Rightarrow> 1 | HttpStream _ _ _ _ _ \<Rightarrow> 1 | WsCall _ _ _ \<Rightarrow> 1
     | WsUpgraded _ _ \<Rightarrow> 1 | _ \<Rightarrow> 0)"

definition rslot :: "task \<Rightarrow> nat" where
  "rslot t = (case t of HttpStream _ _ _ _ _ \<Rightarrow> 1 | WsCall _ _ _ \<Rightarrow> 1 | WsUpgraded _ _ \<Rightarrow> 1
     | TcpDial _ _ _ \<Rightarrow> 1 | RelayPump _ _ _ _ \<Rightarrow> 1 | _ \<Rightarrow> 0)"

lemma slot_simps [simp]:
  "lslot (HttpNew f) = 0" "lslot (TcpNew f) = 0" "lslot (HttpWait a b req d) = 1" "lslot (HttpStream a b u cn ph) = 1"
  "lslot (WsCall a b d) = 1" "lslot (WsUpgraded a b) = 1" "rslot (WsUpgraded a b) = 1" "lslot (TcpDial a b p) = 0" "lslot (RelayPump h a b r) = 0" "lslot (TaskOver x) = 0"
  "rslot (HttpNew f) = 0" "rslot (TcpNew f) = 0" "rslot (HttpWait a b req d) = 0" "rslot (HttpStream a b u cn ph) = 1"
  "rslot (WsCall a b d) = 1" "rslot (TcpDial a b p) = 1" "rslot (RelayPump h a b r) = 1" "rslot (TaskOver x) = 0"
  by (simp_all add: lslot_def rslot_def)

text \<open>A step of a goroutine changes the two counters exactly by the slots it takes or gives back.\<close>

definition balanced :: "nat \<times> nat \<Rightarrow> ClientTunnel \<Rightarrow> ClientTunnel \<times> task \<Rightarrow> bool" where
  "balanced held ct res \<longleftrightarrow> (case (held, res) of ((l, r), (ct', t')) \<Rightarrow>
     l \<le> ctLocalReqs ct \<and> r \<le> ctRelaySem ct \<and> ctLocalReqs ct \<le> maxConcurrentLocalReqs \<and> ctRelaySem ct \<le> maxConcurrentRelays \<longrightarrow>
     ctLocalReqs ct' + l = ctLocalReqs ct + lslot t' \<and> ctRelaySem ct' + r = ctRelaySem ct + rslot t' \<and>
     ctLocalReqs ct' \<le> maxConcurrentLocalReqs \<and> ctRelaySem ct' \<le> maxConcurrentRelays)"

lemma balanced_normal: "balanced (1, 0) ct (handleNormalHTTPReq q w ne tid rid req ct)"
  by (auto simp: balanced_def handleNormalHTTPReq_def openBody_def Let_def split: option.splits)

lemma balanced_ws: "balanced (1, 0) ct (handleWebSocketReq q w tid rid req ct)"
  by (auto simp: balanced_def handleWebSocketReq_def Let_def split: option.splits)

lemma balanced_http: "balanced (0, 0) ct (handleHTTPReq q w ne frame ct)"
proof (cases "ctLocalReqs ct \<ge> maxConcurrentLocalReqs")
  case False
  let ?ct = "ct\<lparr>ctLocalReqs := ctLocalReqs ct + 1\<rparr>"
  note B = balanced_normal [of ?ct q w ne "TunnelID frame" "RequestID frame"]
    and W = balanced_ws [of ?ct q w "TunnelID frame" "RequestID frame"]
  show ?thesis
  proof (cases "DecodeHTTPRequest (Payload frame)")
    case (Inr req)
    show ?thesis using False Inr B [of req] W [of req]
      by (cases "IsWebSocketUpgradeReq req") (auto simp: balanced_def handleHTTPReq_def Let_def split: prod.splits)
  qed (use False in \<open>auto simp: balanced_def handleHTTPReq_def Let_def\<close>)
qed (auto simp: balanced_def handleHTTPReq_def Let_def)

lemma balanced_answered: "balanced (1, 0) ct (localAnswered q w out tid rid req ct)"
  by (auto simp: balanced_def localAnswered_def streamResponseBody_def takeCancel_def Let_def
      split: localOutcome.splits sum.splits)

lemma balanced_pump: "balanced (1, 1) ct (streamPump w wc d err tid rid up cancel ph ct)"
  by (auto simp: balanced_def streamPump_def writeFrame_def Let_def split: streamPhase.splits)

lemma balanced_wsAnswered: "balanced (1, 1) ct (wsAnswered q w out tid rid lr ct)"
  by (auto simp: balanced_def wsAnswered_def Let_def split: wsOutcome.splits)

lemma balanced_wsRelay: "balanced (1, 1) ct (wsRelay tid rid ct)"
  by (auto simp: balanced_def wsRelay_def openRelay_def Let_def)

lemma balanced_tcp:
  "balanced (0, 0) ct (handleTCPOpen w frame ct)" "balanced (0, 1) ct (tcpDialed w ok tid rid ct)"
  "balanced (0, 1) ct (relayPump w wc d err http tid rid a ct)"
  by (auto simp: balanced_def handleTCPOpen_def tcpDialed_def relayPump_def openRelay_def writeFrame_def Let_def
      split: option.splits)

lemma balanced_task: "balanced (lslot t, rslot t) ct (taskStep e t ct)"
  by (cases t) (simp_all add: taskStep_def balanced_http balanced_tcp balanced_answered balanced_pump balanced_wsAnswered balanced_wsRelay
      balanced_def [of _ _ "(ct, TaskOver x)" for x] del: One_nat_def)

definition slots_ok :: "Client \<Rightarrow> bool" where
  "slots_ok cl \<longleftrightarrow> ctLocalReqs (clTun cl) = sum_list (map lslot (clTasks cl)) \<and>
     ctRelaySem (clTun cl) = sum_list (map rslot (clTasks cl)) \<and>
     ctLocalReqs (clTun cl) \<le> maxConcurrentLocalReqs \<and> ctRelaySem (clTun cl) \<le> maxConcurrentRelays"

lemma sum_list_update_nat:
  fixes f :: "'a \<Rightarrow> nat"
  assumes "i < length xs"
  shows "sum_list (map f (xs[i := x])) + f (xs ! i) = sum_list (map f xs) + f x" "f (xs ! i) \<le> sum_list (map f xs)"
proof -
  show m: "f (xs ! i) \<le> sum_list (map f xs)" using assms member_le_sum_list [of "f (xs ! i)" "map f xs"] by simp
  show "sum_list (map f (xs[i := x])) + f (xs ! i) = sum_list (map f xs) + f x"
    using assms m sum_list_update [of i "map f xs" "f x"] by (simp add: map_update)
qed

lemma slots_task:
  assumes "slots_ok cl" "i < length (clTasks cl)" "taskStep e (clTasks cl ! i) (clTun cl) = (ct, t)"
  shows "slots_ok (cl\<lparr>clTun := ct, clTasks := (clTasks cl)[i := t], clDash := d\<rparr>)"
  using assms balanced_task [of "clTasks cl ! i" "clTun cl" e]
    sum_list_update_nat(1) [OF assms(2), of lslot t] sum_list_update_nat(1) [OF assms(2), of rslot t]
    sum_list_update_nat(2) [OF assms(2), of lslot] sum_list_update_nat(2) [OF assms(2), of rslot]
  by (auto simp: slots_ok_def balanced_def)

lemma other_ct_fields [simp]:
  "ctLocalReqs (fst (handleAddResponse f err ct)) = ctLocalReqs ct" "ctRelaySem (fst (handleAddResponse f err ct)) = ctRelaySem ct"
  "ctLocalReqs (handleDelResponse m ct) = ctLocalReqs ct" "ctRelaySem (handleDelResponse m ct) = ctRelaySem ct"
  "ctLocalReqs (clientStreamData ok f ct) = ctLocalReqs ct" "ctRelaySem (clientStreamData ok f ct) = ctRelaySem ct"
  "ctLocalReqs (clientStreamClose f ct) = ctLocalReqs ct" "ctRelaySem (clientStreamClose f ct) = ctRelaySem ct"
  by (simp_all add: handleAddResponse_def handleDelResponse_def clientStreamData_def clientStreamClose_def putAdd_def
      setMapping_def removeMapping_def Let_def split: option.split sum.split)

lemma Close_fields [simp]: "ctLocalReqs (Close w ct) = ctLocalReqs ct" "ctRelaySem (Close w ct) = ctRelaySem ct"
proof -
  have "ctLocalReqs (fold (\<lambda>(rid, a) c. setRelay a ((ctRelayObjs c ! a)\<lparr>srDone := True, srOpen := False\<rparr>) c) rs c) = ctLocalReqs c \<and>
    ctRelaySem (fold (\<lambda>(rid, a) c. setRelay a ((ctRelayObjs c ! a)\<lparr>srDone := True, srOpen := False\<rparr>) c) rs c) = ctRelaySem c"
    for rs :: "(u64, addr) gomap" and c
    by (induction rs arbitrary: c) auto
  then show "ctLocalReqs (Close w ct) = ctLocalReqs ct" "ctRelaySem (Close w ct) = ctRelaySem ct"
    by (simp_all add: Close_def Let_def)
qed

lemma slots_frame: "slots_ok cl \<Longrightarrow> slots_ok (clientFrame e f cl)"
  by (simp add: clientFrame_def slots_ok_def Let_def)

lemma slots_step: "slots_ok cl \<Longrightarrow> slots_ok (clientStep ev cl)"
proof (induction ev cl rule: clientStep.induct)
  case (1 e msg cl)
  then show ?case by (simp add: slots_frame split: sum.split)
next
  case (2 e i cl)
  then show ?case using slots_task [of cl i e] by (auto split: prod.splits)
next
  case (3 e cl)
  then show ?case by (simp add: slots_ok_def)
next
  case (4 e cl)
  then show ?case by (simp add: slots_ok_def)
qed

section \<open>One response per request\<close>

text \<open>Whether a message on the wire is a response for request \<open>rid\<close>, by the fields of its header.\<close>

definition res_msg :: "u64 \<Rightarrow> bytes \<Rightarrow> bool" where
  "res_msg rid out \<longleftrightarrow> take 1 out = [MsgHTTPRes] \<and> take 8 (drop 9 out) = put_be 8 rid"

definition n_res :: "u64 \<Rightarrow> bytes list \<Rightarrow> nat" where
  "n_res rid outs = length (filter (res_msg rid) outs)"

lemma res_msg_EncodeFrame [simp]: "res_msg rid (EncodeFrame f) \<longleftrightarrow> ftype f = MsgHTTPRes \<and> RequestID f = rid"
  by (auto simp: res_msg_def EncodeFrame_def put_be_inject)

lemma n_res_simps [simp]:
  "n_res rid (ctOut (fst (writeFrame w f ct))) =
     n_res rid (ctOut ct) + (if w \<and> ftype f = MsgHTTPRes \<and> RequestID f = rid then 1 else 0)"
  "n_res rid (ctOut (sendStreamClose w t r ct)) = n_res rid (ctOut ct)"
  "n_res rid (ctOut (writeResponse q w t r p ct)) = n_res rid (ctOut ct) + (if w \<and> r = rid then 1 else 0)"
  "n_res rid (ctOut (sendHTTPError q w t r c m ct)) = n_res rid (ctOut ct) + (if w \<and> r = rid then 1 else 0)"
proof -
  show w: "n_res rid (ctOut (fst (writeFrame w f ct))) =
     n_res rid (ctOut ct) + (if w \<and> ftype f = MsgHTTPRes \<and> RequestID f = rid then 1 else 0)" for f
    by (simp add: writeFrame_def n_res_def)
  show "n_res rid (ctOut (sendStreamClose w t r ct)) = n_res rid (ctOut ct)"
    by (simp add: sendStreamClose_def w) (simp add: msg_defs)
  show r: "n_res rid (ctOut (writeResponse q w t r p ct)) = n_res rid (ctOut ct) + (if w \<and> r = rid then 1 else 0)" for p
    by (simp add: writeResponse_def w Let_def)
  show "n_res rid (ctOut (sendHTTPError q w t r c m ct)) = n_res rid (ctOut ct) + (if w \<and> r = rid then 1 else 0)"
    by (simp add: sendHTTPError_def r)
qed

lemma ctOut_simps [simp]:
  "ctOut (setRelay a r ct) = ctOut ct" "ctOut (setBody a b ct) = ctOut ct" "ctOut (releaseLocal ct) = ctOut ct"
  "ctOut (releaseRelay ct) = ctOut ct" "ctOut (dropBody up rid ct) = ctOut ct" "ctOut (httpDone up rid ct) = ctOut ct"
  "ctOut (fst (openBody rid ct)) = ctOut ct" "ctOut (fst (takeCancel rid ct)) = ctOut ct" "ctOut (fst (openRelay rid ct)) = ctOut ct"
  "ctOut (fst (handleAddResponse f err ct)) = ctOut ct" "ctOut (handleDelResponse m ct) = ctOut ct"
  "ctOut (clientStreamData ok f ct) = ctOut ct" "ctOut (clientStreamClose f ct) = ctOut ct"
  by (simp_all add: setRelay_def setBody_def releaseLocal_def releaseRelay_def dropBody_def httpDone_def openBody_def
      takeCancel_def openRelay_def handleAddResponse_def handleDelResponse_def clientStreamData_def clientStreamClose_def
      putAdd_def setMapping_def removeMapping_def Let_def split: option.split sum.split)

text \<open>Has this goroutine answered request \<open>rid\<close>?\<close>

definition answered_by :: "u64 \<Rightarrow> task \<Rightarrow> nat" where
  "answered_by rid t = (case t of HttpStream _ r _ _ _ \<Rightarrow> of_bool (r = rid) | RelayPump True _ r _ \<Rightarrow> of_bool (r = rid)
     | WsUpgraded _ r \<Rightarrow> of_bool (r = rid)
     | TaskOver (Some r) \<Rightarrow> of_bool (r = rid) | _ \<Rightarrow> 0)"

lemma answered_by_simps [simp]:
  "answered_by rid (HttpNew f) = 0" "answered_by rid (TcpNew f) = 0" "answered_by rid (HttpWait a b req d) = 0"
  "answered_by rid (HttpStream a r u cn ph) = (if r = rid then 1 else 0)" "answered_by rid (WsCall a b d) = 0"
  "answered_by rid (WsUpgraded a r) = (if r = rid then 1 else 0)" "answered_by rid (TcpDial a b p) = 0" "answered_by rid (RelayPump True a r x) = (if r = rid then 1 else 0)"
  "answered_by rid (RelayPump False a r x) = 0"
  "answered_by rid (TaskOver (Some r)) = (if r = rid then 1 else 0)" "answered_by rid (TaskOver None) = 0"
  by (simp_all add: answered_by_def)

definition accounts :: "u64 \<Rightarrow> nat \<Rightarrow> ClientTunnel \<Rightarrow> ClientTunnel \<times> task \<Rightarrow> bool" where
  "accounts rid n ct res \<longleftrightarrow> (case res of (ct', t') \<Rightarrow> n_res rid (ctOut ct') + n = n_res rid (ctOut ct) + answered_by rid t')"

lemma accounts_normal: "accounts rid 0 ct (handleNormalHTTPReq q True ne tid r req ct)"
  by (auto simp: accounts_def handleNormalHTTPReq_def openBody_def Let_def split: option.splits)

lemma accounts_ws: "accounts rid 0 ct (handleWebSocketReq q True tid r req ct)"
  by (auto simp: accounts_def handleWebSocketReq_def Let_def split: option.splits)

lemma accounts_http: "accounts rid 0 ct (handleHTTPReq q True ne frame ct)"
  using accounts_normal [of rid "ct\<lparr>ctLocalReqs := ctLocalReqs ct + 1\<rparr>" q ne "TunnelID frame" "RequestID frame"]
    accounts_ws [of rid "ct\<lparr>ctLocalReqs := ctLocalReqs ct + 1\<rparr>" q "TunnelID frame" "RequestID frame"]
  by (auto simp: accounts_def handleHTTPReq_def Let_def split: sum.splits)

lemma accounts_answered: "accounts rid 0 ct (localAnswered q True out tid r req ct)"
  by (auto simp: accounts_def localAnswered_def streamResponseBody_def takeCancel_def Let_def
      split: localOutcome.splits sum.splits)

lemma accounts_wsAnswered: "accounts rid 0 ct (wsAnswered q True out tid r lr ct)"
  by (auto simp: accounts_def wsAnswered_def Let_def split: wsOutcome.splits)

lemma accounts_wsRelay: "accounts rid (if r = rid then 1 else 0) ct (wsRelay tid r ct)"
  by (auto simp: accounts_def wsRelay_def openRelay_def Let_def)

lemma stream_not_res: "MsgStreamData \<noteq> MsgHTTPRes" "MsgTCPOpen \<noteq> MsgHTTPRes"
  by (simp_all add: msg_defs)

lemma n_res_snoc: "n_res rid (outs @ [EncodeFrame f]) = n_res rid outs + (if ftype f = MsgHTTPRes \<and> RequestID f = rid then 1 else 0)"
  by (simp add: n_res_def)

lemma accounts_pump: "accounts rid (if r = rid then 1 else 0) ct (streamPump w wc d err tid r up cancel ph ct)"
  by (auto simp: accounts_def streamPump_def writeFrame_def n_res_snoc stream_not_res Let_def split: streamPhase.splits)

lemma accounts_tcp:
  "accounts rid 0 ct (handleTCPOpen w frame ct)" "accounts rid 0 ct (tcpDialed w ok tid r ct)"
  "accounts rid (if http \<and> r = rid then 1 else 0) ct (relayPump w wc d err http tid r a ct)"
  by (auto simp: accounts_def handleTCPOpen_def tcpDialed_def relayPump_def openRelay_def writeFrame_def n_res_snoc
      stream_not_res Let_def split: option.splits)

lemma accounts_task:
  assumes "ceWok e"
  shows "accounts rid (answered_by rid t) ct (taskStep e t ct)"
proof (cases t)
  case (RelayPump http tid r a)
  then show ?thesis using accounts_tcp(3) [of rid http r ct] by (cases http) (simp_all add: taskStep_def)
qed (use assms in \<open>simp_all add: taskStep_def accounts_http accounts_tcp accounts_answered accounts_wsAnswered accounts_wsRelay accounts_pump
      accounts_def [of _ _ _ "(ct, TaskOver x)" for x] del: One_nat_def\<close>)

definition answers_ok :: "Client \<Rightarrow> bool" where
  "answers_ok cl \<longleftrightarrow> (\<forall>rid. n_res rid (ctOut (clTun cl)) = sum_list (map (answered_by rid) (clTasks cl)))"

lemma answers_frame: "answers_ok cl \<Longrightarrow> answers_ok (clientFrame e f cl)"
  by (simp add: clientFrame_def answers_ok_def Let_def)

lemma n_res_Close: "n_res rid (ctOut (Close w ct)) = n_res rid (ctOut ct)"
proof -
  have "ctOut (fold (\<lambda>(rid, a) c. setRelay a ((ctRelayObjs c ! a)\<lparr>srDone := True, srOpen := False\<rparr>) c) rs c) = ctOut c"
    for rs :: "(u64, addr) gomap" and c by (induction rs arbitrary: c) auto
  then show ?thesis by (simp add: Close_def Let_def) (simp add: msg_defs)
qed

lemma answers_step: "answers_ok cl \<Longrightarrow> ceWok (fst ev) \<Longrightarrow> answers_ok (clientStep ev cl)"
proof (induction ev cl rule: clientStep.induct)
  case (1 e msg cl)
  then show ?case by (simp add: answers_frame split: sum.split)
next
  case (2 e i cl)
  show ?case
  proof (cases "i < length (clTasks cl)")
    case True
    obtain ct t where s: "taskStep e (clTasks cl ! i) (clTun cl) = (ct, t)" by fastforce
    have "n_res rid (ctOut ct) = sum_list (map (answered_by rid) ((clTasks cl)[i := t]))" for rid
      using accounts_task [of e rid "clTasks cl ! i" "clTun cl"] s 2 sum_list_update_nat(1) [OF True, of "answered_by rid" t]
      by (simp add: accounts_def answers_ok_def)
    then show ?thesis using True s by (simp add: answers_ok_def)
  qed (use 2 in simp)
next
  case (3 e cl)
  then show ?case by (simp add: answers_ok_def)
next
  case (4 e cl)
  then show ?case by (simp add: answers_ok_def n_res_Close)
qed

lemma client_run_inv:
  "slots_ok cl \<Longrightarrow> answers_ok cl \<Longrightarrow> \<forall>ev \<in> set evs. ceWok (fst ev) \<Longrightarrow>
   slots_ok (clientRun evs cl) \<and> answers_ok (clientRun evs cl)"
  unfolding clientRun_def
  by (induction evs arbitrary: cl) (simp_all add: slots_step answers_step)

text \<open>
  C11. What the client owes the server, under every interleaving of its read loop and goroutines: at any
  time the two counters are exactly the slots the running goroutines hold and within their limits of
  100 and 200, so no path leaks a slot; and as long as writes succeed, for every request ID exactly as
  many response frames went out as goroutines serving it have answered: a request that is over was
  answered once, and one that still waits for the local service not yet.
\<close>

theorem client_answers_and_slots:
  fixes dash :: "Dashboard option"
  assumes "ctLocalReqs ct = 0" "ctRelaySem ct = 0" "ctOut ct = []" "\<forall>ev \<in> set evs. ceWok (fst ev)"
  defines "cl \<equiv> clientRun evs (startClient ct dash)"
  shows "ctLocalReqs (clTun cl) = sum_list (map lslot (clTasks cl)) \<and> ctLocalReqs (clTun cl) \<le> 100 \<and>
    ctRelaySem (clTun cl) = sum_list (map rslot (clTasks cl)) \<and> ctRelaySem (clTun cl) \<le> 200 \<and>
    n_res rid (ctOut (clTun cl)) = sum_list (map (answered_by rid) (clTasks cl))"
proof -
  have "slots_ok (startClient ct dash)" "answers_ok (startClient ct dash)"
    using assms(1-3) by (simp_all add: startClient_def slots_ok_def answers_ok_def n_res_def)
  from client_run_inv [OF this assms(4)] show ?thesis
    by (simp add: cl_def slots_ok_def answers_ok_def maxConcurrentLocalReqs_def maxConcurrentRelays_def)
qed

definition sample_cenv :: cenv where
  "sample_cenv = \<lparr>ceQuote = (\<lambda>s. s), ceWok = True, ceWokClose = True, ceNewReqErr = None, ceLocalOk = True,
     ceLocal = LocalAnswer 200 [] (Inr [7]), ceWs = WsLocalError '''', ceData = [], ceErr = False, ceStarted = 0, ceNow = 0\<rparr>"

definition sample_client_tunnel :: ClientTunnel where
  "sample_client_tunnel = setMapping 7 8080 ''app.x.io'' (NewTunnel '''' [8080] [] [] [])"

definition sample_req_msg :: bytes where
  "sample_req_msg = EncodeFrame \<lparr>ftype = MsgHTTPReq, TunnelID = 7, RequestID = 1,
     Payload = [0, 1, 71, 0, 1, 47, 0, 0, 0, 0, 0, 0, 0, 0]\<rparr>"

definition sample_client_run :: "(cenv \<times> clientEvent) list" where
  "sample_client_run = [(sample_cenv, Msg sample_req_msg), (sample_cenv, Go 0), (sample_cenv, Go 0)]"

lemma sample_req_dec: "DecodeHTTPRequest [0, 1, 71, 0, 1, 47, 0, 0, 0, 0, 0, 0, 0, 0] = Inr sample_req"
proof -
  have "request_fits sample_req" by (simp add: request_fits_def headers_fit_def header_fits_def body_fits_def sample_req_def limit_defs)
  then show ?thesis using reqC.decode_enc sample_req_enc by blast
qed

theorem client_answers_and_slots_witness:
  "let cl = clientRun sample_client_run (startClient sample_client_tunnel None) in
   ctLocalReqs (clTun cl) = sum_list (map lslot (clTasks cl)) \<and> ctLocalReqs (clTun cl) \<le> 100 \<and>
   ctRelaySem (clTun cl) = sum_list (map rslot (clTasks cl)) \<and> ctRelaySem (clTun cl) \<le> 200 \<and>
   n_res 1 (ctOut (clTun cl)) = sum_list (map (answered_by 1) (clTasks cl))"
proof -
  have "ctLocalReqs sample_client_tunnel = 0" "ctRelaySem sample_client_tunnel = 0" "ctOut sample_client_tunnel = []"
    by (simp_all add: sample_client_tunnel_def setMapping_def NewTunnel_def)
  moreover have "\<forall>ev \<in> set sample_client_run. ceWok (fst ev)"
    by (simp add: sample_client_run_def sample_cenv_def)
  ultimately show ?thesis
    unfolding Let_def by (rule client_answers_and_slots)
qed

end
