(* ===== verification/EndToEnd.thy ===== *)
theory EndToEnd
  imports ClientFlow
begin

text \<open>
  Client and server together: a request that the proxy puts on the wire, the client's read loop and
  goroutine that bring it to the local service, and the response on its way back to the visitor.
\<close>

section \<open>The client's goroutines keep their places\<close>

text \<open>An event that is not a turn of goroutine \<open>i\<close>.\<close>

definition spares :: "nat \<Rightarrow> cenv \<times> clientEvent \<Rightarrow> bool" where
  "spares i ev \<longleftrightarrow> snd ev \<noteq> Go i"

lemma clientFrame_tasks: "\<exists>ts. clTasks (clientFrame e f cl) = clTasks cl @ ts"
  by (simp add: clientFrame_def Let_def)

lemma spares_step:
  "spares i ev \<Longrightarrow> i < length (clTasks cl) \<Longrightarrow>
   i < length (clTasks (clientStep ev cl)) \<and> clTasks (clientStep ev cl) ! i = clTasks cl ! i"
proof (induction ev cl rule: clientStep.induct)
  case (1 e msg cl)
  then show ?case using clientFrame_tasks [of e _ cl]
    by (auto simp: nth_append split: sum.split) (metis length_append nth_append trans_less_add1)+
next
  case (2 e j cl)
  then show ?case by (auto simp: spares_def split: prod.splits)
qed simp_all

lemma spares_run:
  "list_all (spares i) evs \<Longrightarrow> i < length (clTasks cl) \<Longrightarrow>
   i < length (clTasks (clientRun evs cl)) \<and> clTasks (clientRun evs cl) ! i = clTasks cl ! i"
  unfolding clientRun_def by (induction evs arbitrary: cl) (simp_all add: spares_step)

section \<open>One exchange on the client\<close>

lemma client_receives:
  assumes "clRunning cl" "length (Payload f) \<le> MaxFrameSize" "ftype f = MsgHTTPReq"
  shows "clientStep (e, Msg (EncodeFrame f)) cl = cl\<lparr>clTasks := clTasks cl @ [HttpNew f]\<rparr>"
  using assms by (simp add: Decode_Encode clientFrame_def)

lemma portFor_slots [simp]: "portFor (ct\<lparr>ctLocalReqs := n\<rparr>) = portFor ct"
  by (simp add: portFor_def fun_eq_iff)

lemma client_asks_local:
  assumes "DecodeHTTPRequest (Payload f) = Inr req" "\<not> IsWebSocketUpgradeReq req" "\<not> reqBodyStreamed req"
    "ctLocalReqs ct < 100" "portFor ct (TunnelID f) = Some port" "ceNewReqErr e = None"
  shows "snd (taskStep e (HttpNew f) ct) = HttpWait (TunnelID f) (RequestID f) req
      (localRequest (reqMethod req) port (reqPath req) (reqHeaders req) (reqBody req))"
  using assms by (simp add: taskStep_def handleHTTPReq_def handleNormalHTTPReq_def maxConcurrentLocalReqs_def Let_def)

lemma writeResponse_out:
  assumes "EncodeHTTPResponse resp = Inr p" "length p \<le> MaxFrameSize"
  shows "ctOut (writeResponse q True tid rid resp ct) =
    ctOut ct @ [EncodeFrame \<lparr>ftype = MsgHTTPRes, TunnelID = tid, RequestID = rid, Payload = p\<rparr>]"
  using assms by (simp add: writeResponse_def writeFrame_def reply_payload_def)

lemma ctOut_httpDone [simp]: "ctOut (httpDone up rid ct) = ctOut ct"
  by (simp add: httpDone_def releaseLocal_def dropBody_def)

lemma client_answers:
  assumes "ceLocal e = LocalAnswer status hs (Inr body)" "length body \<le> InlineBodyLimit" "ceWok e"
    "EncodeHTTPResponse \<lparr>respStatusCode = of_nat status, respHeaders = hs, respBody = body, respBodyStreamed = False\<rparr> = Inr p"
    "length p \<le> MaxFrameSize"
  shows "ctOut (fst (taskStep e (HttpWait tid rid req lr) ct)) =
    ctOut ct @ [EncodeFrame \<lparr>ftype = MsgHTTPRes, TunnelID = tid, RequestID = rid, Payload = p\<rparr>]"
  using assms writeResponse_out [OF assms(4,5)]
  by (simp add: taskStep_def localAnswered_def Let_def)

text \<open>
  From the frame with the request to the frame with the answer, with anything else happening on the
  client before goroutine \<open>i\<close> gets its first and its second turn.
\<close>

lemma client_exchange:
  assumes "clRunning cl" "length (Payload f) \<le> MaxFrameSize" "ftype f = MsgHTTPReq"
    and "DecodeHTTPRequest (Payload f) = Inr req" "\<not> IsWebSocketUpgradeReq req" "\<not> reqBodyStreamed req"
    and "i = length (clTasks cl)" "list_all (spares i) evs1" "list_all (spares i) evs2"
    and "cl1 = clientRun ((e1, Msg (EncodeFrame f)) # evs1) cl" "ctLocalReqs (clTun cl1) < 100"
    and "portFor (clTun cl1) (TunnelID f) = Some port" "ceNewReqErr e2 = None"
    and "cl2 = clientRun ((e2, Go i) # evs2) cl1"
    and "ceLocal e3 = LocalAnswer status hs (Inr body)" "length body \<le> InlineBodyLimit" "ceWok e3"
    and "EncodeHTTPResponse \<lparr>respStatusCode = of_nat status, respHeaders = hs, respBody = body, respBodyStreamed = False\<rparr> = Inr p"
    and "length p \<le> MaxFrameSize"
  shows "clTasks cl2 ! i = HttpWait (TunnelID f) (RequestID f) req
      (localRequest (reqMethod req) port (reqPath req) (reqHeaders req) (reqBody req)) \<and>
    ctOut (clTun (clientStep (e3, Go i) cl2)) = ctOut (clTun cl2) @
      [EncodeFrame \<lparr>ftype = MsgHTTPRes, TunnelID = TunnelID f, RequestID = RequestID f, Payload = p\<rparr>]"
proof -
  let ?lr = "localRequest (reqMethod req) port (reqPath req) (reqHeaders req) (reqBody req)"
  have t1: "i < length (clTasks cl1) \<and> clTasks cl1 ! i = HttpNew f"
    using spares_run [OF assms(8), of "cl\<lparr>clTasks := clTasks cl @ [HttpNew f]\<rparr>"] client_receives [OF assms(1-3)] assms(7,10)
    by (simp add: clientRun_def)
  obtain ct t where s: "taskStep e2 (HttpNew f) (clTun cl1) = (ct, t)" by fastforce
  have t: "t = HttpWait (TunnelID f) (RequestID f) req ?lr"
    using client_asks_local [OF assms(4-6,11-13)] s by simp
  have t2: "i < length (clTasks cl2) \<and> clTasks cl2 ! i = HttpWait (TunnelID f) (RequestID f) req ?lr"
    using spares_run [OF assms(9), of "clientStep (e2, Go i) cl1"] t1 s t assms(14) by (simp add: clientRun_def)
  obtain ct' t' where s': "taskStep e3 (clTasks cl2 ! i) (clTun cl2) = (ct', t')" by fastforce
  then show ?thesis
    using client_answers [OF assms(15-19), of "TunnelID f" "RequestID f" req ?lr "clTun cl2"] t2 by simp
qed

end
