(* ===== verification/Streams.thy ===== *)
theory Streams
  imports ClientFlow
begin

text \<open>
  Bodies streamed through the client, \<^verbatim>\<open>internal/client/tunnel.go\<close>: an upload from the server's stream
  frames through the buffer of \<^verbatim>\<open>bodyStream\<close> to the reads of the local request, and a large local response
  through \<^verbatim>\<open>streamResponseBody\<close> to the stream frames of the answer.
\<close>

section \<open>Uploads\<close>

text \<open>
  What happens around one streamed upload: a frame the read loop handles; the goroutine enters the stream
  into the map, \<open>UpOpen\<close>; the transport calls \<^verbatim>\<open>Read\<close> with a buffer of the given size; the goroutine ends and
  its deferred call takes the stream out of the map, \<open>UpDone\<close>.
\<close>

datatype upEvent = UpFrame bool Frame | UpOpen | UpRead bool nat | UpDone

text \<open>Where the goroutine of the upload is.\<close>

datatype upPhase = UpWaiting | UpReading addr | UpGone addr

text \<open>The state: the tunnel, the goroutine, what is left of the last chunk, all bytes read so far, and the last read's result.\<close>

type_synonym upload = "ClientTunnel \<times> upPhase \<times> bytes \<times> bytes \<times> readOut option"

definition upFrame :: "bool \<Rightarrow> Frame \<Rightarrow> ClientTunnel \<Rightarrow> ClientTunnel" where
  "upFrame lok f ct =
     (if ftype f = MsgStreamData then clientStreamData lok f ct
      else if ftype f = MsgStreamClose then clientStreamClose f ct else ct)"

definition upRead :: "addr \<Rightarrow> bool \<Rightarrow> nat \<Rightarrow> ClientTunnel \<Rightarrow> bytes \<Rightarrow> bytes \<Rightarrow> ClientTunnel \<times> bytes \<times> bytes \<times> readOut option" where
  "upRead a pick n ct rem got =
     (case bodyRead pick n (ctDone ct) (rem, ctBodyObjs ct ! a) of
        ((rem', bs), r) \<Rightarrow> (setBody a bs ct, rem', got @ (case r of ReadData d \<Rightarrow> d | _ \<Rightarrow> []), Some r))"

definition upStep :: "u64 \<Rightarrow> upEvent \<Rightarrow> upload \<Rightarrow> upload" where
  "upStep rid ev st = (case st of (ct, h, rem, got, out) \<Rightarrow>
     (case ev of
        UpFrame lok f \<Rightarrow> (upFrame lok f ct, h, rem, got, out)
      | UpOpen \<Rightarrow> (case h of
            UpWaiting \<Rightarrow> (case openBody rid ct of (ct1, a) \<Rightarrow> (ct1, UpReading a, rem, got, out))
          | _ \<Rightarrow> st)
      | UpRead pick n \<Rightarrow> (case h of
            UpWaiting \<Rightarrow> st
          | UpReading a \<Rightarrow> (case upRead a pick n ct rem got of (ct1, rest) \<Rightarrow> (ct1, h, rest))
          | UpGone a \<Rightarrow> (case upRead a pick n ct rem got of (ct1, rest) \<Rightarrow> (ct1, h, rest)))
      | UpDone \<Rightarrow> (case h of
            UpReading a \<Rightarrow> (dropBody True rid ct, UpGone a, rem, got, out)
          | _ \<Rightarrow> st)))"

text \<open>The upload as the server sent it: the chunks for a request up to its first close frame.\<close>

fun chunks :: "u64 \<Rightarrow> upEvent list \<Rightarrow> bytes" where
  "chunks rid [] = []"
| "chunks rid (UpFrame lok f # evs) =
     (if RequestID f = rid \<and> ftype f = MsgStreamClose then []
      else if RequestID f = rid \<and> ftype f = MsgStreamData then Payload f @ chunks rid evs
      else chunks rid evs)"
| "chunks rid (ev # evs) = chunks rid evs"

fun closes :: "u64 \<Rightarrow> upEvent list \<Rightarrow> bool" where
  "closes rid [] = False"
| "closes rid (UpFrame lok f # evs) = (RequestID f = rid \<and> ftype f = MsgStreamClose \<or> closes rid evs)"
| "closes rid (ev # evs) = closes rid evs"

text \<open>What happens once the stream is in the map, and whether nothing of the upload came before.\<close>

fun opened :: "upEvent list \<Rightarrow> upEvent list" where
  "opened [] = []"
| "opened (ev # evs) = (if ev = UpOpen then evs else opened evs)"

fun in_time :: "u64 \<Rightarrow> upEvent list \<Rightarrow> bool" where
  "in_time rid [] = True"
| "in_time rid (UpOpen # evs) = True"
| "in_time rid (UpFrame lok f # evs) =
     (\<not> (RequestID f = rid \<and> ftype f \<in> {MsgStreamData, MsgStreamClose}) \<and> in_time rid evs)"
| "in_time rid (ev # evs) = in_time rid evs"

lemma opened_snoc: "opened (evs @ [ev]) = (if UpOpen \<in> set evs then opened evs @ [ev] else [])"
  by (induction evs) auto

lemma in_time_opened: "in_time rid evs \<Longrightarrow> chunks rid evs = chunks rid (opened evs) \<and> closes rid evs = closes rid (opened evs)"
  by (induction rid evs rule: in_time.induct) auto

lemma chunks_append: "chunks rid (xs @ ys) = chunks rid xs @ (if closes rid xs then [] else chunks rid ys)"
  by (induction rid xs rule: chunks.induct) auto

lemma closes_append: "closes rid (xs @ ys) \<longleftrightarrow> closes rid xs \<or> closes rid ys"
  by (induction rid xs rule: closes.induct) auto

text \<open>
  \<open>gone\<close>: the goroutine has ended; \<open>there\<close>: the map still has the stream; \<open>held\<close>: what was read and what
  waits; \<open>sent\<close> and \<open>ended\<close>: the upload since the stream was opened.
\<close>

definition held_ok :: "bool \<Rightarrow> bool \<Rightarrow> bodyStream \<Rightarrow> bytes \<Rightarrow> bytes \<Rightarrow> bool \<Rightarrow> bool" where
  "held_ok gone there bs held sent ended \<longleftrightarrow>
     (bsAborted bs \<longrightarrow> bsClosed bs) \<and> (if gone then \<not> there else there \<longleftrightarrow> \<not> bsClosed bs) \<and>
     (\<not> bsAborted bs \<and> \<not> gone \<longrightarrow> held = sent) \<and>
     (if bsClosed bs \<and> \<not> bsAborted bs then ended \<and> held = sent else ended \<longrightarrow> bsAborted bs \<or> gone) \<and>
     (\<exists>rest. sent = held @ rest)"

text \<open>
  What is read, buffered in the reader and buffered in the channel is the upload since the stream was
  opened: all of it while the stream is open or ended by the server, a prefix once the client aborted it
  or the goroutine is gone.
\<close>

definition up_inv :: "u64 \<Rightarrow> bool \<Rightarrow> addr \<Rightarrow> upEvent list \<Rightarrow> ClientTunnel \<times> bytes \<times> bytes \<times> readOut option \<Rightarrow> bool" where
  "up_inv rid gone a past st \<longleftrightarrow> (case st of (ct, rem, got, out) \<Rightarrow>
     a < length (ctBodyObjs ct) \<and> map_of (ctRelays ct) rid = None \<and>
     (\<forall>rid'. rid' \<noteq> rid \<longrightarrow> map_of (ctBodyStreams ct) rid' \<noteq> Some a) \<and>
     map_of (ctBodyStreams ct) rid \<in> {None, Some a} \<and>
     held_ok gone (map_of (ctBodyStreams ct) rid = Some a) (ctBodyObjs ct ! a)
       (got @ rem @ concat (bsCh (ctBodyObjs ct ! a))) (chunks rid past) (closes rid past) \<and>
     (out = Some ReadEOF \<longrightarrow> bsClosed (ctBodyObjs ct ! a) \<and> \<not> bsAborted (ctBodyObjs ct ! a) \<and> rem = [] \<and>
        bsCh (ctBodyObjs ct ! a) = []))"

lemma bodyFill_concat: "bodyFill q rem = (q', rem') \<Longrightarrow> rem' @ concat q' = rem @ concat q"
  by (induction q rem rule: bodyFill.induct) (auto split: if_splits)

lemma bodyFill_empty: "bodyFill q rem = (q', []) \<Longrightarrow> q' = []"
  by (induction q rem rule: bodyFill.induct) (auto split: if_splits)

lemma held_more:
  assumes "held_ok gone there bs held sent ended" "bsAborted bs' = bsAborted bs" "bsClosed bs' = bsClosed bs"
  shows "held_ok gone there bs' held sent ended"
  using assms by (simp add: held_ok_def)

lemma up_read:
  assumes "up_inv rid gone a past (ct, rem, got, out)"
  shows "up_inv rid gone a (past @ [UpRead pick n]) (upRead a pick n ct rem got)"
proof -
  let ?bs = "ctBodyObjs ct ! a"
  obtain q rem' where f: "bodyFill (bsCh ?bs) rem = (q, rem')" by fastforce
  have c: "rem' @ concat q = rem @ concat (bsCh ?bs)" and e: "rem' = [] \<Longrightarrow> q = []"
    using bodyFill_concat [OF f] bodyFill_empty [of "bsCh ?bs" rem q] f by auto
  have t: "take n rem' @ drop n rem' @ concat q = rem' @ concat q"
    by (metis append.assoc append_take_drop_id)
  have same: "chunks rid (past @ [UpRead pick n]) = chunks rid past" "closes rid (past @ [UpRead pick n]) = closes rid past"
    by (simp_all add: chunks_append closes_append)
  have a: "a < length (ctBodyObjs ct)" using assms by (simp add: up_inv_def)
  obtain rem2 bs2 r where r: "bodyRead pick n (ctDone ct) (rem, ?bs) = ((rem2, bs2), r)" by (metis prod.exhaust)
  define d where "d = (case r of ReadData d \<Rightarrow> d | _ \<Rightarrow> [])"
  have x: "d @ rem2 @ concat (bsCh bs2) = rem @ concat (bsCh ?bs)" "bsAborted bs2 = bsAborted ?bs" "bsClosed bs2 = bsClosed ?bs"
    "r = ReadEOF \<longrightarrow> bsClosed ?bs \<and> \<not> bsAborted ?bs \<and> rem2 = [] \<and> bsCh bs2 = []"
    using r f c e t by (auto simp: bodyRead_def d_def split: if_splits)
  have "held_ok gone (map_of (ctBodyStreams ct) rid = Some a) bs2 ((got @ d) @ rem2 @ concat (bsCh bs2)) (chunks rid past) (closes rid past)"
    using assms held_more [OF _ x(2,3)] x(1) by (simp add: up_inv_def)
  then show ?thesis using assms a r same x
    by (simp add: up_inv_def upRead_def setBody_def d_def)
qed

text \<open>A frame of another request, or for a stream the map has given up, leaves the stream alone.\<close>

lemma frame_elsewhere:
  assumes "up_inv rid gone a past (ct, rem, got, out)" "RequestID f \<noteq> rid \<or> map_of (ctBodyStreams ct) rid = None"
  shows "ctBodyObjs (upFrame lok f ct) ! a = ctBodyObjs ct ! a \<and>
    length (ctBodyObjs (upFrame lok f ct)) = length (ctBodyObjs ct) \<and>
    map_of (ctRelays (upFrame lok f ct)) rid = None \<and>
    map_of (ctBodyStreams (upFrame lok f ct)) rid = map_of (ctBodyStreams ct) rid \<and>
    (\<forall>rid'. rid' \<noteq> rid \<longrightarrow> map_of (ctBodyStreams (upFrame lok f ct)) rid' \<noteq> Some a)"
proof -
  have "map_of (ctRelays ct) rid = None" "\<forall>rid'. rid' \<noteq> rid \<longrightarrow> map_of (ctBodyStreams ct) rid' \<noteq> Some a"
    using assms(1) by (simp_all add: up_inv_def)
  with assms(2) show ?thesis
    by (auto simp: upFrame_def clientStreamData_def clientStreamClose_def relayOf_def setRelay_def setBody_def Let_def
        delete_conv' nth_list_update split: option.splits)
qed

lemma up_elsewhere:
  assumes "up_inv rid gone a past (ct, rem, got, out)" "RequestID f \<noteq> rid \<or> map_of (ctBodyStreams ct) rid = None"
  shows "up_inv rid gone a (past @ [UpFrame lok f]) (upFrame lok f ct, rem, got, out)"
proof -
  note f = frame_elsewhere [OF assms, of lok]
  let ?bs = "ctBodyObjs ct ! a"
  have h: "held_ok gone (map_of (ctBodyStreams ct) rid = Some a) ?bs (got @ rem @ concat (bsCh ?bs)) (chunks rid past) (closes rid past)"
    using assms(1) by (simp add: up_inv_def)
  have "held_ok gone (map_of (ctBodyStreams ct) rid = Some a) ?bs (got @ rem @ concat (bsCh ?bs))
      (chunks rid (past @ [UpFrame lok f])) (closes rid (past @ [UpFrame lok f]))"
    using h assms(2) by (auto simp: held_ok_def chunks_append closes_append split: if_splits)
  then show ?thesis using assms(1) f by (simp add: up_inv_def)
qed

lemma up_here:
  assumes "up_inv rid gone a past (ct, rem, got, out)" "RequestID f = rid" "map_of (ctBodyStreams ct) rid = Some a"
  shows "up_inv rid gone a (past @ [UpFrame lok f]) (upFrame lok f ct, rem, got, out)"
proof -
  let ?bs = "ctBodyObjs ct ! a"
  have i: "a < length (ctBodyObjs ct)" "map_of (ctRelays ct) rid = None" "\<not> bsClosed ?bs" "\<not> bsAborted ?bs"
    "\<not> closes rid past" "got @ rem @ concat (bsCh ?bs) = chunks rid past" "out \<noteq> Some ReadEOF" "\<not> gone"
    "\<forall>rid'. rid' \<noteq> rid \<longrightarrow> map_of (ctBodyStreams ct) rid' \<noteq> Some a"
    using assms(1,3) by (auto simp: up_inv_def held_ok_def split: if_splits)
  have types: "MsgStreamData \<noteq> MsgStreamClose" by (simp add: msg_defs)
  consider (data) "ftype f = MsgStreamData" | (shut) "ftype f = MsgStreamClose"
    | (none) "ftype f \<noteq> MsgStreamData" "ftype f \<noteq> MsgStreamClose" by blast
  then show ?thesis
  proof cases
    case data
    have c: "chunks rid (past @ [UpFrame lok f]) = chunks rid past @ Payload f" "\<not> closes rid (past @ [UpFrame lok f])"
      using data types i(5) assms(2) by (auto simp: chunks_append closes_append)
    have u: "upFrame lok f ct = (if length (bsCh ?bs) < StreamRelayBuf then setBody a (?bs\<lparr>bsCh := bsCh ?bs @ [Payload f]\<rparr>) ct
        else setBody a (?bs\<lparr>bsAborted := True, bsClosed := True\<rparr>) (ct\<lparr>ctBodyStreams := AList.delete rid (ctBodyStreams ct)\<rparr>))"
      using data assms(2,3) i(2) by (simp add: upFrame_def clientStreamData_def relayOf_def Let_def)
    show ?thesis unfolding u using i c assms(3)
      by (simp add: up_inv_def held_ok_def setBody_def delete_conv' i(6) [symmetric])
  next
    case shut
    have c: "chunks rid (past @ [UpFrame lok f]) = chunks rid past" "closes rid (past @ [UpFrame lok f])"
      using shut types i(5) assms(2) by (auto simp: chunks_append closes_append)
    have u: "upFrame lok f ct = setBody a (?bs\<lparr>bsClosed := True\<rparr>) (ct\<lparr>ctBodyStreams := AList.delete rid (ctBodyStreams ct)\<rparr>)"
      using shut types assms(2,3) i(2) by (simp add: upFrame_def clientStreamClose_def relayOf_def Let_def)
    show ?thesis unfolding u using i c by (simp add: up_inv_def held_ok_def setBody_def delete_conv' i(6) [symmetric])
  next
    case none
    then have "chunks rid (past @ [UpFrame lok f]) = chunks rid past" "\<not> closes rid (past @ [UpFrame lok f])"
      using i(5) by (auto simp: chunks_append closes_append)
    then show ?thesis using none i(1-5,7-9) assms(3) by (simp add: up_inv_def held_ok_def upFrame_def i(6) [symmetric])
  qed
qed

lemma up_frame:
  assumes "up_inv rid gone a past (ct, rem, got, out)"
  shows "up_inv rid gone a (past @ [UpFrame lok f]) (upFrame lok f ct, rem, got, out)"
proof -
  have "map_of (ctBodyStreams ct) rid \<in> {None, Some a}" using assms by (simp add: up_inv_def)
  then show ?thesis using up_here up_elsewhere assms by blast
qed

lemma up_idle:
  assumes "up_inv rid gone a past st" "ev = UpOpen \<or> ev = UpDone"
  shows "up_inv rid gone a (past @ [ev]) st"
  using assms by (auto simp: up_inv_def chunks_append closes_append)

text \<open>The deferred call only takes the stream out of the map.\<close>

lemma up_done:
  assumes "up_inv rid False a past (ct, rem, got, out)"
  shows "up_inv rid True a (past @ [UpDone]) (dropBody True rid ct, rem, got, out)"
  using assms by (auto simp: up_inv_def held_ok_def dropBody_def delete_conv' chunks_append closes_append)

lemma up_opened:
  assumes "map_of (ctRelays ct) rid = None" "\<forall>b \<in> ran (map_of (ctBodyStreams ct)). b < length (ctBodyObjs ct)"
    and "openBody rid ct = (ct1, a)"
  shows "up_inv rid False a [] (ct1, [], [], None)"
  using assms ranI [of "map_of (ctBodyStreams ct)"]
  by (fastforce simp: up_inv_def openBody_def held_ok_def update_conv' Let_def)

text \<open>Over the whole life of the upload: what came before the goroutine entered the stream is not counted.\<close>

definition up_all :: "u64 \<Rightarrow> upEvent list \<Rightarrow> upload \<Rightarrow> bool" where
  "up_all rid past st \<longleftrightarrow> (case st of (ct, h, rest) \<Rightarrow>
     (case h of
        UpWaiting \<Rightarrow> UpOpen \<notin> set past \<and> rest = ([], [], None) \<and> map_of (ctRelays ct) rid = None \<and>
          (\<forall>b \<in> ran (map_of (ctBodyStreams ct)). b < length (ctBodyObjs ct))
      | UpReading a \<Rightarrow> UpOpen \<in> set past \<and> up_inv rid False a (opened past) (ct, rest)
      | UpGone a \<Rightarrow> UpOpen \<in> set past \<and> up_inv rid True a (opened past) (ct, rest)))"

lemma ran_delete: "ran (map_of (AList.delete k xs)) \<subseteq> ran (map_of xs)"
  by (auto simp: delete_conv' ran_def split: if_splits)

lemma waiting_frame:
  assumes "map_of (ctRelays ct) rid = None" "\<forall>b \<in> ran (map_of (ctBodyStreams ct)). b < length (ctBodyObjs ct)"
  shows "map_of (ctRelays (upFrame lok f ct)) rid = None \<and>
    (\<forall>b \<in> ran (map_of (ctBodyStreams (upFrame lok f ct))). b < length (ctBodyObjs (upFrame lok f ct)))"
proof -
  have d: "\<forall>b \<in> ran (map_of (AList.delete k (ctBodyStreams ct))). b < length (ctBodyObjs ct)" for k
    using assms(2) ran_delete by fastforce
  show ?thesis using assms d
    by (auto simp: upFrame_def clientStreamData_def clientStreamClose_def relayOf_def setRelay_def setBody_def Let_def
        delete_conv' split: option.splits)
qed

lemma up_step:
  assumes "up_all rid past st"
  shows "up_all rid (past @ [ev]) (upStep rid ev st)"
proof -
  obtain ct h rem got out where st: "st = (ct, h, rem, got, out)" by (metis prod_cases5)
  show ?thesis
  proof (cases h)
    case UpWaiting
    then have w: "UpOpen \<notin> set past" "rem = [] \<and> got = [] \<and> out = None" "map_of (ctRelays ct) rid = None"
      "\<forall>b \<in> ran (map_of (ctBodyStreams ct)). b < length (ctBodyObjs ct)"
      using assms st by (simp_all add: up_all_def)
    show ?thesis
    proof (cases ev)
      case (UpFrame lok f)
      then show ?thesis using waiting_frame [OF w(3,4), of lok f] w UpWaiting st by (simp add: up_all_def upStep_def)
    next
      case UpOpen
      obtain ct1 a where o: "openBody rid ct = (ct1, a)" by fastforce
      then show ?thesis using up_opened [OF w(3,4) o] w UpWaiting st UpOpen
        by (simp add: up_all_def upStep_def opened_snoc)
    qed (use w UpWaiting st in \<open>simp_all add: up_all_def upStep_def\<close>)
  next
    case (UpReading a)
    then have u: "UpOpen \<in> set past" "up_inv rid False a (opened past) (ct, rem, got, out)"
      using assms st by (simp_all add: up_all_def)
    show ?thesis
    proof (cases ev)
      case (UpRead pick n)
      then show ?thesis using up_read [OF u(2), of pick n] u UpReading st
        by (auto simp: up_all_def upStep_def opened_snoc split: prod.split)
    qed (use u up_frame [OF u(2)] up_idle [OF u(2)] up_done [OF u(2)] UpReading st in
        \<open>simp_all add: up_all_def upStep_def opened_snoc\<close>)
  next
    case (UpGone a)
    then have u: "UpOpen \<in> set past" "up_inv rid True a (opened past) (ct, rem, got, out)"
      using assms st by (simp_all add: up_all_def)
    show ?thesis
    proof (cases ev)
      case (UpRead pick n)
      then show ?thesis using up_read [OF u(2), of pick n] u UpGone st
        by (auto simp: up_all_def upStep_def opened_snoc split: prod.split)
    qed (use u up_frame [OF u(2)] up_idle [OF u(2)] UpGone st in \<open>simp_all add: up_all_def upStep_def opened_snoc\<close>)
  qed
qed

lemma up_steps: "up_all rid past st \<Longrightarrow> up_all rid (past @ evs) (fold (upStep rid) evs st)"
  by (induction evs arbitrary: past st) (simp_all, metis append.assoc append_Cons append_Nil up_step)

lemma up_inv_facts:
  assumes "up_inv rid gone a past (ct, rem, got, out)"
  shows "\<exists>rest. chunks rid past = got @ rest"
    and "\<not> gone \<Longrightarrow> \<not> bsAborted (ctBodyObjs ct ! a) \<Longrightarrow> chunks rid past = got @ rem @ concat (bsCh (ctBodyObjs ct ! a))"
    and "out = Some ReadEOF \<Longrightarrow> closes rid past \<and> got = chunks rid past \<and> \<not> bsAborted (ctBodyObjs ct ! a)"
  using assms by (auto simp: up_inv_def held_ok_def)




section \<open>Chunks that come too early\<close>

text \<open>
  The read loop starts a goroutine for a request and goes on; only the goroutine opens the stream. A chunk
  of the upload that is read before it has done so finds no stream and is dropped without a trace.
\<close>

lemma early_chunk_is_dropped:
  assumes "clRunning cl" "ftype f = MsgHTTPReq" "ftype d = MsgStreamData"
    and "length (Payload f) \<le> MaxFrameSize" "length (Payload d) \<le> MaxFrameSize"
    and "map_of (ctRelays (clTun cl)) (RequestID d) = None" "map_of (ctBodyStreams (clTun cl)) (RequestID d) = None"
  shows "clientRun [(e, Msg (EncodeFrame f)), (e, Msg (EncodeFrame d))] cl = clientRun [(e, Msg (EncodeFrame f))] cl"
proof -
  have "clientStreamData lok d (clTun cl) = clTun cl" for lok
    using assms(6,7) by (simp add: clientStreamData_def relayOf_def)
  then show ?thesis using assms(1-5)
    by (simp add: clientRun_def Decode_Encode clientFrame_def) (simp add: msg_defs)
qed

text \<open>
  The same for a WebSocket: the answer 101 goes out before the relay is entered, and what the visitor
  sends in between finds no relay.
\<close>

lemma early_ws_data_is_dropped:
  assumes "clTasks cl ! i = WsCall tid rid lr" "i < length (clTasks cl)" "clRunning cl"
    and "ceWs e = WsLocalAnswer 101 hs" "ftype d = MsgStreamData" "RequestID d = rid" "length (Payload d) \<le> MaxFrameSize"
    and "map_of (ctRelays (clTun cl)) rid = None" "map_of (ctBodyStreams (clTun cl)) rid = None"
  shows "clTasks (clientStep (e, Go i) cl) ! i = WsUpgraded tid rid \<and>
    clientRun [(e, Go i), (e', Msg (EncodeFrame d))] cl = clientRun [(e, Go i)] cl"
proof -
  let ?ct = "writeResponse (ceQuote e) (ceWok e) tid rid
    \<lparr>respStatusCode = 101, respHeaders = hs, respBody = [], respBodyStreamed = False\<rparr> (clTun cl)"
  have s: "clientStep (e, Go i) cl = cl\<lparr>clTun := ?ct, clTasks := (clTasks cl)[i := WsUpgraded tid rid], clDash := clDash cl\<rparr>"
    using assms(1,2,4) by (simp add: taskStep_def wsAnswered_def Let_def)
  have "ctRelays ?ct = ctRelays (clTun cl)" "ctBodyStreams ?ct = ctBodyStreams (clTun cl)"
    by (simp_all add: writeResponse_def writeFrame_def Let_def)
  then have "clientStreamData lok d ?ct = ?ct" for lok
    using assms(6,8,9) by (simp add: clientStreamData_def relayOf_def)
  then have "clientFrame e' d (cl\<lparr>clTun := ?ct, clTasks := ts\<rparr>) = cl\<lparr>clTun := ?ct, clTasks := ts\<rparr>"
    for ts using assms(5) by (simp add: clientFrame_def) (simp add: msg_defs)
  then have "clientStep (e', Msg (EncodeFrame d)) (clientStep (e, Go i) cl) = clientStep (e, Go i) cl"
    unfolding s using assms(3,7) Decode_Encode [OF assms(7)] by simp
  moreover have "clTasks (clientStep (e, Go i) cl) ! i = WsUpgraded tid rid" unfolding s using assms(2) by simp
  ultimately show ?thesis unfolding clientRun_def by (simp only: fold_simps)
qed

end
