(* ===== verification/Control.thy ===== *)
theory Control
  imports Client
begin

text \<open>
  The control socket: the server side \<^verbatim>\<open>handleControlConn\<close> in \<^verbatim>\<open>internal/client/tunnel.go\<close> and the commands
  \<^verbatim>\<open>--add\<close>, \<^verbatim>\<open>--del\<close> with the discovery of running instances in \<^verbatim>\<open>cmd/client/main.go\<close>. What is sent over the
  socket is text, given as an argument to the side that reads it.
\<close>

section \<open>Lines and fields\<close>

text \<open>\<^verbatim>\<open>bufio.Scanner\<close>: lines without their end of line; it stops at a line that does not fit its buffer.\<close>

definition dropCR :: "string \<Rightarrow> string" where
  "dropCR s = (if s \<noteq> [] \<and> last s = CHR 0x0D then butlast s else s)"

definition scan_lines :: "string \<Rightarrow> string list" where
  "scan_lines s =
     (let ps = split_on CHR 0x0A s; ls = (if last ps = [] then butlast ps else ps)
      in map dropCR (takeWhile (\<lambda>l. length l < 65536) ls))"

text \<open>\<^verbatim>\<open>ReadString('\n')\<close>: the line with its end, and the rest; nothing when the end is missing.\<close>

definition readLine :: "string \<Rightarrow> (string \<times> string) option" where
  "readLine s = (case cut_at CHR 0x0A s of (l, rest, found) \<Rightarrow> if found then Some (l @ nl, rest) else None)"

text \<open>\<^verbatim>\<open>strings.Fields\<close>; \<open>cur\<close> is the field being read.\<close>

function fields_from :: "string \<Rightarrow> string \<Rightarrow> string list" where
  "fields_from cur s =
     (if s = [] then (if cur = [] then [] else [cur])
      else if space_at_front s > 0
      then (if cur = [] then [] else [cur]) @ fields_from [] (drop (space_at_front s) s)
      else fields_from (cur @ [hd s]) (tl s))"
  by pat_completeness auto
termination by (relation "measure (\<lambda>(cur, s). length s)") auto

declare fields_from.simps [simp del]

definition Fields :: "string \<Rightarrow> string list" where
  "Fields s = fields_from [] s"

section \<open>The tunnel's side\<close>

datatype ctlCmd = CtlBlank | CtlAdd u16 string | CtlDel u16 | CtlList | CtlBadPort | CtlBadCommand

definition parseControl :: "string \<Rightarrow> ctlCmd" where
  "parseControl txt =
     (let line = trimSpace txt; parts = Fields line in
      if line = '''' then CtlBlank
      else if parts ! 0 = ''ADD'' \<or> parts ! 0 = ''DEL'' then
        let port = (if length parts \<ge> 2 then atoi_val (parts ! 1) else 0) in
        if port < 1 \<or> port > 65535 then CtlBadPort
        else if parts ! 0 = ''ADD'' then CtlAdd (of_int port) (if length parts > 2 then parts ! 2 else '''')
        else CtlDel (of_int port)
      else if parts ! 0 = ''LIST'' then CtlList
      else CtlBadCommand)"

text \<open>The texts of the errors \<^verbatim>\<open>AddPort\<close> and \<^verbatim>\<open>RemovePort\<close> return; \<open>werr\<close> is that of a failed write.\<close>

fun add_text :: "(string \<Rightarrow> string) \<Rightarrow> string \<Rightarrow> addErr \<Rightarrow> string" where
  "add_text q werr AddBusy = ''another add operation in progress''"
| "add_text q werr (AddEncode e) = err_text q e"
| "add_text q werr AddSend = ''send register: '' @ werr"
| "add_text q werr (AddRefused msg) = msg"
| "add_text q werr (AddDecode e) = err_text q e"
| "add_text q werr AddTimeout = ''add port timeout''"

fun del_text :: "string \<Rightarrow> delErr \<Rightarrow> string" where
  "del_text werr (DelUnknown port) = ''no forward for port '' @ dec (unat port)"
| "del_text werr DelBusy = ''another delete operation in progress''"
| "del_text werr DelSend = ''send unregister: '' @ werr"
| "del_text werr (DelRefused msg) = msg"
| "del_text werr DelTimeout = ''remove port timeout''"

definition okReply :: "string \<Rightarrow> string" where "okReply msg = ''OK '' @ msg @ nl"
definition errReply :: "string \<Rightarrow> string" where "errReply msg = ''ERR '' @ msg @ nl"

definition forwardLine :: "CForward \<Rightarrow> string" where
  "forwardLine f = dec (unat (fwPort f)) @ '' '' @ fwURL f"

definition listReply :: "CForward list \<Rightarrow> string" where
  "listReply fs = okReply (dec (length fs)) @ concat (map (\<lambda>f. forwardLine f @ nl) fs)"

text \<open>
  One line of the connection, up to the point where it waits for the read loop, and the rest of it; what
  is written to the socket is a string.
\<close>

datatype ctlState = CtlReply string | CtlAdding addr | CtlDeleting addr u16

definition controlLine ::
  "(string \<Rightarrow> string) \<Rightarrow> string \<Rightarrow> bool \<Rightarrow> string \<Rightarrow> ClientTunnel \<Rightarrow> ClientTunnel \<times> ctlState" where
  "controlLine q werr wok txt ct = (case parseControl txt of
       CtlBlank \<Rightarrow> (ct, CtlReply '''')
     | CtlBadPort \<Rightarrow> (ct, CtlReply (errReply ''invalid port''))
     | CtlBadCommand \<Rightarrow> (ct, CtlReply (errReply ''bad command''))
     | CtlList \<Rightarrow> (ct, CtlReply (listReply (ctForwards ct)))
     | CtlAdd port sub \<Rightarrow>
         (case addStart wok port sub ct of
            (ct', Inl e) \<Rightarrow> (ct', CtlReply (errReply (add_text q werr e)))
          | (ct', Inr ch) \<Rightarrow> (ct', CtlAdding ch))
     | CtlDel port \<Rightarrow>
         (case delStart wok port ct of
            (ct', Inl e) \<Rightarrow> (ct', CtlReply (errReply (del_text werr e)))
          | (ct', Inr ch) \<Rightarrow> (ct', CtlDeleting ch port)))"

definition controlDone ::
  "(string \<Rightarrow> string) \<Rightarrow> string \<Rightarrow> bool \<Rightarrow> ctlState \<Rightarrow> ClientTunnel \<Rightarrow> (ClientTunnel \<times> string) option" where
  "controlDone q werr fired st ct = (case st of
       CtlReply s \<Rightarrow> Some (ct, s)
     | CtlAdding ch \<Rightarrow> map_option (\<lambda>(ct', r).
         (ct', case r of Inl e \<Rightarrow> errReply (add_text q werr e) | Inr url \<Rightarrow> okReply url)) (addWait fired ch ct)
     | CtlDeleting ch port \<Rightarrow> map_option (\<lambda>(ct', r).
         (ct', case r of Inl e \<Rightarrow> errReply (del_text werr e) | Inr _ \<Rightarrow> okReply (''removed port '' @ dec (unat port))))
           (delWait fired ch ct))"

section \<open>The command line's side\<close>

definition sendCtlCommand :: "string \<Rightarrow> string + string" where
  "sendCtlCommand out = (case readLine out of
       None \<Rightarrow> Inl ''read response: EOF''
     | Some (line, rest) \<Rightarrow>
         (case cut_at CHR '' '' (trimSpace line) of (head, msg, found) \<Rightarrow>
            if head \<noteq> ''OK'' then Inl (if msg = '''' then ''unknown error'' else msg) else Inr msg))"

datatype listErr = ListEOF | ListResponse string | ListCount string | ListPanics

fun readForwards :: "nat \<Rightarrow> string \<Rightarrow> listErr + string list" where
  "readForwards 0 out = Inr []"
| "readForwards (Suc n) out = (case readLine out of
       None \<Rightarrow> Inl ListEOF
     | Some (fl, rest) \<Rightarrow> (case readForwards n rest of
           Inl e \<Rightarrow> Inl e
         | Inr fs \<Rightarrow> Inr (trimSpace fl # fs)))"

text \<open>\<^verbatim>\<open>make([]string, 0, n)\<close> panics for a count that is negative or whose strings exceed the address space.\<close>

definition queryForwards :: "string \<Rightarrow> listErr + string list" where
  "queryForwards out = (case readLine out of
       None \<Rightarrow> Inl ListEOF
     | Some (line, rest) \<Rightarrow>
         (let parts = Fields (trimSpace line) in
          if length parts \<noteq> 2 \<or> parts ! 0 \<noteq> ''OK'' then Inl (ListResponse line)
          else case atoi (parts ! 1) of
            None \<Rightarrow> Inl (ListCount (parts ! 1))
          | Some n \<Rightarrow> if n < 0 \<or> n > 2 ^ 44 then Inl ListPanics else readForwards (nat n) rest))"

datatype modeErr = AddUsage | AddFormat string | AddPortInvalid string | DelInvalid string

definition runAddMode :: "string \<Rightarrow> modeErr + string" where
  "runAddMode flag =
     (let val = trimSpace flag; parts = Fields val in
      if val = '''' then Inl AddUsage
      else if length parts \<noteq> 2 then Inl (AddFormat val)
      else case atoi (parts ! 0) of
        None \<Rightarrow> Inl (AddPortInvalid (parts ! 0))
      | Some port \<Rightarrow>
          if port < 1 \<or> port > 65535 then Inl (AddPortInvalid (parts ! 0))
          else Inr (''ADD '' @ dec (nat port) @ '' '' @ parts ! 1 @ nl))"

definition runDelMode :: "string \<Rightarrow> modeErr + string" where
  "runDelMode flag =
     (let val = trimSpace flag in
      case atoi val of
        None \<Rightarrow> Inl (DelInvalid val)
      | Some port \<Rightarrow> if port < 1 \<or> port > 65535 then Inl (DelInvalid val) else Inr (''DEL '' @ dec (nat port) @ nl))"


section \<open>Which instance\<close>

record Instance =
  inPid :: int
  inAddr :: string
  inCtlFile :: string
  inForwards :: "string list"

definition ctlFileName :: "nat \<Rightarrow> string" where
  "ctlFileName pid = ''vlgr-client-'' @ dec pid @ ''.ctl''"

text \<open>\<^verbatim>\<open>Sscanf(base, "vlgr-client-%d.ctl", &pid)\<close>, 0 unless everything matches and the number fits.\<close>

definition scanPid :: "string \<Rightarrow> int" where
  "scanPid base =
     (let s = trimPrefix base ''vlgr-client-'';
          sign = takeWhile (\<lambda>c. c = CHR ''-'' \<or> c = CHR ''+'') (take 1 s);
          digits = takeWhile is_digit (drop (length sign) s)
      in if hasPrefix base ''vlgr-client-'' \<and> hasPrefix (drop (length sign + length digits) s) ''.ctl''
         then (case atoi (sign @ digits) of None \<Rightarrow> 0 | Some n \<Rightarrow> n) else 0)"

text \<open>
  Every file: its name and contents, if it can be read; \<open>query\<close> asks the socket at an address. The second
  result lists the files removed as stale.
\<close>

fun discoverInstances :: "(string \<Rightarrow> listErr + string list) \<Rightarrow> (string \<times> string option) list \<Rightarrow> Instance list \<times> string list" where
  "discoverInstances query [] = ([], [])"
| "discoverInstances query ((f, contents) # fs) =
     (case discoverInstances query fs of (out, removed) \<Rightarrow>
        (case contents of
           None \<Rightarrow> (out, removed)
         | Some c \<Rightarrow>
             (case query (trimSpace c) of
                Inl e \<Rightarrow> (out, f # removed)
              | Inr fwds \<Rightarrow>
                  (\<lparr>inPid = scanPid f, inAddr = trimSpace c, inCtlFile = f, inForwards = fwds\<rparr> # out, removed))))"

definition instanceLine :: "nat \<Rightarrow> Instance \<Rightarrow> string" where
  "instanceLine i inst =
     (let label = (if inPid inst = 0 then inAddr inst
                   else ''pid '' @ (if inPid inst < 0 then ''-'' else '''') @ dec (nat \<bar>inPid inst\<bar>));
          pair = (\<lambda>f. case cut_at CHR '' '' f of (p, url, found) \<Rightarrow> if found then p @ '' -> '' @ url else f);
          desc = (if inForwards inst = [] then ''no forwards'' else join '', '' (map pair (inForwards inst)))
      in ''  ['' @ dec (i + 1) @ ''] '' @ label @ '': '' @ desc @ nl)"

text \<open>The menu reads lines until one is a number on it; when the input ends first, the command is cancelled.\<close>

fun chooseInstance :: "nat \<Rightarrow> string list \<Rightarrow> nat option" where
  "chooseInstance n [] = None"
| "chooseInstance n (line # ls) = (case atoi (trimSpace line) of
       None \<Rightarrow> chooseInstance n ls
     | Some k \<Rightarrow> if 1 \<le> k \<and> k \<le> int n then Some (nat (k - 1)) else chooseInstance n ls)"

definition selectInstance :: "Instance list \<Rightarrow> string list \<Rightarrow> Instance option" where
  "selectInstance insts input =
     (if length insts = 0 then None
      else if length insts = 1 then Some (insts ! 0)
      else map_option ((!) insts) (chooseInstance (length insts) input))"

section \<open>Text that passes unchanged\<close>

text \<open>A string whose ends are visible characters has nothing to trim.\<close>

definition visible :: "string \<Rightarrow> bool" where
  "visible s \<longleftrightarrow> s \<noteq> [] \<and> printable (hd s) \<and> printable (last s)"

lemma front_visible: "s \<noteq> [] \<Longrightarrow> printable (hd s) \<Longrightarrow> space_at_front s = 0"
proof (rule ccontr)
  assume s: "s \<noteq> []" "printable (hd s)" and "space_at_front s \<noteq> 0"
  then obtain p where p: "p \<in> set go_spaces" "hasPrefix s p" by (metis gr0I space_at_frontE)
  have "hd p = hd s" using p go_spaces_nonempty [OF p(1)] by (metis hasPrefix_def hd_take length_greater_0_conv)
  with s(2) p(1) show False by (auto dest: go_spaces_not_printable)
qed

lemma end_visible: "s \<noteq> [] \<Longrightarrow> printable (last s) \<Longrightarrow> space_at_end s = 0"
proof (rule ccontr)
  assume s: "s \<noteq> []" "printable (last s)" and "space_at_end s \<noteq> 0"
  then obtain p where p: "p \<in> set go_spaces" "hasSuffix s p" by (metis gr0I space_at_endE)
  have "last p = last s" using p go_spaces_nonempty [OF p(1)] by (metis hasSuffix_def last_drop drop_eq_Nil2 not_le)
  with s(2) p(1) show False by (auto dest: go_spaces_not_printable)
qed

lemma trimSpace_visible: "visible s \<Longrightarrow> trimSpace s = s"
  by (simp add: visible_def trimSpace_def trim_left.simps trim_right.simps front_visible end_visible)

lemma trimSpace_nl: "visible s \<Longrightarrow> trimSpace (s @ nl) = s"
proof -
  assume v: "visible s"
  have "space_at_front (s @ nl) = 0" using v by (intro front_visible) (auto simp: visible_def)
  moreover have "space_at_end (s @ nl) = 1" by (simp add: space_at_end_def go_spaces_def hasSuffix_def nl_def)
  ultimately have "trimSpace (s @ nl) = trim_right s"
    by (simp add: trimSpace_def trim_left.simps nl_def) (simp add: trim_right.simps [of "s @ _"])
  then show ?thesis using v by (simp add: visible_def trim_right.simps end_visible)
qed

lemma readLine_nl: "CHR 0x0A \<notin> set l \<Longrightarrow> readLine (l @ nl @ rest) = Some (l @ nl, rest)"
  using cut_at_found [of "CHR 0x0A" l rest] by (simp add: readLine_def nl_def)

lemma visible_append: "visible s \<Longrightarrow> visible t \<Longrightarrow> visible (s @ u @ t)"
  by (auto simp: visible_def)

text \<open>Words of visible characters between single spaces are the fields.\<close>

lemma fields_word: "\<forall>c \<in> set w. printable c \<Longrightarrow> fields_from cur w = (if cur @ w = [] then [] else [cur @ w])"
proof (induction w arbitrary: cur)
  case (Cons c w)
  then have "space_at_front (c # w) = 0" by (intro front_visible) auto
  with Cons show ?case by (simp add: fields_from.simps [of cur "c # w"])
qed (simp add: fields_from.simps)

lemma fields_space:
  "\<forall>c \<in> set w. printable c \<Longrightarrow> cur @ w \<noteq> [] \<Longrightarrow> fields_from cur (w @ CHR '' '' # s) = (cur @ w) # Fields s"
proof (induction w arbitrary: cur)
  case Nil
  have "space_at_front (CHR '' '' # s) = 1" by (simp add: space_at_front_def go_spaces_def hasPrefix_def)
  with Nil show ?case by (simp add: fields_from.simps [of cur] Fields_def)
next
  case (Cons c w)
  then have "space_at_front (c # w @ CHR '' '' # s) = 0" by (intro front_visible) auto
  with Cons show ?case by (simp add: fields_from.simps [of cur "c # w @ CHR '' '' # s"])
qed

lemma fields_two:
  assumes "\<forall>c \<in> set v. printable c" "v \<noteq> []" "\<forall>c \<in> set w. printable c" "w \<noteq> []"
  shows "Fields (v @ CHR '' '' # w) = [v, w]"
  using fields_space [OF assms(1), of "[]" w] fields_word [OF assms(3), of "[]"] assms(2,4) by (simp add: Fields_def)


lemma Fields_one: "\<forall>c \<in> set w. printable c \<Longrightarrow> w \<noteq> [] \<Longrightarrow> Fields w = [w]"
  using fields_word [of w "[]"] by (simp add: Fields_def)

lemma Fields_three:
  assumes "\<forall>c \<in> set u. printable c" "u \<noteq> []" "\<forall>c \<in> set v. printable c" "v \<noteq> []" "\<forall>c \<in> set w. printable c" "w \<noteq> []"
  shows "Fields (u @ CHR '' '' # v @ CHR '' '' # w) = [u, v, w]"
  using fields_space [OF assms(1), of "[]"] assms(2) fields_two [OF assms(3-6)] by (simp add: Fields_def)

text \<open>A line with something on it has a first field.\<close>

lemma trim_left_front: "space_at_front (trim_left s) = 0"
proof (induction s rule: trim_left.induct)
  case (1 s)
  then show ?case by (cases "space_at_front s = 0") (simp_all add: trim_left.simps [of s])
qed

lemma space_at_front_take: "space_at_front s = 0 \<Longrightarrow> space_at_front (take n s) = 0"
proof (rule ccontr)
  assume s: "space_at_front s = 0" and "space_at_front (take n s) \<noteq> 0"
  then obtain p where p: "p \<in> set go_spaces" "hasPrefix (take n s) p" by (metis gr0I space_at_frontE)
  have "hasPrefix s p" using p(2) by (auto simp: hasPrefix_def min_def split: if_splits)
  with p(1) have "find (hasPrefix s) go_spaces \<noteq> None" unfolding find_None_iff by blast
  then obtain r where r: "find (hasPrefix s) go_spaces = Some r" by blast
  have "r \<in> set go_spaces" using find_in_set [OF r] by (rule conjunct1)
  then show False using s r go_spaces_nonempty [of r] by (simp add: space_at_front_def)
qed

lemma trim_right_take: "\<exists>n. trim_right s = take n s"
proof (induction s rule: trim_right.induct)
  case (1 s)
  show ?case
  proof (cases "space_at_end s = 0")
    case True
    then show ?thesis by (intro exI [of _ "length s"]) (simp add: trim_right.simps)
  next
    case False
    with 1 obtain n where "trim_right s = take n (take (length s - space_at_end s) s)"
      by (auto simp: trim_right.simps [of s])
    then show ?thesis by (auto simp: take_take)
  qed
qed

lemma space_at_front_trimSpace: "space_at_front (trimSpace s) = 0"
  using trim_right_take [of "trim_left s"] trim_left_front [of s] space_at_front_take
  by (auto simp: trimSpace_def)

lemma fields_from_cur: "cur \<noteq> [] \<Longrightarrow> fields_from cur s \<noteq> []"
  by (induction cur s rule: fields_from.induct) (simp add: fields_from.simps)

lemma Fields_nonempty: "trimSpace s \<noteq> [] \<Longrightarrow> Fields (trimSpace s) \<noteq> []"
  using space_at_front_trimSpace [of s] fields_from_cur by (simp add: Fields_def fields_from.simps [of "[]"])


section \<open>Both sides understand each other\<close>

definition token_text :: "string \<Rightarrow> bool" where
  "token_text w \<longleftrightarrow> w \<noteq> [] \<and> (\<forall>c \<in> set w. printable c)"

lemma token_dec: "token_text (dec n)"
  by (auto simp: token_text_def dest: dec_printable)

lemma token_visible: "token_text w \<Longrightarrow> visible w"
  by (simp add: token_text_def visible_def)

lemma token_no_space: "token_text w \<Longrightarrow> CHR '' '' \<notin> set w \<and> CHR 0x0A \<notin> set w"
  by (auto simp: token_text_def printable_def)

lemma token_words: "token_text ''ADD''" "token_text ''DEL''" "token_text ''OK''" "token_text ''ERR''"
  by (simp_all add: token_text_def printable_def)

lemma Fields_tokens:
  "token_text u \<Longrightarrow> Fields u = [u]"
  "token_text u \<Longrightarrow> token_text v \<Longrightarrow> Fields (u @ CHR '' '' # v) = [u, v]"
  "token_text u \<Longrightarrow> token_text v \<Longrightarrow> token_text w \<Longrightarrow> Fields (u @ CHR '' '' # v @ CHR '' '' # w) = [u, v, w]"
  by (simp_all add: token_text_def Fields_one fields_two Fields_three)

lemma trimSpace_tokens:
  "token_text u \<Longrightarrow> visible v \<Longrightarrow> trimSpace (u @ CHR '' '' # v) = u @ CHR '' '' # v"
  "token_text u \<Longrightarrow> visible v \<Longrightarrow> trimSpace (u @ CHR '' '' # v @ nl) = u @ CHR '' '' # v"
  using visible_append [OF token_visible, of u v "[CHR '' '']"] trimSpace_visible trimSpace_nl [of "u @ CHR '' '' # v"]
  by simp_all

lemma atoi_val_port: "atoi_val (dec (unat (p :: u16))) = int (unat p)"
  by (rule atoi_val_dec, rule less_trans [OF unat_u16_less]) simp

lemma port_range: "(p :: u16) \<noteq> 0 \<Longrightarrow> 1 \<le> int (unat p) \<and> int (unat p) \<le> 65535"
proof -
  assume "p \<noteq> 0"
  then have "unat p \<noteq> 0" by (simp add: unsigned_eq_0_iff)
  then show ?thesis using unat_u16_less [of p] by linarith
qed

lemma parse_add:
  assumes "port \<noteq> 0" "token_text sub"
  shows "parseControl (''ADD '' @ dec (unat port) @ '' '' @ sub) = CtlAdd port sub"
proof -
  let ?l = "''ADD'' @ CHR '' '' # dec (unat port) @ CHR '' '' # sub"
  have v: "visible (dec (unat port) @ CHR '' '' # sub)"
    using visible_append [OF token_visible [OF token_dec] token_visible [OF assms(2)], of _ "[CHR '' '']"] by simp
  have t: "trimSpace ?l = ?l" by (rule trimSpace_tokens(1) [OF token_words(1) v])
  have f: "Fields ?l = [''ADD'', dec (unat port), sub]" by (rule Fields_tokens(3) [OF token_words(1) token_dec assms(2)])
  show ?thesis using port_range [OF assms(1)] t f
    by (simp add: parseControl_def atoi_val_port Let_def)
qed

lemma parse_del: "port \<noteq> 0 \<Longrightarrow> parseControl (''DEL '' @ dec (unat port)) = CtlDel port"
proof -
  assume p: "port \<noteq> 0"
  let ?l = "''DEL'' @ CHR '' '' # dec (unat port)"
  have t: "trimSpace ?l = ?l" by (rule trimSpace_tokens(1) [OF token_words(2) token_visible [OF token_dec]])
  have f: "Fields ?l = [''DEL'', dec (unat port)]" by (rule Fields_tokens(2) [OF token_words(2) token_dec])
  show ?thesis using port_range [OF p] t f by (simp add: parseControl_def atoi_val_port Let_def)
qed

lemma scan_one: "CHR 0x0A \<notin> set l \<Longrightarrow> length l < 65536 \<Longrightarrow> last l \<noteq> CHR 0x0D \<Longrightarrow> scan_lines (l @ nl) = [l]"
  using split_on_append_sep [of "CHR 0x0A" l "[]"] split_on_single [of "CHR 0x0A" l]
  by (simp add: scan_lines_def nl_def dropCR_def)

lemma reply_ok: "visible msg \<Longrightarrow> CHR 0x0A \<notin> set msg \<Longrightarrow> sendCtlCommand (okReply msg) = Inr msg"
  using readLine_nl [of "''OK '' @ msg" "[]"] trimSpace_tokens(2) [OF token_words(3), of msg]
    cut_at_found [of "CHR '' ''" "''OK''" msg]
  by (simp add: sendCtlCommand_def okReply_def)

lemma reply_err: "visible msg \<Longrightarrow> CHR 0x0A \<notin> set msg \<Longrightarrow> sendCtlCommand (errReply msg) = Inl msg"
  using readLine_nl [of "''ERR '' @ msg" "[]"] trimSpace_tokens(2) [OF token_words(4), of msg]
    cut_at_found [of "CHR '' ''" "''ERR''" msg]
  by (auto simp: sendCtlCommand_def errReply_def visible_def)

lemma readForwards_lines:
  "list_all (\<lambda>f. visible (fwURL f) \<and> CHR 0x0A \<notin> set (fwURL f)) fs \<Longrightarrow>
   readForwards (length fs) (concat (map (\<lambda>f. forwardLine f @ nl) fs)) = Inr (map forwardLine fs)"
proof (induction fs)
  case (Cons f fs)
  have "CHR 0x0A \<notin> set (forwardLine f)" using Cons.prems token_no_space [OF token_dec] by (simp add: forwardLine_def)
  moreover have "trimSpace (forwardLine f @ nl) = forwardLine f"
    using Cons.prems trimSpace_tokens(2) [OF token_dec, of "fwURL f"] by (simp add: forwardLine_def)
  ultimately show ?case using Cons readLine_nl [of "forwardLine f" "concat (map (\<lambda>f. forwardLine f @ nl) fs)"] by simp
qed simp

lemma query_list:
  assumes "list_all (\<lambda>f. visible (fwURL f) \<and> CHR 0x0A \<notin> set (fwURL f)) fs" "length fs \<le> 2 ^ 44"
  shows "queryForwards (listReply fs) = Inr (map forwardLine fs)"
proof -
  let ?n = "dec (length fs)" and ?rest = "concat (map (\<lambda>f. forwardLine f @ nl) fs)"
  have "CHR 0x0A \<notin> set (''OK '' @ ?n)" using token_no_space [OF token_dec] by simp
  then have r: "readLine (listReply fs) = Some ((''OK '' @ ?n) @ nl, ?rest)"
    using readLine_nl [of "''OK '' @ ?n" ?rest] by (simp add: listReply_def okReply_def)
  have t: "trimSpace ((''OK '' @ ?n) @ nl) = ''OK'' @ CHR '' '' # ?n"
    using trimSpace_tokens(2) [OF token_words(3) token_visible [OF token_dec], of "length fs"] by simp
  have f: "Fields (''OK'' @ CHR '' '' # ?n) = [''OK'', ?n]" by (rule Fields_tokens(2) [OF token_words(3) token_dec])
  have a: "atoi ?n = Some (int (length fs))" using assms(2) by (intro atoi_dec) simp
  show ?thesis unfolding queryForwards_def r option.case prod.case t f
    using a assms readForwards_lines [OF assms(1)] by simp
qed

lemma mode_add:
  assumes "port \<noteq> 0" "token_text sub"
  shows "runAddMode (dec (unat (port :: u16)) @ '' '' @ sub) = Inr (''ADD '' @ dec (unat port) @ '' '' @ sub @ nl)"
proof -
  let ?l = "dec (unat port) @ CHR '' '' # sub"
  have "trimSpace ?l = ?l" "Fields ?l = [dec (unat port), sub]"
    using trimSpace_tokens(1) [OF token_dec token_visible [OF assms(2)]] Fields_tokens(2) [OF token_dec assms(2)] by simp_all
  then show ?thesis using port_range [OF assms(1)] by (simp add: runAddMode_def Let_def)
qed

lemma mode_del: "port \<noteq> 0 \<Longrightarrow> runDelMode (dec (unat (port :: u16))) = Inr (''DEL '' @ dec (unat port) @ nl)"
  using port_range [of port] by (simp add: runDelMode_def Let_def)


text \<open>
  C32. The control protocol: what \<^verbatim>\<open>--add "port subdomain"\<close> and \<^verbatim>\<open>--del port\<close> send is one line which the
  running tunnel reads as exactly that command, for every port but 0 and every subdomain without spaces;
  its success and error replies come back as the message they carry; and the list of forwards arrives
  in the menu complete and in order.
\<close>

theorem control_protocol_round_trip:
  assumes "port \<noteq> 0" "token_text sub" "length sub < 60000"
    and "visible msg" "CHR 0x0A \<notin> set msg"
    and "list_all (\<lambda>f. visible (fwURL f) \<and> CHR 0x0A \<notin> set (fwURL f)) fs" "length fs \<le> 2 ^ 44"
  shows "(\<exists>line. runAddMode (dec (unat port) @ '' '' @ sub) = Inr (line @ nl) \<and> scan_lines (line @ nl) = [line] \<and>
      parseControl line = CtlAdd port sub) \<and>
    (\<exists>line. runDelMode (dec (unat port)) = Inr (line @ nl) \<and> scan_lines (line @ nl) = [line] \<and>
      parseControl line = CtlDel port) \<and>
    sendCtlCommand (okReply msg) = Inr msg \<and> sendCtlCommand (errReply msg) = Inl msg \<and>
    queryForwards (listReply fs) = Inr (map forwardLine fs)"
proof -
  let ?a = "''ADD '' @ dec (unat port) @ '' '' @ sub" and ?d = "''DEL '' @ dec (unat port)"
  have len: "length (dec (unat port)) \<le> 5" using length_dec [of "unat port" 5] unat_u16_less [of port] by simp
  have no: "CHR 0x0A \<notin> set ?a" "CHR 0x0A \<notin> set ?d" using token_no_space [OF token_dec] token_no_space [OF assms(2)] by simp_all
  have "printable (last sub)" "printable (last (dec (unat port)))"
    using token_visible [OF assms(2)] token_visible [OF token_dec] by (simp_all add: visible_def)
  moreover have "sub \<noteq> []" using assms(2) by (simp add: token_text_def)
  ultimately have cr: "last ?a \<noteq> CHR 0x0D" "last ?d \<noteq> CHR 0x0D" by (auto simp: printable_def)
  have "scan_lines (?a @ nl) = [?a]" "scan_lines (?d @ nl) = [?d]"
    using assms(3) len by (intro scan_one no cr; simp)+
  moreover have "runAddMode (dec (unat port) @ '' '' @ sub) = Inr (?a @ nl)" "runDelMode (dec (unat port)) = Inr (?d @ nl)"
    using mode_add [OF assms(1,2)] mode_del [OF assms(1)] by simp_all
  ultimately show ?thesis
    using parse_add [OF assms(1,2)] parse_del [OF assms(1)] reply_ok [OF assms(4,5)] reply_err [OF assms(4,5)]
      query_list [OF assms(6,7)] by blast
qed

theorem control_protocol_round_trip_witness:
  "(\<exists>line. runAddMode (dec 3000 @ '' app'') = Inr (line @ nl) \<and> scan_lines (line @ nl) = [line] \<and> parseControl line = CtlAdd 3000 ''app'') \<and>
   queryForwards (listReply [\<lparr>fwTunnelID = 7, fwPort = 3000, fwURL = ''app.x.io''\<rparr>]) =
     Inr [forwardLine \<lparr>fwTunnelID = 7, fwPort = 3000, fwURL = ''app.x.io''\<rparr>]"
proof -
  let ?fs = "[\<lparr>fwTunnelID = 7, fwPort = 3000, fwURL = ''app.x.io''\<rparr>]"
  have p: "(3000 :: u16) \<noteq> 0" "token_text ''app''" "length ''app'' < 60000" "visible ''ok''" "CHR 0x0A \<notin> set ''ok''"
    "list_all (\<lambda>f. visible (fwURL f) \<and> CHR 0x0A \<notin> set (fwURL f)) ?fs" "length ?fs \<le> 2 ^ 44"
    by (simp_all add: token_text_def printable_def visible_def)
  from control_protocol_round_trip [OF p] show ?thesis by simp
qed

text \<open>The handler indexes the first field of a line only when there is one: no input makes it panic.\<close>

lemma control_has_command: "trimSpace txt \<noteq> '''' \<Longrightarrow> 0 < length (Fields (trimSpace txt))"
  using Fields_nonempty by simp

text \<open>A count below zero makes the client's \<^verbatim>\<open>make\<close> panic: the socket is trusted.\<close>

lemma negative_count_panics: "queryForwards (''OK -1'' @ nl @ rest) = Inl ListPanics"
proof -
  have r: "readLine (''OK -1'' @ nl @ rest) = Some (''OK -1'' @ nl, rest)" by (rule readLine_nl) simp
  have t: "trimSpace (''OK -1'' @ nl) = ''OK -1''" by (rule trimSpace_nl) (simp add: visible_def printable_def)
  have "token_text ''-1''" by (simp add: token_text_def printable_def)
  then have f: "Fields ''OK -1'' = [''OK'', ''-1'']" using Fields_tokens(2) [OF token_words(3), of "''-1''"] by simp
  have a: "atoi ''-1'' = Some (- 1)" by (simp add: atoi_def parse_int_def hasPrefix_def is_digit_def digits_val_def)
  show ?thesis unfolding queryForwards_def r option.case prod.case t f using a by simp
qed

end
