(* ===== verification/Manage.thy ===== *)
theory Manage
  imports ClientFlow Control
begin

text \<open>
  Adding and removing forwards while the tunnel runs, end to end: the command on the control socket of
  \<^verbatim>\<open>internal/client/tunnel.go\<close>, the frame to the server, the handler in \<^verbatim>\<open>internal/server/handler.go\<close>, its reply
  in the client's read loop, and the reply on the socket.
\<close>

section \<open>Agreement depends on forwards and resources only\<close>

lemma link_cong:
  assumes "link ct sh h used" "ctForwards ct' = ctForwards ct" "resources_of h' = resources_of h"
  shows "link ct' sh h' used"
proof -
  have r: "hTunnels h' = hTunnels h" "hTcpTunnels h' = hTcpTunnels h" "hTlsTunnels h' = hTlsTunnels h" "hSelf h' = hSelf h"
    "hBaseDomain h' = hBaseDomain h" "hTcpHost h' = hTcpHost h" "hAuthenticated h' = hAuthenticated h"
    using assms(3) by (simp_all add: resources_of_eq_iff)
  then have "backed sh h' f = backed sh h f" for f
    by (simp add: backed_def http_backed_def tcp_backed_def tls_backed_def)
  with assms r show ?thesis by (simp add: link_def)
qed

declare resources_registerErr [simp]

section \<open>Adding\<close>

lemma add_sent:
  assumes "controlLine q werr True txt ct = (ct1, CtlAdding ch)" "parseControl txt = CtlAdd port sub"
  obtains payload where "EncodeRegister port sub = Inr payload" "ctAddCh ct1 = Some ch" "ctAddPort ct1 = port"
    "ctForwards ct1 = ctForwards ct" "ch < length (ctAddChans ct1)" "ctAddChans ct1 ! ch = None"
    "ctOut ct1 = ctOut ct @ [EncodeFrame (reg_frame MsgRegister payload)]"
proof (cases "EncodeRegister port sub")
  case (Inr payload)
  show thesis
    by (rule that [OF Inr]) (use assms Inr in \<open>auto simp: controlLine_def addStart_def writeFrame_def Let_def split: if_splits\<close>)
qed (use assms in \<open>auto simp: controlLine_def addStart_def split: if_splits\<close>)

lemma add_accepted:
  assumes "clRunning cl" "ctAddCh (clTun cl) = Some ch" "ch < length (ctAddChans (clTun cl))"
    and "DecodeFrame msg = Inr g" "ftype g = MsgRegisterOK" "DecodeRegisterOK (Payload g) = Inr (url, tid)"
  shows "\<exists>ct2. controlDone q werr False (CtlAdding ch) (clTun (clientStep (ce, Msg msg) cl)) = Some (ct2, okReply url) \<and>
    ctForwards ct2 = ctForwards (clTun cl) @ [fwd tid (ctAddPort (clTun cl)) url]"
  using assms
  by (auto simp: clientFrame_def handleAddResponse_def putAdd_def setMapping_def controlDone_def addWait_def fwd_def Let_def msg_defs)

lemma add_refused:
  assumes "clRunning cl" "ctAddCh (clTun cl) = Some ch" "ch < length (ctAddChans (clTun cl))"
    and "DecodeFrame msg = Inr g" "ftype g = MsgRegisterErr"
    and "controlDone q werr False (CtlAdding ch) (clTun (clientStep (ce, Msg msg) cl)) = Some (ct2, reply)"
  shows "reply = errReply (string_of (Payload g)) \<and> ctForwards ct2 = ctForwards (clTun cl)"
  using assms
  by (auto simp: clientFrame_def handleAddResponse_def putAdd_def controlDone_def addWait_def Let_def msg_defs)

lemma no_reply_no_end:
  assumes "DecodeFrame msg = Inl e" "ctAddChans (clTun cl) ! ch = None"
  shows "controlDone q werr False (CtlAdding ch) (clTun (clientStep (ce, Msg msg) cl)) = None"
  using assms by (simp add: controlDone_def addWait_def)

text \<open>What the handler makes of a registration, seen from the reply.\<close>

lemma register_reply:
  assumes "hAuthenticated h" "hHasConn h" "eWriteOk e" "EncodeRegister port sub = Inr payload"
    and "handleFrame cf e (reg_frame MsgRegister payload) (sh, h) = (sh', h')"
  shows "(sh' = sh \<and> resources_of h' = resources_of h \<and>
      (\<forall>g. DecodeFrame (last (hOut h')) = Inr g \<longrightarrow> ftype g = MsgRegisterErr)) \<or>
    (\<exists>g url tid. DecodeFrame (last (hOut h')) = Inr g \<and> ftype g = MsgRegisterOK \<and> DecodeRegisterOK (Payload g) = Inr (url, tid) \<and>
       registerOne (server_peer cf) MsgRegister payload '''' (sh, h, e # es) = ((sh', h', es), Inr (url, tid)))"
proof -
  let ?f = "reg_frame MsgRegister payload"
  have len: "length payload \<le> MaxFrameSize" using EncodeRegister_InrD [OF assms(4)] by simp
  have hf: "handleRegister cf e ?f (sh, h) = (sh', h')" using assms(1,5) by (simp add: handleFrame_def msg_defs)
  show ?thesis
  proof (cases "\<exists>msg. handleRegister cf e ?f (sh, h) = (sh, registerErr (eWriteOk e) msg h)")
    case True
    then obtain msg where s: "sh' = sh" "h' = registerErr True msg h" using hf assms(3) by auto
    then have "ftype g = MsgRegisterErr" if "DecodeFrame (last (hOut h')) = Inr g" for g
      using that assms(2) registerErr_reply [of h True msg g] by (simp add: registerErr_def hOut_writeMessage)
    with s show ?thesis by simp
  next
    case False
    then obtain sub' g' t where acc: "reg_accepts e ?f h = Some sub'"
      and r: "Register sub' (hSelf h) (eIdRand e) (shRegistry sh) = (g', Inr t)"
      using handleRegister_refused [of e ?f h sh cf] by (metis prod.exhaust sum.exhaust)
    let ?h1 = "h\<lparr>hTunnels := AList.update (tunID t) t (hTunnels h), hTunnelCount := hTunnelCount h + 1\<rparr>"
    have url: "length (public_url sub' (hBaseDomain h)) \<le> 255" using acc by (auto simp: reg_accepts_def split: sum.splits if_splits)
    then obtain p where p: "EncodeRegisterOK (public_url sub' (hBaseDomain h)) (tunID t) = Inr p" "length p \<le> MaxFrameSize"
      "DecodeRegisterOK p = Inr (public_url sub' (hBaseDomain h), tunID t)"
      using regOkC.decode_enc [of "(public_url sub' (hBaseDomain h), tunID t)"]
      by (simp add: EncodeRegisterOK_def MaxFrameSize_def MaxBodySize_def)
    have st: "h' = reg_done e sub' t ?h1" using handleRegister_ok [OF acc r, of cf] hf by simp
    then have out: "hOut h' = hOut h @ [EncodeFrame \<lparr>ftype = MsgRegisterOK, TunnelID = tunID t, RequestID = 0, Payload = p\<rparr>]"
      using assms(2,3) p(1) by (simp add: reg_done_def hOut_writeMessage reply_payload_def)
    define g where "g = \<lparr>ftype = MsgRegisterOK, TunnelID = tunID t, RequestID = 0, Payload = p\<rparr>"
    have g: "DecodeFrame (last (hOut h')) = Inr g"
      using g_def Decode_Encode [of "\<lparr>ftype = MsgRegisterOK, TunnelID = tunID t, RequestID = 0, Payload = p\<rparr>"] p(2)
      by (simp add: out)
    have df: "DecodeFrame (EncodeFrame ?f) = Inr ?f" by (rule Decode_Encode) (simp add: len)
    have "registerOne (server_peer cf) MsgRegister payload '''' (sh, h, e # es) =
        ((sh', h', es), Inr (public_url sub' (hBaseDomain h), tunID t))"
      using g g_def assms(5) p(3) by (simp add: registerOne_def exchange_def server_peer_def df out) (simp add: msg_defs)
    with g g_def p(3) show ?thesis by auto
  qed
qed

text \<open>A command whose timer has fired ends with its error; it gives up the channel and nothing else.\<close>

lemma add_timeout: "controlDone q werr True (CtlAdding ch) ct = Some (ct\<lparr>ctAddCh := None\<rparr>, errReply ''add port timeout'')"
  by (simp add: controlDone_def addWait_def)

lemma add_late: "ctAddCh (clTun cl) = None \<Longrightarrow> DecodeFrame msg = Inr g \<Longrightarrow> ftype g \<in> {MsgRegisterOK, MsgRegisterErr} \<Longrightarrow>
    ctForwards (clTun (clientStep (ce, Msg msg) cl)) = ctForwards (clTun cl)"
  by (auto simp: clientFrame_def handleAddResponse_def Let_def msg_defs)

lemma add_answer_forwards:
  assumes "clRunning cl" "ctAddCh (clTun cl) = Some ch" "DecodeFrame msg = Inr g"
  shows "ftype g = MsgRegisterOK \<Longrightarrow> DecodeRegisterOK (Payload g) = Inr (url, tid) \<Longrightarrow>
      ctForwards (clTun (clientStep (ce, Msg msg) cl)) = ctForwards (clTun cl) @ [fwd tid (ctAddPort (clTun cl)) url]"
    and "ftype g = MsgRegisterErr \<Longrightarrow> ctForwards (clTun (clientStep (ce, Msg msg) cl)) = ctForwards (clTun cl)"
  using assms
  by (auto simp: clientFrame_def handleAddResponse_def putAdd_def setMapping_def fwd_def Let_def msg_defs)

lemma link_less:
  assumes "link ct sh h used" "ctForwards ct = ctForwards ct' @ fs"
  shows "link ct' sh h used"
  using assms by (simp add: link_def)



section \<open>Removing\<close>

lemma del_sent:
  assumes "controlLine q werr True txt ct = (ct1, CtlDeleting ch port')" "parseControl txt = CtlDel port"
  obtains d where "port' = port" "find (\<lambda>f. fwPort f = port) (ctForwards ct) = Some d" "ctDelCh ct1 = Some ch" "ctDelID ct1 = fwTunnelID d"
    "ctForwards ct1 = ctForwards ct" "ch < length (ctDelChans ct1)" "ctDelChans ct1 ! ch = None"
    "ctOut ct1 = ctOut ct @ [EncodeFrame \<lparr>ftype = MsgUnregister, TunnelID = fwTunnelID d, RequestID = 0, Payload = []\<rparr>]"
proof (cases "find (\<lambda>f. fwPort f = port) (ctForwards ct)")
  case (Some d)
  then show thesis
    by (intro that [of d])
      (use assms in \<open>auto simp: controlLine_def delStart_def writeFrame_def Let_def split: if_splits sum.splits\<close>)
qed (use assms in \<open>auto simp: controlLine_def delStart_def split: sum.splits\<close>)

lemma del_resolved:
  assumes "clRunning cl" "ctDelCh (clTun cl) = Some ch" "ch < length (ctDelChans (clTun cl))" "DecodeFrame msg = Inr g"
  shows "(ftype g = MsgUnregisterOK \<longrightarrow> (\<exists>ct2.
      controlDone q werr False (CtlDeleting ch port) (clTun (clientStep (ce, Msg msg) cl)) =
        Some (ct2, okReply (''removed port '' @ dec (unat port))) \<and>
      ctForwards ct2 = removeFirst (ctDelID (clTun cl)) (ctForwards (clTun cl)))) \<and>
    (ftype g = MsgUnregisterErr \<longrightarrow> (\<exists>ct2.
      controlDone q werr False (CtlDeleting ch port) (clTun (clientStep (ce, Msg msg) cl)) =
        Some (ct2, errReply (string_of (Payload g))) \<and> ctForwards ct2 = ctForwards (clTun cl)))"
  using assms
  by (auto simp: clientFrame_def handleDelResponse_def removeMapping_def controlDone_def delWait_def Let_def msg_defs
      split: option.splits)

lemma del_no_reply_no_end:
  assumes "DecodeFrame msg = Inl e" "ctDelChans (clTun cl) ! ch = None"
  shows "controlDone q werr False (CtlDeleting ch port) (clTun (clientStep (ce, Msg msg) cl)) = None"
  using assms by (simp add: controlDone_def delWait_def)

lemma removeFirst_ids: "map fwTunnelID (removeFirst tid fs) = remove1 tid (map fwTunnelID fs)"
  by (induction fs) auto

lemma set_removeFirst: "distinct (map fwTunnelID fs) \<Longrightarrow> set (removeFirst tid fs) = {f \<in> set fs. fwTunnelID f \<noteq> tid}"
  by (induction fs) (auto simp: image_iff)

lemma unregister_reply:
  assumes "hAuthenticated h" "hHasConn h" "eWriteOk e"
    and "handleFrame cf e \<lparr>ftype = MsgUnregister, TunnelID = tid, RequestID = 0, Payload = []\<rparr> (sh, h) = (sh', h')"
    and "DecodeFrame (last (hOut h')) = Inr g"
  shows "case map_of (hTunnels h) tid of
      None \<Rightarrow> ftype g = MsgUnregisterErr \<and> string_of (Payload g) = ''unknown tunnel'' \<and> sh' = sh \<and> resources_of h' = resources_of h
    | Some t \<Rightarrow> ftype g = MsgUnregisterOK \<and> sh' = sh\<lparr>shRegistry := Unregister (tunSubdomain t) (shRegistry sh)\<rparr> \<and>
        resources_of h' = resources_of (h\<lparr>hTunnels := AList.delete tid (hTunnels h), hTunnelCount := hTunnelCount h - 1\<rparr>)"
proof (cases "map_of (hTunnels h) tid")
  case None
  let ?r = "\<lparr>ftype = MsgUnregisterErr, TunnelID = tid, RequestID = 0, Payload = bytes_of ''unknown tunnel''\<rparr>"
  have h: "sh' = sh" "h' = fst (writeMessage True MsgUnregisterErr tid 0 (bytes_of ''unknown tunnel'') h)"
    using assms(1,3,4) None by (simp_all add: handleFrame_def handleUnregister_def msg_defs)
  then have "last (hOut h') = EncodeFrame ?r" using assms(2) by (simp add: hOut_writeMessage)
  moreover have "DecodeFrame (EncodeFrame ?r) = Inr ?r" by (rule Decode_Encode) (simp add: MaxFrameSize_def MaxBodySize_def)
  ultimately have "g = ?r" using assms(5) by simp
  with None h show ?thesis by (simp add: writeMessage_def resources_of_def Let_def)
next
  case (Some t)
  let ?h1 = "h\<lparr>hTunnels := AList.delete tid (hTunnels h), hTunnelCount := hTunnelCount h - 1\<rparr>"
  let ?r = "\<lparr>ftype = MsgUnregisterOK, TunnelID = tid, RequestID = 0, Payload = []\<rparr>"
  have h: "sh' = sh\<lparr>shRegistry := Unregister (tunSubdomain t) (shRegistry sh)\<rparr>"
    "h' = fst (writeMessage True MsgUnregisterOK tid 0 [] ?h1)"
    using assms(1,3,4) Some by (simp_all add: handleFrame_def handleUnregister_def msg_defs)
  then have "last (hOut h') = EncodeFrame ?r" using assms(2) by (simp add: hOut_writeMessage)
  moreover have "DecodeFrame (EncodeFrame ?r) = Inr ?r" by (rule Decode_Encode) simp
  ultimately have "g = ?r" using assms(5) by simp
  with Some h show ?thesis by (simp add: writeMessage_def resources_of_def Let_def)
qed

lemma unregister_reply_decodes:
  assumes "hAuthenticated h" "hHasConn h" "eWriteOk e"
    and "handleFrame cf e \<lparr>ftype = MsgUnregister, TunnelID = tid, RequestID = 0, Payload = []\<rparr> (sh, h) = (sh', h')"
  shows "\<exists>g. DecodeFrame (last (hOut h')) = Inr g"
proof -
  let ?no = "\<lparr>ftype = MsgUnregisterErr, TunnelID = tid, RequestID = 0, Payload = bytes_of ''unknown tunnel''\<rparr>"
  let ?ok = "\<lparr>ftype = MsgUnregisterOK, TunnelID = tid, RequestID = 0, Payload = []\<rparr>"
  have "last (hOut h') \<in> {EncodeFrame ?no, EncodeFrame ?ok}"
    using assms by (auto simp: handleFrame_def handleUnregister_def hOut_writeMessage msg_defs split: option.splits)
  moreover have "DecodeFrame (EncodeFrame ?no) = Inr ?no" by (rule Decode_Encode) (simp add: MaxFrameSize_def MaxBodySize_def)
  moreover have "DecodeFrame (EncodeFrame ?ok) = Inr ?ok" by (rule Decode_Encode) simp
  ultimately show ?thesis by auto
qed

lemma link_remove:
  assumes "link ct sh h used" "d \<in> set (ctForwards ct)" "map_of (hTunnels h) (fwTunnelID d) = Some t" "http_backed sh h d"
    and "ctForwards ct2 = removeFirst (fwTunnelID d) (ctForwards ct)"
    and "sh' = sh\<lparr>shRegistry := Unregister (tunSubdomain t) (shRegistry sh)\<rparr>"
    and "resources_of h' = resources_of (h\<lparr>hTunnels := AList.delete (fwTunnelID d) (hTunnels h), hTunnelCount := c\<rparr>)"
  shows "link ct2 sh' h' used"
proof -
  have L: "reg_inv (shRegistry sh)" "distinct (map fwTunnelID (ctForwards ct))" "\<forall>f \<in> set (ctForwards ct). backed sh h f"
    using assms(1) by (simp_all add: link_def)
  have t: "Get (shRegistry sh) (tunSubdomain t) = Some t" "tunID t = fwTunnelID d"
    using assms(3,4) by (auto simp: http_backed_def)
  have h': "hTunnels h' = AList.delete (fwTunnelID d) (hTunnels h)" "hTcpTunnels h' = hTcpTunnels h" "hTlsTunnels h' = hTlsTunnels h"
    "hAuthenticated h' = hAuthenticated h" "hBaseDomain h' = hBaseDomain h" "hTcpHost h' = hTcpHost h" "hSelf h' = hSelf h"
    using assms(7) by (simp_all add: resources_of_eq_iff)
  have "backed sh' h' f" if f: "f \<in> set (ctForwards ct)" "fwTunnelID f \<noteq> fwTunnelID d" for f
  proof -
    have "http_backed sh' h' f" if "http_backed sh h f"
    proof -
      from that obtain ta where a: "map_of (hTunnels h) (fwTunnelID f) = Some ta" "tunID ta = fwTunnelID f" "tunHandler ta = hSelf h"
        "Get (shRegistry sh) (tunSubdomain ta) = Some ta" "tunSubdomain ta \<noteq> ''''" "validSubdomain (tunSubdomain ta)"
        "fwURL f = public_url (tunSubdomain ta) (hBaseDomain h)"
        by (auto simp: http_backed_def)
      have "tunSubdomain ta \<noteq> tunSubdomain t"
      proof
        assume "tunSubdomain ta = tunSubdomain t"
        then have "Some ta = Some t" using a(4) t(1) by (simp only:)
        then show False using a(2) t(2) f(2) by simp
      qed
      then show ?thesis unfolding http_backed_def
        using a f(2) h' L(1) assms(6) by (intro exI [of _ ta]) (simp add: delete_conv')
    qed
    moreover have "tcp_backed sh h f \<Longrightarrow> tcp_backed sh' h' f" "tls_backed sh h f \<Longrightarrow> tls_backed sh' h' f"
      using h' assms(6) by (auto simp: tcp_backed_def tls_backed_def)
    ultimately show ?thesis using L(3) f(1) by (auto simp: backed_def)
  qed
  moreover have "set (map fwTunnelID (ctForwards ct2)) \<subseteq> set (map fwTunnelID (ctForwards ct))"
    unfolding assms(5) removeFirst_ids by (rule set_remove1_subset)
  moreover have "distinct (map fwTunnelID (ctForwards ct2))" unfolding assms(5) removeFirst_ids using L(2) by simp
  ultimately show ?thesis using assms(1,5,6) h' L set_removeFirst [OF L(2), of "fwTunnelID d"]
    by (auto simp: link_def reg_inv_Unregister delete_conv' split: if_splits)
qed

lemma del_timeout: "controlDone q werr True (CtlDeleting ch port) ct = Some (ct\<lparr>ctDelCh := None\<rparr>, errReply ''remove port timeout'')"
  by (simp add: controlDone_def delWait_def)

lemma del_late: "ctDelCh (clTun cl) = None \<Longrightarrow> DecodeFrame msg = Inr g \<Longrightarrow> ftype g \<in> {MsgUnregisterOK, MsgUnregisterErr} \<Longrightarrow>
    ctForwards (clTun (clientStep (ce, Msg msg) cl)) = ctForwards (clTun cl)"
  by (auto simp: clientFrame_def handleDelResponse_def Let_def msg_defs)

lemma del_answer_forwards:
  assumes "clRunning cl" "ctDelCh (clTun cl) = Some ch" "DecodeFrame msg = Inr g" "ftype g = MsgUnregisterOK"
  shows "ctForwards (clTun (clientStep (ce, Msg msg) cl)) = removeFirst (ctDelID (clTun cl)) (ctForwards (clTun cl))"
  using assms by (auto simp: clientFrame_def handleDelResponse_def removeMapping_def Let_def msg_defs)

text \<open>
  The server looks only among the HTTP tunnels: for a TCP or TLS forward the command is answered with
  an error and changes nothing.
\<close>

lemma del_refused_for_raw:
  assumes "link ct sh h used" "hHasConn h" "eWriteOk e"
    and "parseControl txt = CtlDel port" "controlLine q werr True txt ct = (ct1, CtlDeleting ch port')"
    and "find (\<lambda>f. fwPort f = port) (ctForwards ct) = Some d" "map_of (hTunnels h) (fwTunnelID d) = None"
    and "DecodeFrame (last (ctOut ct1)) = Inr f" "handleFrame cf e f (sh, h) = (sh', h')"
    and "clRunning cl" "clTun cl = ct1"
    and "controlDone q werr False (CtlDeleting ch port') (clTun (clientStep (ce, Msg (last (hOut h'))) cl)) = Some (ct2, reply)"
  shows "reply = errReply ''unknown tunnel'' \<and> ctForwards ct2 = ctForwards ct \<and> sh' = sh \<and> link ct2 sh' h' used"
proof -
  obtain d' where s: "port' = port" "find (\<lambda>f. fwPort f = port) (ctForwards ct) = Some d'" "ctDelCh ct1 = Some ch"
    "ctDelID ct1 = fwTunnelID d'" "ctForwards ct1 = ctForwards ct" "ch < length (ctDelChans ct1)" "ctDelChans ct1 ! ch = None"
    "ctOut ct1 = ctOut ct @ [EncodeFrame \<lparr>ftype = MsgUnregister, TunnelID = fwTunnelID d', RequestID = 0, Payload = []\<rparr>]"
    by (rule del_sent [OF assms(5,4)])
  let ?u = "\<lparr>ftype = MsgUnregister, TunnelID = fwTunnelID d, RequestID = 0, Payload = []\<rparr>"
  have d: "d' = d" using s(2) assms(6) by simp
  have f: "f = ?u" using assms(8) s(8) d Decode_Encode [of ?u] by simp
  have auth: "hAuthenticated h" using assms(1) by (simp add: link_def)
  obtain g where g: "DecodeFrame (last (hOut h')) = Inr g"
    using unregister_reply_decodes [OF auth assms(2,3) assms(9) [unfolded f]] by blast
  have u: "ftype g = MsgUnregisterErr" "string_of (Payload g) = ''unknown tunnel''" "sh' = sh" "resources_of h' = resources_of h"
    using unregister_reply [OF auth assms(2,3) assms(9) [unfolded f] g] assms(7) by simp_all
  have "reply = errReply ''unknown tunnel'' \<and> ctForwards ct2 = ctForwards ct"
    using del_resolved [OF assms(10) _ _ g, of ch q werr port ce] s assms(11,12) u(1,2) by auto
  then show ?thesis using link_cong [OF assms(1)] u(3,4) by simp
qed



section \<open>An example of each\<close>

lemma sample_register_reply:
  "\<exists>sh' h' g. handleFrame sample_config sample_env sample_register (sample_shared, sample_client) = (sh', h') \<and>
     DecodeFrame (last (hOut h')) = Inr g \<and> ftype g = MsgRegisterOK"
proof -
  have h: "hAuthenticated sample_client" "hHasConn sample_client" "hSelf sample_client = 1" "hBaseDomain sample_client = ''x.io''"
    by (simp_all add: sample_client_def NewClientHandler_def)
  let ?t = "\<lparr>tunID = 7, tunSubdomain = ''app'', tunHandler = 1\<rparr>"
  obtain g where r: "Register ''app'' (hSelf sample_client) (eIdRand sample_env) (shRegistry sample_shared) = (g, Inr ?t)"
    using h(3) by (simp add: Register_def sample_shared_def NewRegistry_def get_be_def Let_def sample_env_def)
  obtain p where p: "EncodeRegisterOK (public_url ''app'' ''x.io'') 7 = Inr p" "length p \<le> MaxFrameSize"
    by (simp add: EncodeRegisterOK_def public_url_def MaxFrameSize_def MaxBodySize_def)
  let ?f = "\<lparr>ftype = MsgRegisterOK, TunnelID = 7, RequestID = 0, Payload = p\<rparr>"
  let ?h1 = "sample_client\<lparr>hTunnels := AList.update (tunID ?t) ?t (hTunnels sample_client), hTunnelCount := hTunnelCount sample_client + 1\<rparr>"
  have ty: "ftype sample_register = MsgRegister" by (simp add: sample_register_def)
  have hf: "handleFrame sample_config sample_env sample_register (sample_shared, sample_client) =
      (sample_shared\<lparr>shRegistry := g\<rparr>, reg_done sample_env ''app'' ?t ?h1)"
    using handleRegister_ok [OF sample_accepts r, of sample_config] h by (simp add: handleFrame_def ty) (simp add: msg_defs)
  have out: "hOut (reg_done sample_env ''app'' ?t ?h1) = hOut sample_client @ [EncodeFrame ?f]"
    using h p(1) by (simp add: reg_done_def hOut_writeMessage reply_payload_def sample_env_def)
  obtain sh' h' where s: "handleFrame sample_config sample_env sample_register (sample_shared, sample_client) = (sh', h')"
    and o: "last (hOut h') = EncodeFrame ?f"
    using hf out by simp
  have "DecodeFrame (EncodeFrame ?f) = Inr ?f" by (rule Decode_Encode) (simp add: p(2))
  with s o show ?thesis by auto
qed

lemma sample_link: "link (NewTunnel '''' [] [] [] []) sample_shared sample_client {}"
  by (simp add: link_def NewTunnel_def sample_shared_def sample_client_def NewClientHandler_def)



definition sample_app :: Tunnel where
  "sample_app = \<lparr>tunID = 7, tunSubdomain = ''app'', tunHandler = 1\<rparr>"

definition sample_app_shared :: Shared where
  "sample_app_shared = sample_shared\<lparr>shRegistry := \<lparr>regTunnels = [(''app'', sample_app)]\<rparr>\<rparr>"

definition sample_app_handler :: ClientHandler where
  "sample_app_handler = sample_client\<lparr>hTunnels := [(7, sample_app)], hTunnelCount := 1\<rparr>"

lemma sample_app_backed: "http_backed sample_app_shared sample_app_handler (fwd 7 8080 ''app.x.io'')"
  by (simp add: http_backed_def sample_app_handler_def sample_app_shared_def sample_app_def fwd_def sample_client_def
      NewClientHandler_def Get_def validSubdomain_def subdomain_char_def limit_defs public_url_def)

lemma sample_app_link: "link sample_client_tunnel sample_app_shared sample_app_handler {7}"
  using sample_app_backed
  by (auto simp: link_def backed_def sample_client_tunnel_def setMapping_def NewTunnel_def fwd_def reg_inv_def
      sample_app_shared_def sample_shared_def sample_app_handler_def sample_client_def NewClientHandler_def sample_app_def
      NewRegistry_def)


end
