(* ===== verification/Sni.thy ===== *)
theory Sni
  imports Registry
begin

text \<open>
  TLS passthrough: the ClientHello parser of \<^verbatim>\<open>internal/server/sni.go\<close> and the routing by server name
  of \<^verbatim>\<open>internal/server/tlspass.go\<close>. Every slice and index of the parser goes through the checked
  operations, so an access out of bounds would show as \<open>Inl Panic\<close>. The result \<open>Inr None\<close> is Go's
  \<^verbatim>\<open>"", false\<close>. The reads of a connection are a list of the chunks \<^verbatim>\<open>Read\<close> returns, each with the
  flag whether an error came with it; when the list ends, the read deadline has passed.
\<close>

definition slice_from :: "bytes \<Rightarrow> nat \<Rightarrow> protoErr + bytes" where
  "slice_from b lo = slice b lo (length b)"

lemma slice_from_ok [simp]: "lo \<le> length b \<Longrightarrow> slice_from b lo = Inr (drop lo b)"
  by (simp add: slice_from_def)

lemma slice_from_Inr: "slice_from b lo = Inr b' \<Longrightarrow> b' = drop lo b \<and> lo \<le> length b"
  by (auto simp: slice_from_def slice_def split: if_splits)

section \<open>The parser\<close>

function name_loop :: "bytes \<Rightarrow> protoErr + string option" where
  "name_loop ext =
     (if length ext < 3 then Inr None
      else
        and_then (index ext 0) (\<lambda>nameType.
        and_then (and_then (slice_from ext 1) (uint_at 2)) (\<lambda>nameLen :: u16.
        and_then (slice_from ext 3) (\<lambda>ext1.
          if length ext1 < unat nameLen then Inr None
          else if nameType = 0
            then and_then (slice ext1 0 (unat nameLen)) (\<lambda>name. Inr (Some (string_of name)))
          else and_then (slice_from ext1 (unat nameLen)) name_loop))))"
  by pat_completeness auto
termination
  by (relation "measure length") (auto dest!: slice_from_Inr)

definition parseServerName :: "bytes \<Rightarrow> protoErr + string option" where
  "parseServerName ext =
     (if length ext < 2 then Inr None
      else
        and_then (uint_at 2 ext) (\<lambda>listLen :: u16.
        and_then (slice_from ext 2) (\<lambda>ext1.
          if length ext1 < unat listLen then Inr None else name_loop ext1)))"

function ext_loop :: "bytes \<Rightarrow> protoErr + string option" where
  "ext_loop b =
     (if length b < 4 then Inr None
      else
        and_then (uint_at 2 b) (\<lambda>extType :: u16.
        and_then (and_then (slice_from b 2) (uint_at 2)) (\<lambda>extLen :: u16.
        and_then (slice_from b 4) (\<lambda>b1.
          if length b1 < unat extLen then Inr None
          else if extType \<noteq> 0 then and_then (slice_from b1 (unat extLen)) ext_loop
          else and_then (slice b1 0 (unat extLen)) parseServerName))))"
  by pat_completeness auto
termination
  by (relation "measure length") (auto dest!: slice_from_Inr)

declare name_loop.simps [simp del] ext_loop.simps [simp del]

text \<open>A block with a one-byte, respectively two-byte, length in front, skipped.\<close>

definition skip8 :: "bytes \<Rightarrow> protoErr + bytes option" where
  "skip8 b =
     (if length b < 1 then Inr None
      else and_then (index b 0) (\<lambda>n.
        if length b < 1 + unat n then Inr None
        else and_then (slice_from b (1 + unat n)) (\<lambda>b'. Inr (Some b'))))"

definition skip16 :: "bytes \<Rightarrow> protoErr + bytes option" where
  "skip16 b =
     (if length b < 2 then Inr None
      else and_then (uint_at 2 b) (\<lambda>n :: u16.
        and_then (slice_from b 2) (\<lambda>b1.
          if length b1 < unat n then Inr None
          else and_then (slice_from b1 (unat n)) (\<lambda>b'. Inr (Some b')))))"

definition sni_then :: "protoErr + 'a option \<Rightarrow> ('a \<Rightarrow> protoErr + 'b option) \<Rightarrow> protoErr + 'b option" where
  "sni_then r f = and_then r (\<lambda>x. case x of None \<Rightarrow> Inr None | Some y \<Rightarrow> f y)"

definition extensions :: "bytes \<Rightarrow> protoErr + string option" where
  "extensions b =
     (if length b < 2 then Inr None
      else and_then (uint_at 2 b) (\<lambda>extTotal :: u16.
        and_then (slice_from b 2) (\<lambda>b1.
          if length b1 < unat extTotal then Inr None
          else and_then (slice b1 0 (unat extTotal)) ext_loop)))"

definition extractSNI :: "bytes \<Rightarrow> protoErr + string option" where
  "extractSNI data =
     (if length data < 5 then Inr None
      else
        and_then (index data 0) (\<lambda>typ.
        if typ \<noteq> 0x16 then Inr None
        else
          and_then (and_then (slice data 3 5) (uint_at 2)) (\<lambda>recLen :: u16.
          and_then (slice_from data 5) (\<lambda>hs0.
          if length hs0 < unat recLen then Inr None
          else
            and_then (slice hs0 0 (unat recLen)) (\<lambda>hs.
            if length hs < 4 then Inr None
            else
              and_then (index hs 0) (\<lambda>ht.
              if ht \<noteq> 1 then Inr None
              else
                and_then (slice_from hs 4) (\<lambda>b.
                if length b < 34 then Inr None
                else
                  and_then (slice_from b 34) (\<lambda>b1.
                  sni_then (skip8 b1) (\<lambda>b2.
                  sni_then (skip16 b2) (\<lambda>b3.
                  sni_then (skip8 b3) extensions))))))))))"

section \<open>Routing\<close>

fun peekLoop :: "(bytes \<times> bool) list \<Rightarrow> bytes \<Rightarrow> protoErr + bytes \<times> string option" where
  "peekLoop [] buf = Inr (buf, None)"
| "peekLoop ((tmp, err) # reads) buf =
     (if length buf < 8192 then
        let buf1 = (if tmp \<noteq> [] then buf @ tmp else buf)
        in and_then (if tmp \<noteq> [] then extractSNI buf1 else Inr None) (\<lambda>found.
             case found of
               Some name \<Rightarrow> Inr (buf1, Some name)
             | None \<Rightarrow> if err then Inr (buf1, None) else peekLoop reads buf1)
      else Inr (buf, None))"

definition peekClientHello :: "(bytes \<times> bool) list \<Rightarrow> protoErr + bytes \<times> string option" where
  "peekClientHello reads = peekLoop reads []"

text \<open>What becomes of a public TLS connection: it is dropped, or handed to \<^verbatim>\<open>relayPublicConn\<close> of a
  connection with a tunnel ID and the bytes read so far.\<close>

datatype routed = Dropped | RelayTo hid u64 bytes

definition route :: "string \<Rightarrow> Registry \<Rightarrow> (bytes \<times> bool) list \<Rightarrow> protoErr + routed" where
  "route baseDomain registry reads =
     and_then (peekClientHello reads) (\<lambda>(pre, found).
       case found of
         None \<Rightarrow> Inr Dropped
       | Some sni \<Rightarrow>
           let subdomain = extractSubdomain sni baseDomain
           in if subdomain = '''' then Inr Dropped
              else case Get registry subdomain of
                None \<Rightarrow> Inr Dropped
              | Some tunnel \<Rightarrow> Inr (RelayTo (tunHandler tunnel) (tunID tunnel) pre))"

section \<open>No access out of bounds\<close>

text \<open>The parser with the bounds checks discharged.\<close>

lemma index_0: "0 < length b \<Longrightarrow> index b 0 = Inr (b ! 0)"
  by simp

lemma name_loop_eq:
  "name_loop ext =
     (if length ext < 3 then Inr None
      else let n = unat (get_be (take 2 (drop 1 ext)) :: u16); e = drop 3 ext
           in if length e < n then Inr None
              else if ext ! 0 = 0 then Inr (Some (string_of (take n e)))
              else name_loop (drop n e))"
proof (cases "length ext < 3")
  case False
  then have "0 < length ext" "index ext 0 = Inr (ext ! 0)" by (auto intro: index_0)
  with False show ?thesis by (subst name_loop.simps) (simp add: Let_def)
qed (simp add: name_loop.simps)

lemma parseServerName_eq:
  "parseServerName ext =
     (if length ext < 2 \<or> length (drop 2 ext) < unat (get_be (take 2 ext) :: u16) then Inr None
      else name_loop (drop 2 ext))"
  by (simp add: parseServerName_def)

lemma ext_loop_eq:
  "ext_loop b =
     (if length b < 4 then Inr None
      else let n = unat (get_be (take 2 (drop 2 b)) :: u16); e = drop 4 b
           in if length e < n then Inr None
              else if (get_be (take 2 b) :: u16) \<noteq> 0 then ext_loop (drop n e)
              else parseServerName (take n e))"
  by (subst ext_loop.simps) (simp add: Let_def)

lemma extensions_eq:
  "extensions b =
     (let n = unat (get_be (take 2 b) :: u16)
      in if length b < 2 \<or> length (drop 2 b) < n then Inr None else ext_loop (take n (drop 2 b)))"
  by (simp add: extensions_def Let_def)

lemma skip8_eq: "skip8 b = (if length b < 1 \<or> length b < 1 + unat (b ! 0) then Inr None else Inr (Some (drop (1 + unat (b ! 0)) b)))"
  by (auto simp: skip8_def index_def)

lemma skip16_eq:
  "skip16 b = (let n = unat (get_be (take 2 b) :: u16)
     in if length b < 2 \<or> length (drop 2 b) < n then Inr None else Inr (Some (drop n (drop 2 b))))"
  by (simp add: skip16_def Let_def)

definition hello_body :: "bytes \<Rightarrow> protoErr + string option" where
  "hello_body b = sni_then (skip8 b) (\<lambda>b2. sni_then (skip16 b2) (\<lambda>b3. sni_then (skip8 b3) extensions))"

lemma extractSNI_eq:
  "extractSNI data =
     (let n = unat (get_be (take 2 (drop 3 data)) :: u16); hs = take n (drop 5 data)
      in if length data < 5 \<or> data ! 0 \<noteq> 0x16 \<or> length (drop 5 data) < n then Inr None
         else if length hs < 4 \<or> hs ! 0 \<noteq> 1 \<or> length (drop 4 hs) < 34 then Inr None
         else hello_body (drop 34 (drop 4 hs)))"
proof (cases "length data < 5")
  case False
  then have d: "index data 0 = Inr (data ! 0)" by (intro index_0) auto
  let ?n = "unat (get_be (take 2 (drop 3 data)) :: u16)" and ?h = "take (unat (get_be (take 2 (drop 3 data)) :: u16)) (drop 5 data)"
  show ?thesis
  proof (cases "length (drop 5 data) < ?n \<or> length ?h < 4")
    case True
    then show ?thesis using False d by (auto simp: extractSNI_def Let_def)
  next
    case short: False
    then have "index ?h 0 = Inr (?h ! 0)" by (intro index_0) auto
    then show ?thesis using False short d by (simp add: extractSNI_def Let_def hello_body_def)
  qed
qed (simp add: extractSNI_def)

lemma name_loop_total: "\<exists>r. name_loop ext = Inr r"
proof (induction "length ext" arbitrary: ext rule: less_induct)
  case less
  show ?case by (subst name_loop_eq) (auto simp: Let_def intro: less)
qed

lemma parseServerName_total: "\<exists>r. parseServerName ext = Inr r"
  using name_loop_total by (simp add: parseServerName_eq)

lemma ext_loop_total: "\<exists>r. ext_loop b = Inr r"
proof (induction "length b" arbitrary: b rule: less_induct)
  case less
  show ?case by (subst ext_loop_eq) (auto simp: Let_def parseServerName_total intro: less)
qed

lemma sni_then_total: "\<exists>r. x = Inr r \<Longrightarrow> (\<And>y. \<exists>r. f y = Inr r) \<Longrightarrow> \<exists>r. sni_then x f = Inr r"
  by (auto simp: sni_then_def split: option.splits)

lemma extractSNI_total: "\<exists>r. extractSNI data = Inr r"
proof -
  have "\<exists>r. extensions b = Inr r" for b using ext_loop_total by (simp add: extensions_eq Let_def)
  then have "\<exists>r. hello_body b = Inr r" for b
    unfolding hello_body_def by (intro sni_then_total) (simp_all add: skip8_eq skip16_eq Let_def)
  then show ?thesis by (simp add: extractSNI_eq Let_def)
qed

section \<open>ClientHello messages\<close>

text \<open>The layout of RFC 8446 (records, handshake, ClientHello) and RFC 6066 (server name).\<close>

definition len16 :: "bytes \<Rightarrow> bytes" where
  "len16 b = put_be 2 (of_nat (length b) :: u16) @ b"

definition len8 :: "bytes \<Rightarrow> bytes" where
  "len8 b = of_nat (length b) # b"

definition tls_ext :: "u16 \<times> bytes \<Rightarrow> bytes" where
  "tls_ext = (\<lambda>(t, d). put_be 2 t @ len16 d)"

definition sni_ext :: "string \<Rightarrow> bytes" where
  "sni_ext name = tls_ext (0, len16 (0 # len16 (bytes_of name)))"

record hello =
  chVersion :: bytes
  chPrefix :: bytes
  chSession :: bytes
  chCiphers :: bytes
  chCompression :: bytes
  chBefore :: "(u16 \<times> bytes) list"
  chName :: string
  chAfter :: "(u16 \<times> bytes) list"

definition hello_exts :: "hello \<Rightarrow> bytes" where
  "hello_exts h = concat (map tls_ext (chBefore h)) @ sni_ext (chName h) @ concat (map tls_ext (chAfter h))"

definition hello_hs :: "hello \<Rightarrow> bytes" where
  "hello_hs h =
     (let b = chPrefix h @ len8 (chSession h) @ len16 (chCiphers h) @ len8 (chCompression h) @ len16 (hello_exts h)
      in 1 # put_be 3 (of_nat (length b) :: u32) @ b)"

definition client_hello :: "hello \<Rightarrow> bytes" where
  "client_hello h = 0x16 # chVersion h @ len16 (hello_hs h)"

definition hello_ok :: "hello \<Rightarrow> bool" where
  "hello_ok h \<longleftrightarrow> length (chVersion h) = 2 \<and> length (chPrefix h) = 34 \<and> length (chSession h) < 256 \<and>
     length (chCiphers h) < 65536 \<and> length (chCompression h) < 256 \<and> length (hello_exts h) < 65536 \<and>
     length (hello_hs h) < 65536 \<and> length (chName h) < 65000 \<and>
     (\<forall>(t, d) \<in> set (chBefore h). t \<noteq> 0 \<and> length d < 65536)"

lemma get_len16 [simp]: "length b < 65536 \<Longrightarrow> unat (get_be (take 2 (len16 b)) :: u16) = length b"
  by (simp add: len16_def get_be_put_be)

lemma drop_len16 [simp]: "drop 2 (len16 b) = b"
  by (simp add: len16_def)

lemma length_len16 [simp]: "length (len16 b) = 2 + length b"
  by (simp add: len16_def)

lemma skip16_len16: "length b < 65536 \<Longrightarrow> skip16 (len16 b @ r) = Inr (Some r)"
  by (simp add: skip16_eq Let_def del: drop_drop)

lemma skip8_len8: "length b < 256 \<Longrightarrow> skip8 (len8 b @ r) = Inr (Some r)"
  by (simp add: skip8_eq len8_def)

lemma name_loop_host: "length n < 65536 \<Longrightarrow> name_loop (0 # len16 (bytes_of n) @ r) = Inr (Some n)"
  using get_len16 [of "bytes_of n"]
  by (subst name_loop_eq) (simp add: Let_def len16_def)

lemma parse_sni: "length n < 65000 \<Longrightarrow> parseServerName (len16 (0 # len16 (bytes_of n))) = Inr (Some n)"
  using name_loop_host [of n "[]"] by (simp add: parseServerName_eq)

lemma ext_loop_step:
  assumes "length d < 65536"
  shows "ext_loop (tls_ext (t, d) @ r) = (if t \<noteq> 0 then ext_loop r else parseServerName d)"
proof -
  have e: "take 2 (tls_ext (t, d) @ r) = put_be 2 t" "drop 2 (tls_ext (t, d) @ r) = len16 d @ r"
    "drop 4 (tls_ext (t, d) @ r) = d @ r" by (simp_all add: tls_ext_def len16_def)
  moreover have "\<not> length (tls_ext (t, d) @ r) < 4" by (simp add: tls_ext_def)
  ultimately show ?thesis using assms
    unfolding ext_loop_eq [of "tls_ext (t, d) @ r"] e by (simp add: Let_def get_be_put_be)
qed

lemma ext_loop_sni:
  assumes "length n < 65000" "\<forall>(t, d) \<in> set es. t \<noteq> 0 \<and> length d < 65536"
  shows "ext_loop (concat (map tls_ext es) @ sni_ext n @ r) = Inr (Some n)"
  using assms(2)
proof (induction es)
  case Nil
  then show ?case using assms(1) by (simp add: sni_ext_def ext_loop_step parse_sni)
next
  case (Cons e es)
  then show ?case by (cases e) (simp add: ext_loop_step)
qed

lemma hello_body_ok:
  assumes "hello_ok h"
  shows "hello_body (len8 (chSession h) @ len16 (chCiphers h) @ len8 (chCompression h) @ len16 (hello_exts h)) =
    Inr (Some (chName h))"
proof -
  have "extensions (len16 (hello_exts h)) = ext_loop (hello_exts h)"
    using assms by (simp add: extensions_eq Let_def hello_ok_def)
  also have "\<dots> = Inr (Some (chName h))"
    unfolding hello_exts_def using assms by (intro ext_loop_sni) (auto simp: hello_ok_def)
  finally show ?thesis using assms skip8_len8 [of "chCompression h" "len16 (hello_exts h)"]
    by (simp add: hello_body_def sni_then_def skip8_len8 skip16_len16 hello_ok_def)
qed

lemma extractSNI_hello:
  assumes "hello_ok h"
  shows "extractSNI (client_hello h @ rest) = Inr (Some (chName h))"
proof -
  let ?d = "client_hello h @ rest"
  have v: "length (chVersion h) = 2" and hs: "length (hello_hs h) < 65536" using assms by (simp_all add: hello_ok_def)
  have "drop 3 ?d = len16 (hello_hs h) @ rest" using v by (simp add: client_hello_def)
  then have n: "unat (get_be (take 2 (drop 3 ?d)) :: u16) = length (hello_hs h)" using hs by simp
  have d5: "drop 5 ?d = hello_hs h @ rest" using v by (simp add: client_hello_def len16_def)
  have "hello_hs h ! 0 = 1" "drop 4 (hello_hs h) = chPrefix h @ len8 (chSession h) @ len16 (chCiphers h) @
      len8 (chCompression h) @ len16 (hello_exts h)" by (simp_all add: hello_hs_def Let_def)
  moreover have "length (hello_hs h) \<ge> 38" "length (chPrefix h) = 34"
    using assms by (simp_all add: hello_hs_def Let_def hello_ok_def)
  moreover have "\<not> length ?d < 5" "?d ! 0 = 0x16" using v by (simp_all add: client_hello_def)
  ultimately show ?thesis using hello_body_ok [OF assms]
    unfolding extractSNI_eq n d5 by (simp add: Let_def)
qed

lemma extractSNI_partial:
  assumes "hello_ok h" "client_hello h = a @ b" "b \<noteq> []"
  shows "extractSNI a = Inr None"
proof (cases "length a < 5")
  case False
  have v: "length (chVersion h) = 2" and hs: "length (hello_hs h) < 65536" using assms by (simp_all add: hello_ok_def)
  have "take 2 (drop 3 a) = take 2 (drop 3 (client_hello h))" using False assms(2) by simp
  also have "\<dots> = take 2 (len16 (hello_hs h) @ [])" using v by (simp add: client_hello_def)
  finally have "unat (get_be (take 2 (drop 3 a)) :: u16) = length (hello_hs h)" using hs by simp
  moreover have "length (client_hello h) = 5 + length (hello_hs h)" using v by (simp add: client_hello_def)
  then have "length (drop 5 a) < length (hello_hs h)" using assms(2,3) False by (cases b) auto
  ultimately show ?thesis by (simp add: extractSNI_eq Let_def)
qed (simp add: extractSNI_eq)

section \<open>Properties\<close>

text \<open>The bytes of a list of reads, none of which is empty or comes with an error.\<close>

definition chunked :: "(bytes \<times> bool) list \<Rightarrow> bytes \<Rightarrow> bool" where
  "chunked reads d \<longleftrightarrow> concat (map fst reads) = d \<and> (\<forall>(c, err) \<in> set reads. c \<noteq> [] \<and> \<not> err)"

lemma peekLoop_hello:
  assumes "hello_ok h" "length (client_hello h) \<le> 8192"
  shows "buf @ concat (map fst reads) = client_hello h \<Longrightarrow> \<forall>(c, err) \<in> set reads. c \<noteq> [] \<and> \<not> err \<Longrightarrow>
     reads \<noteq> [] \<Longrightarrow> peekLoop (reads @ rest) buf = Inr (client_hello h, Some (chName h))"
proof (induction reads arbitrary: buf)
  case (Cons r reads)
  obtain c err where r: "r = (c, err)" by fastforce
  have c: "c \<noteq> []" "\<not> err" using Cons.prems(2) r by auto
  have eq: "(buf @ c) @ concat (map fst reads) = client_hello h" using Cons.prems(1) r by simp
  have "length buf < length (client_hello h)" using arg_cong [OF eq, of length] c by (cases c) auto
  then have lb: "length buf < 8192" using assms(2) by linarith
  show ?case
  proof (cases "reads = []")
    case True
    then have "extractSNI (buf @ c) = Inr (Some (chName h))"
      using extractSNI_hello [OF assms(1), of "[]"] eq by simp
    then show ?thesis using True eq c lb by (simp add: r Let_def)
  next
    case False
    then have "concat (map fst reads) \<noteq> []" using Cons.prems(2) by (cases reads) auto
    then have "extractSNI (buf @ c) = Inr None" using extractSNI_partial [OF assms(1) eq [symmetric]] by simp
    then show ?thesis using Cons.IH [OF eq] Cons.prems(2) False c lb by (simp add: r Let_def)
  qed
qed simp

text \<open>
  The ClientHello parser is safe on hostile input: whatever bytes a public connection sends and
  however they are split, neither the parser nor the routing accesses a slice out of bounds; and a
  connection that is not dropped is relayed to a tunnel registered under the name it asked for.
\<close>

theorem tls_routing_never_panics:
  "(\<exists>r. extractSNI data = Inr r) \<and>
   (\<exists>r. route base reg reads = Inr r \<and>
     (\<forall>c i pre. r = RelayTo c i pre \<longrightarrow>
        (\<exists>sub t. sub \<noteq> '''' \<and> validSubdomain sub \<and> Get reg sub = Some t \<and> tunHandler t = c \<and> tunID t = i)))"
proof
  show "\<exists>r. extractSNI data = Inr r" by (rule extractSNI_total)
  have total: "\<exists>r. peekLoop rs buf = Inr r" for rs buf
  proof (induction rs arbitrary: buf)
    case (Cons x rs)
    obtain c err where x: "x = (c, err)" by fastforce
    obtain y where "extractSNI (buf @ c) = Inr y" using extractSNI_total by blast
    with Cons show ?case by (cases y) (auto simp: x Let_def)
  qed simp
  then obtain pre found where p: "peekClientHello reads = Inr (pre, found)"
    unfolding peekClientHello_def by fastforce
  show "\<exists>r. route base reg reads = Inr r \<and>
     (\<forall>c i pre. r = RelayTo c i pre \<longrightarrow>
        (\<exists>sub t. sub \<noteq> '''' \<and> validSubdomain sub \<and> Get reg sub = Some t \<and> tunHandler t = c \<and> tunID t = i))"
  proof (cases found)
    case (Some sni)
    show ?thesis
    proof (cases "extractSubdomain sni base = '''' \<or> Get reg (extractSubdomain sni base) = None")
      case False
      then obtain t where t: "Get reg (extractSubdomain sni base) = Some t" by auto
      have "validSubdomain (extractSubdomain sni base)" using False extractSubdomain_sound by blast
      then have "\<exists>sub t'. sub \<noteq> '''' \<and> validSubdomain sub \<and> Get reg sub = Some t' \<and>
          tunHandler t' = tunHandler t \<and> tunID t' = tunID t" using False t by blast
      then show ?thesis using False p Some t by (simp add: route_def Let_def)
    qed (use p Some in \<open>auto simp: route_def Let_def\<close>)
  qed (use p in \<open>simp add: route_def\<close>)
qed

text \<open>
  C19. TLS passthrough routes by server name: a ClientHello of at most 8192 bytes for
  \<open>sub.base\<close>, with any session ID, cipher suites, compression methods and other extensions, sent in
  whatever non-empty pieces, is relayed to the tunnel registered for \<open>sub\<close> together with exactly the
  bytes of the ClientHello, so the handshake reaches the client unchanged.
\<close>

theorem client_hello_is_routed:
  assumes "hello_ok h" "length (client_hello h) \<le> 8192" "chunked reads (client_hello h)"
    and "validSubdomain sub" "sub \<noteq> ''''" "chName h = sub @ ''.'' @ base" "Get reg sub = Some t"
  shows "route base reg (reads @ rest) = Inr (RelayTo (tunHandler t) (tunID t) (client_hello h))"
proof -
  have "reads \<noteq> []" using assms(3) by (auto simp: chunked_def client_hello_def)
  then have "peekClientHello (reads @ rest) = Inr (client_hello h, Some (chName h))"
    unfolding peekClientHello_def
    using peekLoop_hello [OF assms(1,2), of "[]" reads] assms(3) by (simp add: chunked_def)
  then show ?thesis using extractSubdomain_public_host [OF assms(4,5), of base] assms(5,6,7)
    by (simp add: route_def Let_def)
qed

definition sample_hello :: hello where
  "sample_hello = \<lparr>chVersion = [3, 1], chPrefix = replicate 34 0, chSession = [], chCiphers = [0, 1],
     chCompression = [0], chBefore = [(10, [7])], chName = ''app.x.io'', chAfter = []\<rparr>"

definition sample_tls_registry :: Registry where
  "sample_tls_registry = \<lparr>regTunnels = [(''app'', \<lparr>tunID = 5, tunSubdomain = ''app'', tunHandler = 3\<rparr>)]\<rparr>"

lemma sample_hello_ok: "hello_ok sample_hello \<and> length (client_hello sample_hello) \<le> 8192"
  by (simp add: hello_ok_def sample_hello_def client_hello_def hello_hs_def hello_exts_def sni_ext_def tls_ext_def
      len8_def Let_def)

theorem client_hello_is_routed_witness:
  "route ''x.io'' sample_tls_registry ([(take 10 (client_hello sample_hello), False),
       (drop 10 (client_hello sample_hello), False)] @ []) =
     Inr (RelayTo 3 5 (client_hello sample_hello))"
proof -
  let ?h = sample_hello and ?t = "\<lparr>tunID = 5, tunSubdomain = ''app'', tunHandler = 3\<rparr>"
  have "10 < length (client_hello ?h)"
    by (simp add: sample_hello_def client_hello_def hello_hs_def Let_def)
  then have "chunked [(take 10 (client_hello ?h), False), (drop 10 (client_hello ?h), False)] (client_hello ?h)"
    by (auto simp: chunked_def)
  then have "route ''x.io'' sample_tls_registry ([(take 10 (client_hello ?h), False),
       (drop 10 (client_hello ?h), False)] @ []) = Inr (RelayTo (tunHandler ?t) (tunID ?t) (client_hello ?h))"
    by (intro client_hello_is_routed [where sub = "''app''"])
      (use sample_hello_ok in \<open>simp_all add: validSubdomain_def subdomain_char_def limit_defs
        Get_def sample_tls_registry_def\<close>, simp add: sample_hello_def)
  then show ?thesis by simp
qed

theorem tls_routing_never_panics_witness:
  "\<exists>r. route ''x.io'' sample_tls_registry [([22, 3, 1, 0], False), ([5], True)] = Inr r"
  using tls_routing_never_panics [of "[]" "''x.io''" sample_tls_registry "[([22, 3, 1, 0], False), ([5], True)]"] by blast

end
