(* ===== verification/Admin.thy ===== *)
theory Admin
  imports Protect Server
begin

text \<open>
  The admin API of \<^verbatim>\<open>internal/server/admin.go\<close>: its routes behind \<^verbatim>\<open>guard\<close> and what they report. A
  reply is the value handed to the JSON encoder, or the page; version and uptime are arguments.
\<close>

datatype adminReply =
    AdminUnauthorized
  | AdminStatus string int nat
  | AdminTunnels "TunnelInfo list"
  | AdminPage
  | AdminNotFound

record AdminServer =
  asToken :: string
  asVersion :: string
  asStarted :: int

definition handleStatus :: "AdminServer \<Rightarrow> int \<Rightarrow> Registry \<Rightarrow> adminReply" where
  "handleStatus a now reg = AdminStatus (asVersion a) (now - asStarted a) (length (Snapshot reg))"

definition handleTunnels :: "Registry \<Rightarrow> adminReply" where
  "handleTunnels reg = AdminTunnels (Snapshot reg)"

definition handleIndex :: "Request \<Rightarrow> adminReply" where
  "handleIndex r = (if rqPath r \<noteq> ''/'' then AdminNotFound else AdminPage)"

text \<open>The routes \<^verbatim>\<open>Start\<close> installs; every other path falls to the last one.\<close>

definition adminServe :: "AdminServer \<Rightarrow> int \<Rightarrow> Registry \<Rightarrow> Request \<Rightarrow> adminReply" where
  "adminServe a now reg r =
     (if \<not> guard (asToken a) r then AdminUnauthorized
      else if rqPath r = ''/api/status'' then handleStatus a now reg
      else if rqPath r = ''/api/tunnels'' then handleTunnels reg
      else handleIndex r)"




text \<open>
  \<^verbatim>\<open>tokenOK\<close> skips as many characters as \<^verbatim>\<open>Bearer\<close> and a blank have, but does not look at them.
\<close>

lemma any_scheme_accepted:
  assumes "token \<noteq> ''''" "length p = 7" "header_get (rqHeader r) ''Authorization'' = p @ token"
  shows "guard token r"
  using assms by (simp add: guard_def tokenOK_def)

end
