(* ===== verification/Ssh.thy ===== *)
theory Ssh
  imports PortAlloc Ownership Flags
begin

text \<open>
  Agentless tunnels over stock SSH, \<^verbatim>\<open>internal/sshtun/server.go\<close>: who is admitted, the remote-forward
  requests of a connection and the public ports they hold, the channel opened for each visitor, and the
  copying between the two. The wire format of the requests (\<^verbatim>\<open>ssh.Unmarshal\<close>, \<^verbatim>\<open>ssh.Marshal\<close> of
  \<^verbatim>\<open>golang.org/x/crypto/ssh\<close>) is an argument, as is whether the operating system lets a port be bound.
\<close>

section \<open>Admission\<close>

definition ConstantTimeCompare :: "bytes \<Rightarrow> bytes \<Rightarrow> int" where
  "ConstantTimeCompare x y = (if x = y then 1 else 0)"

datatype sshAuth = NoClientAuth | PasswordCallback "bytes \<Rightarrow> bool"

definition sshConfig :: "string \<Rightarrow> sshAuth" where
  "sshConfig token =
     (if token = '''' then NoClientAuth
      else PasswordCallback (\<lambda>pass. \<not> ConstantTimeCompare pass (bytes_of token) \<noteq> 1))"

text \<open>What the handshake makes of it: the password the client offers, if any.\<close>

fun admits :: "sshAuth \<Rightarrow> bytes option \<Rightarrow> bool" where
  "admits NoClientAuth pass = True"
| "admits (PasswordCallback f) None = False"
| "admits (PasswordCallback f) (Some pass) = f pass"

lemma admits_iff: "admits (sshConfig token) pass \<longleftrightarrow> token = '''' \<or> pass = Some (bytes_of token)"
  by (cases pass) (auto simp: sshConfig_def ConstantTimeCompare_def)

section \<open>Remote forwards\<close>

record bindReq =
  brAddr :: string
  brPort :: u32

record sshRequest =
  srType :: string
  srWantReply :: bool
  srPayload :: bytes

text \<open>The call \<^verbatim>\<open>req.Reply(ok, payload)\<close>, if the handler makes one.\<close>

type_synonym sshReply = "(bool \<times> bytes) option"

text \<open>The listeners of a connection: the port and the bind address its accept loop hands on.\<close>

type_synonym forwards = "(u16, string) gomap"

definition reqPort :: "bindReq \<Rightarrow> u16" where
  "reqPort b = ucast (brPort b)"

text \<open>
  \<^verbatim>\<open>startForward\<close> up to the allocated port, which is then not yet recorded; and from \<^verbatim>\<open>net.Listen\<close> on.
\<close>

definition beginSshForward ::
  "(bytes \<Rightarrow> bindReq option) \<Rightarrow> sshRequest \<Rightarrow> PortAllocator \<Rightarrow> PortAllocator \<times> (sshReply + bindReq \<times> u16)" where
  "beginSshForward unmarshal req a = (case unmarshal (srPayload req) of
       None \<Rightarrow> (a, Inl (Some (False, [])))
     | Some b \<Rightarrow> (case Allocate a (reqPort b) of
           (a', Inl e) \<Rightarrow> (a', Inl (Some (False, [])))
         | (a', Inr port) \<Rightarrow> (a', Inr (b, port))))"

definition finishSshForward ::
  "(u32 \<Rightarrow> bytes) \<Rightarrow> bool \<Rightarrow> sshRequest \<Rightarrow> bindReq \<Rightarrow> u16 \<Rightarrow> PortAllocator \<Rightarrow> forwards \<Rightarrow>
     PortAllocator \<times> forwards \<times> sshReply" where
  "finishSshForward marshal listens req b port a fwds =
     (if \<not> listens then (Release a port, fwds, Some (False, []))
      else (a, AList.update port (brAddr b) fwds,
            if srWantReply req then Some (True, marshal (ucast port)) else None))"

definition startSshForward ::
  "(bytes \<Rightarrow> bindReq option) \<Rightarrow> (u32 \<Rightarrow> bytes) \<Rightarrow> bool \<Rightarrow> sshRequest \<Rightarrow> PortAllocator \<Rightarrow> forwards \<Rightarrow>
     PortAllocator \<times> forwards \<times> sshReply" where
  "startSshForward unmarshal marshal listens req a fwds = (case beginSshForward unmarshal req a of
       (a', Inl reply) \<Rightarrow> (a', fwds, reply)
     | (a', Inr (b, port)) \<Rightarrow> finishSshForward marshal listens req b port a' fwds)"

definition cancelForward ::
  "(bytes \<Rightarrow> bindReq option) \<Rightarrow> sshRequest \<Rightarrow> PortAllocator \<Rightarrow> forwards \<Rightarrow> PortAllocator \<times> forwards \<times> sshReply" where
  "cancelForward unmarshal req a fwds =
     (let (a', fwds') = (case unmarshal (srPayload req) of
            None \<Rightarrow> (a, fwds)
          | Some b \<Rightarrow> (case map_of fwds (reqPort b) of
                None \<Rightarrow> (a, fwds)
              | Some ln \<Rightarrow> (Release a (reqPort b), AList.delete (reqPort b) fwds)))
      in (a', fwds', if srWantReply req then Some (True, []) else None))"

definition handleRequest ::
  "(bytes \<Rightarrow> bindReq option) \<Rightarrow> (u32 \<Rightarrow> bytes) \<Rightarrow> bool \<Rightarrow> sshRequest \<Rightarrow> PortAllocator \<Rightarrow> forwards \<Rightarrow>
     PortAllocator \<times> forwards \<times> sshReply" where
  "handleRequest unmarshal marshal listens req a fwds =
     (if srType req = ''tcpip-forward'' then startSshForward unmarshal marshal listens req a fwds
      else if srType req = ''cancel-tcpip-forward'' then cancelForward unmarshal req a fwds
      else (a, fwds, if srWantReply req then Some (False, []) else None))"

text \<open>The deferred clean-up, one listener after the other in the order of \<^verbatim>\<open>range\<close>.\<close>

fun closeForwards :: "forwards \<Rightarrow> PortAllocator \<Rightarrow> PortAllocator" where
  "closeForwards [] a = a"
| "closeForwards ((port, ln) # fwds) a = closeForwards fwds (Release a port)"

fun serveRequests ::
  "(bytes \<Rightarrow> bindReq option) \<Rightarrow> (u32 \<Rightarrow> bytes) \<Rightarrow> (sshRequest \<times> bool) list \<Rightarrow> PortAllocator \<Rightarrow> forwards \<Rightarrow>
     PortAllocator \<times> forwards \<times> sshReply list" where
  "serveRequests unmarshal marshal [] a fwds = (a, fwds, [])"
| "serveRequests unmarshal marshal ((req, listens) # reqs) a fwds =
     (let (a1, fwds1, reply) = handleRequest unmarshal marshal listens req a fwds;
          (a2, fwds2, replies) = serveRequests unmarshal marshal reqs a1 fwds1
      in (a2, fwds2, reply # replies))"

definition handleGlobalRequests ::
  "(bytes \<Rightarrow> bindReq option) \<Rightarrow> (u32 \<Rightarrow> bytes) \<Rightarrow> (sshRequest \<times> bool) list \<Rightarrow> PortAllocator \<Rightarrow>
     PortAllocator \<times> sshReply list" where
  "handleGlobalRequests unmarshal marshal reqs a =
     (let (a1, fwds, replies) = serveRequests unmarshal marshal reqs a []
      in (closeForwards fwds a1, replies))"

section \<open>Visitors\<close>

record forwardChanReq =
  fcDestAddr :: string
  fcDestPort :: u32
  fcOriginAddr :: string
  fcOriginPort :: u32

text \<open>The channel \<^verbatim>\<open>forwardConn\<close> opens for a visitor from \<open>remoteAddr\<close> on the listener of a port.\<close>

definition forwardChan :: "string \<Rightarrow> string \<Rightarrow> u16 \<Rightarrow> forwardChanReq" where
  "forwardChan remoteAddr bindAddr bindPort =
     (let (originAddr, originPortStr) =
            (case SplitHostPort remoteAddr of None \<Rightarrow> ('''', '''') | Some hp \<Rightarrow> hp);
          originPort = atoi_val originPortStr
      in \<lparr>fcDestAddr = bindAddr, fcDestPort = ucast bindPort, fcOriginAddr = originAddr,
          fcOriginPort = word_of_int originPort\<rparr>)"

text \<open>
  The two copying loops. \<open>SpliceClose\<close> is the handler returning and closing both ends, which it may do
  once one of the loops has ended.
\<close>

datatype spliceEv = FromVisitor bytes | FromClient bytes | VisitorEnd | ClientEnd | SpliceClose

record splice =
  spToClient :: bytes
  spToVisitor :: bytes
  spVisitorEnd :: bool
  spClientEnd :: bool
  spClosed :: bool

definition newSplice :: splice where
  "newSplice = \<lparr>spToClient = [], spToVisitor = [], spVisitorEnd = False, spClientEnd = False, spClosed = False\<rparr>"

fun spliceStep :: "spliceEv \<Rightarrow> splice \<Rightarrow> splice" where
  "spliceStep (FromVisitor b) s =
     (if spClosed s \<or> spVisitorEnd s then s else s\<lparr>spToClient := spToClient s @ b\<rparr>)"
| "spliceStep (FromClient b) s =
     (if spClosed s \<or> spClientEnd s then s else s\<lparr>spToVisitor := spToVisitor s @ b\<rparr>)"
| "spliceStep VisitorEnd s = s\<lparr>spVisitorEnd := True\<rparr>"
| "spliceStep ClientEnd s = s\<lparr>spClientEnd := True\<rparr>"
| "spliceStep SpliceClose s = (if spVisitorEnd s \<or> spClientEnd s then s\<lparr>spClosed := True\<rparr> else s)"

section \<open>Several connections\<close>

text \<open>
  The handlers of several connections share the allocator and nothing else. A connection is served, or its
  requests have ended and the deferred clean-up is releasing its ports; a port that is allocated and not
  yet listening belongs to the request being served.
\<close>

datatype sshPhase = NotConnected | Serving | Ending

record sshConn =
  scPhase :: sshPhase
  scForwards :: forwards
  scPending :: "(sshRequest \<times> bindReq \<times> u16) option"
  scReplies :: "sshReply list"

record sshWorld =
  swPool :: PortAllocator
  swConns :: "nat \<Rightarrow> sshConn"

definition noConn :: sshConn where
  "noConn = \<lparr>scPhase = NotConnected, scForwards = [], scPending = None, scReplies = []\<rparr>"

definition newSsh :: "u16 \<Rightarrow> u16 \<Rightarrow> sshWorld" where
  "newSsh s e = \<lparr>swPool = NewPortAllocator s e, swConns = (\<lambda>_. noConn)\<rparr>"

definition setConn :: "nat \<Rightarrow> sshConn \<Rightarrow> PortAllocator \<Rightarrow> sshWorld \<Rightarrow> sshWorld" where
  "setConn c k a w = \<lparr>swPool = a, swConns = (swConns w)(c := k)\<rparr>"

definition idle :: "sshConn \<Rightarrow> bool" where
  "idle k \<longleftrightarrow> scPhase k = Serving \<and> scPending k = None"

inductive ssh_step ::
  "string \<Rightarrow> (bytes \<Rightarrow> bindReq option) \<Rightarrow> (u32 \<Rightarrow> bytes) \<Rightarrow> sshWorld \<Rightarrow> sshWorld \<Rightarrow> bool"
  for token unm mar where
  ssh_accept: "scPhase (swConns w c) = NotConnected \<Longrightarrow> admits (sshConfig token) pass \<Longrightarrow>
    ssh_step token unm mar w (setConn c (noConn\<lparr>scPhase := Serving\<rparr>) (swPool w) w)"
| ssh_begin: "idle k \<Longrightarrow> swConns w c = k \<Longrightarrow> srType req = ''tcpip-forward'' \<Longrightarrow>
    beginSshForward unm req (swPool w) = (a, Inr (b, port)) \<Longrightarrow>
    ssh_step token unm mar w (setConn c (k\<lparr>scPending := Some (req, b, port)\<rparr>) a w)"
| ssh_refuse: "idle k \<Longrightarrow> swConns w c = k \<Longrightarrow> srType req = ''tcpip-forward'' \<Longrightarrow>
    beginSshForward unm req (swPool w) = (a, Inl reply) \<Longrightarrow>
    ssh_step token unm mar w (setConn c (k\<lparr>scReplies := scReplies k @ [reply]\<rparr>) a w)"
| ssh_finish: "swConns w c = k \<Longrightarrow> scPending k = Some (req, b, port) \<Longrightarrow>
    finishSshForward mar listens req b port (swPool w) (scForwards k) = (a, fwds, reply) \<Longrightarrow>
    ssh_step token unm mar w
      (setConn c (k\<lparr>scPending := None, scForwards := fwds, scReplies := scReplies k @ [reply]\<rparr>) a w)"
| ssh_other: "idle k \<Longrightarrow> swConns w c = k \<Longrightarrow> srType req \<noteq> ''tcpip-forward'' \<Longrightarrow>
    handleRequest unm mar listens req (swPool w) (scForwards k) = (a, fwds, reply) \<Longrightarrow>
    ssh_step token unm mar w (setConn c (k\<lparr>scForwards := fwds, scReplies := scReplies k @ [reply]\<rparr>) a w)"
| ssh_end: "idle k \<Longrightarrow> swConns w c = k \<Longrightarrow>
    ssh_step token unm mar w (setConn c (k\<lparr>scPhase := Ending\<rparr>) (swPool w) w)"
| ssh_cleanup: "swConns w c = k \<Longrightarrow> scPhase k = Ending \<Longrightarrow> map_of (scForwards k) port = Some ln \<Longrightarrow>
    ssh_step token unm mar w
      (setConn c (k\<lparr>scForwards := AList.delete port (scForwards k)\<rparr>) (Release (swPool w) port) w)"

inductive ssh_reach ::
  "string \<Rightarrow> (bytes \<Rightarrow> bindReq option) \<Rightarrow> (u32 \<Rightarrow> bytes) \<Rightarrow> u16 \<Rightarrow> u16 \<Rightarrow> sshWorld \<Rightarrow> bool"
  for token unm mar s e where
  ssh_init: "ssh_reach token unm mar s e (newSsh s e)"
| ssh_next: "ssh_reach token unm mar s e w \<Longrightarrow> ssh_step token unm mar w w' \<Longrightarrow> ssh_reach token unm mar s e w'"

section \<open>Who holds which port\<close>

datatype slot = Listening u16 | SettingUp

definition sshSlots :: "sshConn \<Rightarrow> slot \<Rightarrow> u16 option" where
  "sshSlots k sl = (case sl of
       Listening p \<Rightarrow> (if map_of (scForwards k) p = None then None else Some p)
     | SettingUp \<Rightarrow> map_option (\<lambda>(req, b, p). p) (scPending k))"

definition ssh_inv :: "u16 \<Rightarrow> u16 \<Rightarrow> sshWorld \<Rightarrow> bool" where
  "ssh_inv s e w \<longleftrightarrow>
     alloc_inv (swPool w) \<and> port_range (swPool w) = {s..e} \<and> held_ports (swPool w) \<subseteq> {s..e} \<and>
     owned id (held_ports (swPool w)) (\<lambda>c. sshSlots (swConns w c)) \<and>
     (\<forall>c. distinct (map fst (scForwards (swConns w c)))) \<and>
     (\<forall>c. scPhase (swConns w c) = NotConnected \<longrightarrow> scForwards (swConns w c) = [] \<and> scPending (swConns w c) = None) \<and>
     (\<forall>c. scPhase (swConns w c) = Ending \<longrightarrow> scPending (swConns w c) = None)"

interpretation alloc_pool: name_pool held_ports "\<lambda>p a. Release a p" alloc_inv
  by unfold_locales (simp_all add: pa.release_held pa.release_inv)

lemma owned_ports_take:
  "owned id N T \<Longrightarrow> p \<notin> N \<Longrightarrow> T c sl = None \<Longrightarrow> owned id (insert p N) (T(c := (T c)(sl \<mapsto> p)))"
  using owned_take [of id N T p c sl] by simp

lemma slots_pending: "sshSlots (k\<lparr>scPending := q\<rparr>) = (sshSlots k)(SettingUp := map_option (\<lambda>(req, b, p). p) q)"
  by (auto simp: sshSlots_def fun_eq_iff split: slot.splits)

lemma slots_delete:
  "distinct (map fst (scForwards k)) \<Longrightarrow>
   sshSlots (k\<lparr>scForwards := AList.delete p (scForwards k)\<rparr>) = (sshSlots k)(Listening p := None)"
  by (auto simp: sshSlots_def fun_eq_iff gomap split: slot.splits)

lemma slots_move:
  "distinct (map fst (scForwards k)) \<Longrightarrow>
   sshSlots (k\<lparr>scPending := None, scForwards := AList.update p ln (scForwards k)\<rparr>)
     = (sshSlots k)(SettingUp := None, Listening p \<mapsto> p)"
  by (auto simp: sshSlots_def fun_eq_iff gomap split: slot.splits)

lemma slots_irrelevant [simp]:
  "sshSlots (k\<lparr>scReplies := r\<rparr>) = sshSlots k" "sshSlots (k\<lparr>scPhase := ph\<rparr>) = sshSlots k"
  by (auto simp: sshSlots_def fun_eq_iff split: slot.splits)

lemma slots_fun: "(\<lambda>d. sshSlots ((f(c := k)) d)) = (\<lambda>d. sshSlots (f d))(c := sshSlots k)"
  by (simp add: fun_eq_iff)

lemma beginSshForward_Inr:
  assumes "beginSshForward unm req a = (a', Inr (b, p))" "alloc_inv a"
  shows "alloc_inv a' \<and> port_range a' = port_range a \<and> p \<in> port_range a \<and> p \<notin> held_ports a \<and>
    held_ports a' = insert p (held_ports a) \<and> unm (srPayload req) = Some b \<and> (reqPort b = 0 \<or> p = reqPort b)"
proof -
  obtain u: "unm (srPayload req) = Some b" and al: "Allocate a (reqPort b) = (a', Inr p)"
    using assms(1) by (auto simp: beginSshForward_def split: option.splits prod.splits sum.splits)
  show ?thesis
    using pa.alloc_ok [OF assms(2) al] pa.alloc_inv [OF assms(2), of "reqPort b"]
      pa.alloc_ports [of a "reqPort b"] al u by simp
qed

lemma beginSshForward_Inl:
  assumes "beginSshForward unm req a = (a', Inl r)" "alloc_inv a"
  shows "alloc_inv a' \<and> port_range a' = port_range a \<and> held_ports a' = held_ports a"
proof (cases "unm (srPayload req)")
  case None
  then show ?thesis using assms by (simp add: beginSshForward_def)
next
  case (Some b)
  then obtain e where al: "Allocate a (reqPort b) = (a', Inl e)"
    using assms(1) by (auto simp: beginSshForward_def split: prod.splits sum.splits)
  show ?thesis
    using pa.alloc_err [OF assms(2) al] pa.alloc_inv [OF assms(2), of "reqPort b"]
      pa.alloc_ports [of a "reqPort b"] al by simp
qed


lemma Listening_slot: "sshSlots k (Listening p) = Some q \<Longrightarrow> q = p"
  by (simp add: sshSlots_def split: if_splits)

lemma owned_ports_move:
  assumes o: "owned id N (\<lambda>c. sshSlots (f c))" and p: "sshSlots (f c) SettingUp = Some p"
  shows "owned id N ((\<lambda>d. sshSlots (f d))(c := (sshSlots (f c))(SettingUp := None, Listening p \<mapsto> p)))"
proof -
  have l: "sshSlots (f c) (Listening p) = None"
  proof (rule ccontr)
    assume "sshSlots (f c) (Listening p) \<noteq> None"
    then have q: "sshSlots (f c) (Listening p) = Some p" using Listening_slot by fastforce
    show False using owned_unique [OF o p q] by simp
  qed
  have "owned id (N - {p}) ((\<lambda>d. sshSlots (f d))(c := (sshSlots (f c))(SettingUp := None)))"
    using owned_give_back [OF o p] by simp
  from owned_ports_take [OF this, of p c "Listening p", unfolded fun_upd_same fun_upd_upd] l
  have "owned id (insert p (N - {p})) ((\<lambda>d. sshSlots (f d))(c := (sshSlots (f c))(SettingUp := None, Listening p \<mapsto> p)))"
    by simp
  moreover have "p \<in> N" using owned_mem [OF o p] by simp
  ultimately show ?thesis by (simp add: insert_absorb)
qed

lemma owned_ports_release:
  assumes "alloc_inv a" "owned id (held_ports a) (\<lambda>c. sshSlots (f c))" "sshSlots (f c) sl = Some p"
  shows "owned id (held_ports (Release a p)) ((\<lambda>d. sshSlots (f d))(c := (sshSlots (f c))(sl := None)))"
  using alloc_pool.owned_free [OF assms] by simp

lemma ssh_inv_init:
  assumes "s \<le> e"
  shows "ssh_inv s e (newSsh s e)"
proof -
  have "alloc_inv (NewPortAllocator s e) \<and> port_range (NewPortAllocator s e) = {s..e}"
    using alloc_reach_inv [OF alloc_new assms] by blast
  moreover have "held_ports (NewPortAllocator s e) = {}"
    by (simp add: held_ports_def is_used_def NewPortAllocator_def)
  moreover have "owned id {} (\<lambda>c. sshSlots noConn)"
    by (rule owned_empty) (simp add: sshSlots_def noConn_def split: slot.splits)
  ultimately show ?thesis by (simp add: ssh_inv_def newSsh_def noConn_def)
qed

text \<open>One connection changes: what has to be shown of its new state and of the allocator.\<close>

lemma ssh_inv_set:
  assumes "ssh_inv s e w" "alloc_inv a" "port_range a = port_range (swPool w)"
    and "held_ports a \<subseteq> {s..e}"
    and "owned id (held_ports a) ((\<lambda>d. sshSlots (swConns w d))(c := sshSlots k))"
    and "distinct (map fst (scForwards k))"
    and "scPhase k = NotConnected \<Longrightarrow> scForwards k = [] \<and> scPending k = None"
    and "scPhase k = Ending \<Longrightarrow> scPending k = None"
  shows "ssh_inv s e (setConn c k a w)"
proof -
  have "(\<lambda>d. sshSlots (swConns (setConn c k a w) d)) = (\<lambda>d. sshSlots (swConns w d))(c := sshSlots k)"
    by (simp add: setConn_def fun_eq_iff)
  with assms show ?thesis unfolding ssh_inv_def by (simp add: setConn_def)
qed

lemma ssh_inv_parts:
  assumes "ssh_inv s e w"
  shows "alloc_inv (swPool w)" "port_range (swPool w) = {s..e}" "held_ports (swPool w) \<subseteq> {s..e}"
    "owned id (held_ports (swPool w)) (\<lambda>c. sshSlots (swConns w c))"
    "distinct (map fst (scForwards (swConns w c)))"
    "scPhase (swConns w c) = NotConnected \<Longrightarrow> scForwards (swConns w c) = [] \<and> scPending (swConns w c) = None"
    "scPhase (swConns w c) = Ending \<Longrightarrow> scPending (swConns w c) = None"
  using assms by (simp_all add: ssh_inv_def)

lemma ssh_inv_quiet:
  assumes "ssh_inv s e w" "sshSlots k = sshSlots (swConns w c)"
    and "scForwards k = scForwards (swConns w c)" "scPending k = None"
    and "scPhase k \<noteq> NotConnected"
  shows "ssh_inv s e (setConn c k (swPool w) w)"
proof (rule ssh_inv_set [OF assms(1)])
  have "(\<lambda>d. sshSlots (swConns w d))(c := sshSlots k) = (\<lambda>d. sshSlots (swConns w d))"
    using assms(2) by (simp add: fun_eq_iff)
  then show "owned id (held_ports (swPool w)) ((\<lambda>d. sshSlots (swConns w d))(c := sshSlots k))"
    using ssh_inv_parts(4) [OF assms(1)] by simp
qed (use assms ssh_inv_parts [OF assms(1)] in simp_all)

lemma cancelForward_cases:
  assumes "cancelForward unm req a fwds = (a', fwds', reply)"
  shows "a' = a \<and> fwds' = fwds \<or>
    (\<exists>p ln. map_of fwds p = Some ln \<and> a' = Release a p \<and> fwds' = AList.delete p fwds)"
  using assms by (auto simp: cancelForward_def Let_def split: option.splits)

lemma ssh_inv_release:
  assumes i: "ssh_inv s e w" and p: "map_of (scForwards (swConns w c)) p = Some ln"
    and k: "sshSlots k = (sshSlots (swConns w c))(Listening p := None)"
      "scForwards k = AList.delete p (scForwards (swConns w c))" "scPending k = None" "scPhase k \<noteq> NotConnected"
  shows "ssh_inv s e (setConn c k (Release (swPool w) p) w)"
proof (rule ssh_inv_set [OF i])
  note parts = ssh_inv_parts [OF i]
  have "sshSlots (swConns w c) (Listening p) = Some p" using p by (simp add: sshSlots_def)
  from owned_ports_release [OF parts(1,4) this]
  show "owned id (held_ports (Release (swPool w) p)) ((\<lambda>d. sshSlots (swConns w d))(c := sshSlots k))"
    by (simp add: k)
  show "held_ports (Release (swPool w) p) \<subseteq> {s..e}"
    using parts by (auto simp: pa.release_held)
qed (use ssh_inv_parts [OF i] k in \<open>simp_all add: pa.release_inv pa.release_ports gomap\<close>)


lemma ssh_inv_finish:
  assumes i: "ssh_inv s e w" and q: "scPending (swConns w c) = Some (req, b, p)"
    and fin: "finishSshForward mar listens req b p (swPool w) (scForwards (swConns w c)) = (a, fwds, reply)"
  shows "ssh_inv s e (setConn c ((swConns w c)\<lparr>scPending := None, scForwards := fwds, scReplies := r\<rparr>) a w)"
proof (rule ssh_inv_set [OF i])
  note parts = ssh_inv_parts [OF i]
  let ?k = "(swConns w c)\<lparr>scPending := None, scForwards := fwds\<rparr>"
  have slot: "sshSlots (swConns w c) SettingUp = Some p" using q by (simp add: sshSlots_def)
  have a: "a = (if listens then swPool w else Release (swPool w) p)"
    and fwds: "fwds = (if listens then AList.update p (brAddr b) (scForwards (swConns w c)) else scForwards (swConns w c))"
    using fin by (auto simp: finishSshForward_def split: if_splits)
  have "owned id (held_ports a) ((\<lambda>d. sshSlots (swConns w d))(c := sshSlots ?k))"
  proof (cases listens)
    case True
    have "sshSlots ?k = (sshSlots (swConns w c))(SettingUp := None, Listening p \<mapsto> p)"
      using True slots_move [OF parts(5)] by (simp add: fwds)
    then show ?thesis using owned_ports_move [OF parts(4) slot] True by (simp add: a)
  next
    case False
    have "sshSlots ?k = (sshSlots (swConns w c))(SettingUp := None)"
      using False by (auto simp: fwds sshSlots_def fun_eq_iff split: slot.splits)
    then show ?thesis using owned_ports_release [OF parts(1,4) slot] False by (simp add: a)
  qed
  moreover have "sshSlots ((swConns w c)\<lparr>scPending := None, scForwards := fwds, scReplies := r\<rparr>) = sshSlots ?k"
    by (auto simp: sshSlots_def fun_eq_iff split: slot.splits)
  ultimately show "owned id (held_ports a) ((\<lambda>d. sshSlots (swConns w d))(c :=
      sshSlots ((swConns w c)\<lparr>scPending := None, scForwards := fwds, scReplies := r\<rparr>)))" by simp
  show "distinct (map fst (scForwards ((swConns w c)\<lparr>scPending := None, scForwards := fwds, scReplies := r\<rparr>)))"
    using parts(5) by (simp add: fwds gomap)
  show "scForwards ((swConns w c)\<lparr>scPending := None, scForwards := fwds, scReplies := r\<rparr>) = [] \<and>
      scPending ((swConns w c)\<lparr>scPending := None, scForwards := fwds, scReplies := r\<rparr>) = None"
    if "scPhase ((swConns w c)\<lparr>scPending := None, scForwards := fwds, scReplies := r\<rparr>) = NotConnected"
    using that parts(6) [of c] q by simp
qed (use ssh_inv_parts [OF i] fin in \<open>auto simp: finishSshForward_def pa.release_inv pa.release_ports pa.release_held split: if_splits\<close>)

lemma ssh_inv_begin:
  assumes i: "ssh_inv s e w" and k: "idle (swConns w c)"
    and b: "beginSshForward unm req (swPool w) = (a, Inr (b, p))"
  shows "ssh_inv s e (setConn c ((swConns w c)\<lparr>scPending := Some (req, b, p)\<rparr>) a w)"
proof (rule ssh_inv_set [OF i])
  note parts = ssh_inv_parts [OF i] and beg = beginSshForward_Inr [OF b ssh_inv_parts(1) [OF i]]
  have "sshSlots (swConns w c) SettingUp = None" using k by (simp add: idle_def sshSlots_def)
  then show "owned id (held_ports a) ((\<lambda>d. sshSlots (swConns w d))(c :=
      sshSlots ((swConns w c)\<lparr>scPending := Some (req, b, p)\<rparr>)))"
    using owned_ports_take [OF parts(4)] beg by (simp add: slots_pending)
  show "held_ports a \<subseteq> {s..e}" using beg parts(2,3) by auto
qed (use k ssh_inv_parts [OF i] beginSshForward_Inr [OF b ssh_inv_parts(1) [OF i]] in \<open>auto simp: idle_def\<close>)

lemma ssh_inv_refuse:
  assumes i: "ssh_inv s e w" and k: "idle (swConns w c)"
    and b: "beginSshForward unm req (swPool w) = (a, Inl reply)"
  shows "ssh_inv s e (setConn c ((swConns w c)\<lparr>scReplies := r\<rparr>) a w)"
proof -
  have a: "alloc_inv a \<and> port_range a = port_range (swPool w) \<and> held_ports a = held_ports (swPool w)"
    by (rule beginSshForward_Inl [OF b ssh_inv_parts(1) [OF i]])
  have q: "ssh_inv s e (setConn c ((swConns w c)\<lparr>scReplies := r\<rparr>) (swPool w) w)"
    by (rule ssh_inv_quiet [OF i]) (use k in \<open>auto simp: idle_def\<close>)
  show ?thesis using q a unfolding ssh_inv_def by (simp add: setConn_def)
qed

lemma ssh_inv_step: "ssh_step token unm mar w w' \<Longrightarrow> ssh_inv s e w \<Longrightarrow> ssh_inv s e w'"
proof (induction rule: ssh_step.induct)
  case (ssh_accept w c pass)
  have none: "sshSlots k = Map.empty" if "scForwards k = []" "scPending k = None" for k
    using that by (auto simp: sshSlots_def fun_eq_iff split: slot.splits)
  show ?case
    by (rule ssh_inv_quiet [OF ssh_accept(3)])
      (use ssh_inv_parts(6) [OF ssh_accept(3,1)] in \<open>simp_all add: none noConn_def\<close>)
next
  case (ssh_begin k w c req a b port)
  then show ?case using ssh_inv_begin by blast
next
  case (ssh_refuse k w c req a reply)
  then show ?case using ssh_inv_refuse by blast
next
  case (ssh_finish w c k req b port listens a fwds reply)
  then show ?case using ssh_inv_finish by blast
next
  case (ssh_other k w c req listens a fwds reply)
  have k: "idle (swConns w c)" using ssh_other by simp
  have "a = swPool w \<and> fwds = scForwards k \<or>
      (\<exists>p ln. map_of (scForwards k) p = Some ln \<and> a = Release (swPool w) p \<and> fwds = AList.delete p (scForwards k))"
    using ssh_other(3,4) cancelForward_cases by (fastforce simp: handleRequest_def split: if_splits)
  then show ?case
  proof (elim disjE exE conjE)
    assume "a = swPool w" "fwds = scForwards k"
    then show ?case
      using ssh_inv_quiet [OF ssh_other(5), of "k\<lparr>scForwards := fwds, scReplies := scReplies k @ [reply]\<rparr>" c] k ssh_other(2)
      by (auto simp: idle_def sshSlots_def fun_eq_iff split: slot.splits)
  next
    fix p ln assume p: "map_of (scForwards k) p = Some ln" "a = Release (swPool w) p" "fwds = AList.delete p (scForwards k)"
    have "sshSlots (k\<lparr>scForwards := fwds, scReplies := scReplies k @ [reply]\<rparr>) = (sshSlots k)(Listening p := None)"
      using slots_delete [OF ssh_inv_parts(5) [OF ssh_other(5), of c], of p] p(3) ssh_other(2)
      by (auto simp: sshSlots_def fun_eq_iff split: slot.splits)
    then show ?case
      using ssh_inv_release [OF ssh_other(5), of c p ln "k\<lparr>scForwards := fwds, scReplies := scReplies k @ [reply]\<rparr>"] p k ssh_other(2)
      by (auto simp: idle_def)
  qed
next
  case (ssh_end k w c)
  then show ?case using ssh_inv_quiet [of s e w "k\<lparr>scPhase := Ending\<rparr>" c] by (auto simp: idle_def)
next
  case (ssh_cleanup w c k port ln)
  note i = ssh_cleanup(4)
  have "sshSlots (k\<lparr>scForwards := AList.delete port (scForwards k)\<rparr>) = (sshSlots k)(Listening port := None)"
    using slots_delete [OF ssh_inv_parts(5) [OF i, of c]] ssh_cleanup(1) by simp
  then show ?case
    using ssh_inv_release [OF i, of c port ln "k\<lparr>scForwards := AList.delete port (scForwards k)\<rparr>"] ssh_cleanup
      ssh_inv_parts(7) [OF i, of c] by auto
qed


lemma ssh_reach_inv: "ssh_reach token unm mar s e w \<Longrightarrow> s \<le> e \<Longrightarrow> ssh_inv s e w"
  by (induction rule: ssh_reach.induct) (auto simp: ssh_inv_init intro: ssh_inv_step)

section \<open>One connection from start to end\<close>

definition fwd_ok :: "PortAllocator \<Rightarrow> forwards \<Rightarrow> u16 set \<Rightarrow> bool" where
  "fwd_ok a fwds others \<longleftrightarrow> alloc_inv a \<and> distinct (map fst fwds) \<and>
     held_ports a = others \<union> fst ` set fwds \<and> others \<inter> fst ` set fwds = {}"

lemma fwd_ok_release:
  assumes "fwd_ok a fwds others" "map_of fwds p = Some ln"
  shows "fwd_ok (Release a p) (AList.delete p fwds) others"
proof -
  have "fst ` set (AList.delete p fwds) = fst ` set fwds - {p}"
    by (auto simp: AList.delete_eq)
  moreover have "p \<in> fst ` set fwds" using map_of_SomeD [OF assms(2)] by force
  ultimately show ?thesis
    using assms(1) by (auto simp: fwd_ok_def pa.release_inv pa.release_held gomap)
qed

lemma fwd_ok_handle:
  assumes ok: "fwd_ok a fwds others" and h: "handleRequest unm mar listens req a fwds = (a', fwds', reply)"
  shows "fwd_ok a' fwds' others"
proof -
  consider (other) "a' = a" "fwds' = fwds"
    | (cancel) p ln where "map_of fwds p = Some ln" "a' = Release a p" "fwds' = AList.delete p fwds"
    | (start) "startSshForward unm mar listens req a fwds = (a', fwds', reply)"
  proof (cases "srType req = ''tcpip-forward''")
    case True
    then show ?thesis using h that(3) by (simp add: handleRequest_def)
  next
    case no: False
    show ?thesis
    proof (cases "srType req = ''cancel-tcpip-forward''")
      case True
      then have "cancelForward unm req a fwds = (a', fwds', reply)" using h by (simp add: handleRequest_def)
      from cancelForward_cases [OF this] show ?thesis using that(1,2) by blast
    next
      case False
      then show ?thesis using h no that(1) by (simp add: handleRequest_def)
    qed
  qed
  then show ?thesis
  proof cases
    case other
    then show ?thesis using ok by simp
  next
    case cancel
    then show ?thesis using fwd_ok_release [OF ok] by simp
  next
    case start
    have inv: "alloc_inv a" using ok by (simp add: fwd_ok_def)
    show ?thesis
    proof (cases "beginSshForward unm req a")
      case (Pair a1 res)
      show ?thesis
      proof (cases res)
        case (Inl r)
        then show ?thesis using ok start Pair beginSshForward_Inl [of unm req a a1 r] inv
          by (simp add: startSshForward_def fwd_ok_def)
      next
        case (Inr bp)
        obtain b p where bp: "bp = (b, p)" by fastforce
        note beg = beginSshForward_Inr [OF Pair [unfolded Inr bp] inv]
        have fresh: "p \<notin> fst ` set fwds" using beg ok by (auto simp: fwd_ok_def)
        then have keys: "fst ` set (AList.update p (brAddr b) fwds) = insert p (fst ` set fwds)"
          by (simp add: update_fresh_append)
        have "a' = (if listens then a1 else Release a1 p)"
          "fwds' = (if listens then AList.update p (brAddr b) fwds else fwds)"
          using start Pair Inr bp by (auto simp: startSshForward_def finishSshForward_def split: if_splits)
        moreover have "p \<notin> others" using beg ok by (auto simp: fwd_ok_def)
        ultimately show ?thesis using ok beg keys fresh
          by (cases listens) (simp_all add: fwd_ok_def pa.release_inv pa.release_held gomap)
      qed
    qed
  qed
qed

lemma fwd_ok_serve:
  "serveRequests unm mar reqs a fwds = (a', fwds', replies) \<Longrightarrow> fwd_ok a fwds others \<Longrightarrow>
   fwd_ok a' fwds' others \<and> length replies = length reqs"
proof (induction unm mar reqs a fwds arbitrary: a' fwds' replies rule: serveRequests.induct)
  case (2 unm mar req listens reqs a fwds)
  obtain a1 fwds1 r where h: "handleRequest unm mar listens req a fwds = (a1, fwds1, r)" by (metis prod_cases3)
  obtain a2 fwds2 rs where s: "serveRequests unm mar reqs a1 fwds1 = (a2, fwds2, rs)" by (metis prod_cases3)
  have "fwd_ok a1 fwds1 others" by (rule fwd_ok_handle [OF 2(3) h])
  from 2(1) [OF h [symmetric] refl refl s this] 2(2) show ?case by (auto simp: h s)
qed simp

lemma closeForwards_held:
  "alloc_inv a \<Longrightarrow> alloc_inv (closeForwards fwds a) \<and>
     held_ports (closeForwards fwds a) = held_ports a - fst ` set fwds"
  by (induction fwds a rule: closeForwards.induct) (auto simp: pa.release_inv pa.release_held)

lemma session_gives_back:
  assumes "alloc_inv a" "handleGlobalRequests unm mar reqs a = (a', replies)"
  shows "held_ports a' = held_ports a \<and> alloc_inv a' \<and> length replies = length reqs"
proof -
  obtain a1 fwds where s: "serveRequests unm mar reqs a [] = (a1, fwds, replies)" and a': "a' = closeForwards fwds a1"
    using assms(2) by (auto simp: handleGlobalRequests_def split: prod.splits)
  have "fwd_ok a [] (held_ports a)" using assms(1) by (simp add: fwd_ok_def)
  from fwd_ok_serve [OF s this] have "fwd_ok a1 fwds (held_ports a)" "length replies = length reqs" by simp_all
  then show ?thesis using closeForwards_held [of a1 fwds] by (auto simp: a' fwd_ok_def)
qed

section \<open>The requested port\<close>

text \<open>
  The 32-bit port of a request is cut to 16 bits: a request for port 65536 is served as one for any
  port, and one for 65536 more than a port as one for that port.
\<close>

lemma port_is_truncated: "unat (reqPort b) = unat (brPort b) mod 65536"
  by (simp add: reqPort_def unsigned_ucast_eq take_bit_eq_mod)

lemma port_65536_is_any: "reqPort (b\<lparr>brPort := 65536\<rparr>) = 0"
  by (simp add: reqPort_def)

section \<open>What a visitor is told\<close>

lemma forwardChan_origin:
  assumes "SplitHostPort remote = Some (host, dec p)" "p < 65536"
  shows "forwardChan remote addr port = \<lparr>fcDestAddr = addr, fcDestPort = ucast port,
    fcOriginAddr = host, fcOriginPort = of_nat p\<rparr>"
proof -
  have "p < 2 ^ 63" using assms(2) by simp
  then show ?thesis using assms by (simp add: forwardChan_def atoi_val_dec)
qed

text \<open>The bytes of a direction arrive in order, cut off where the handler returns.\<close>

lemma splice_after_close: "spClosed s \<Longrightarrow> spToVisitor (fold spliceStep evs s) = spToVisitor s"
proof (induction evs arbitrary: s)
  case (Cons ev evs)
  have "spClosed (spliceStep ev s) \<and> spToVisitor (spliceStep ev s) = spToVisitor s"
    using Cons.prems by (cases ev) auto
  then show ?case using Cons.IH by simp
qed simp

fun fromClient :: "spliceEv list \<Rightarrow> bytes" where
  "fromClient [] = []"
| "fromClient (FromClient b # evs) = b @ fromClient evs"
| "fromClient (ev # evs) = fromClient evs"

lemma splice_prefix:
  "\<exists>rest. spToVisitor s @ fromClient evs = spToVisitor (fold spliceStep evs s) @ rest"
proof (induction evs arbitrary: s)
  case (Cons ev evs)
  show ?case
  proof (cases "spClosed s \<or> spClientEnd s")
    case True
    have "spClosed (spliceStep ev s) \<or> spClientEnd (spliceStep ev s)" "spToVisitor (spliceStep ev s) = spToVisitor s"
      using True by (cases ev; auto)+
    moreover have "spToVisitor (fold spliceStep evs s') = spToVisitor s'" if "spClosed s' \<or> spClientEnd s'" for s'
      using that
    proof (induction evs arbitrary: s')
      case (Cons ev evs)
      have "(spClosed (spliceStep ev s') \<or> spClientEnd (spliceStep ev s')) \<and> spToVisitor (spliceStep ev s') = spToVisitor s'"
        using Cons.prems by (cases ev) auto
      then show ?case using Cons.IH by simp
    qed simp
    ultimately show ?thesis by simp
  next
    case False
    then show ?thesis using Cons [of "spliceStep ev s"] by (cases ev) auto
  qed
qed simp

text \<open>A visitor that ends its sending side first may lose the answer: the handler returns at the first end.\<close>

lemma half_close_loses_answer:
  "spToVisitor (fold spliceStep [FromVisitor q, VisitorEnd, SpliceClose, FromClient r] newSplice) = []"
  by (simp add: newSplice_def)

definition sshPorts :: "sshConn \<Rightarrow> u16 set" where
  "sshPorts k = fst ` set (scForwards k) \<union> (case scPending k of None \<Rightarrow> {} | Some (req, b, p) \<Rightarrow> {p})"

lemma sshPorts_slots: "p \<in> sshPorts k \<longleftrightarrow> (\<exists>sl. sshSlots k sl = Some p)"
proof
  assume p: "p \<in> sshPorts k"
  then consider "p \<in> fst ` set (scForwards k)" | req b where "scPending k = Some (req, b, p)"
    by (auto simp: sshPorts_def split: option.splits)
  then show "\<exists>sl. sshSlots k sl = Some p"
  proof cases
    case 1
    then have "sshSlots k (Listening p) = Some p" by (auto simp: sshSlots_def map_of_eq_None_iff)
    then show ?thesis by blast
  next
    case 2
    then have "sshSlots k SettingUp = Some p" by (simp add: sshSlots_def)
    then show ?thesis by blast
  qed
next
  assume "\<exists>sl. sshSlots k sl = Some p"
  then obtain sl where sl: "sshSlots k sl = Some p" by blast
  then show "p \<in> sshPorts k"
    by (cases sl) (auto simp: sshSlots_def sshPorts_def map_of_eq_None_iff split: if_splits)
qed


text \<open>Whether a request can be given a port while the connections of \<open>w\<close> hold theirs.\<close>

definition grantable :: "u16 \<Rightarrow> u16 \<Rightarrow> sshWorld \<Rightarrow> u16 \<Rightarrow> bool" where
  "grantable s e w pref \<longleftrightarrow>
     (if pref = 0 then \<exists>p\<in>{s..e}. \<forall>c. p \<notin> sshPorts (swConns w c)
      else pref \<in> {s..e} \<and> (\<forall>c. pref \<notin> sshPorts (swConns w c)))"

lemma begin_outcome:
  assumes "ssh_inv s e w"
  shows "case beginSshForward unm req (swPool w) of (a, r) \<Rightarrow>
    (case unm (srPayload req) of
       None \<Rightarrow> r = Inl (Some (False, [])) \<and> a = swPool w
     | Some b \<Rightarrow>
         if grantable s e w (reqPort b)
         then \<exists>port. r = Inr (b, port) \<and> (reqPort b \<noteq> 0 \<longrightarrow> port = reqPort b) \<and> port \<in> {s..e} \<and>
           (\<forall>c. port \<notin> sshPorts (swConns w c)) \<and> held_ports a = insert port (held_ports (swPool w))
         else r = Inl (Some (False, [])) \<and> held_ports a = held_ports (swPool w))"
proof (cases "unm (srPayload req)")
  case (Some b)
  note parts = ssh_inv_parts [OF assms]
  have held: "p \<in> held_ports (swPool w) \<longleftrightarrow> (\<exists>c. p \<in> sshPorts (swConns w c))" for p
    using parts(4) by (auto simp: owned_def sshPorts_slots)
  obtain a r where al: "Allocate (swPool w) (reqPort b) = (a, r)" by fastforce
  have g: "grantable s e w (reqPort b) \<longleftrightarrow> (\<exists>port. r = Inr port)"
    using pa.alloc_granted [OF parts(1), of "reqPort b"] al parts(2) held by (auto simp: grantable_def subset_iff)
  show ?thesis
  proof (cases r)
    case (Inl err)
    then show ?thesis using Some al g pa.alloc_err [OF parts(1)] by (simp add: beginSshForward_def)
  next
    case (Inr port)
    then show ?thesis using Some al g pa.alloc_ok [OF parts(1), of "reqPort b" a port] parts(2) held
      by (auto simp: beginSshForward_def)
  qed
qed (simp add: beginSshForward_def)




end
