(* ===== verification/Startup.thy ===== *)
theory Startup
  imports Admin Proxy Ssh "HOL-Library.Multiset"
begin

text \<open>
  Starting the server, \<^verbatim>\<open>main\<close> of \<^verbatim>\<open>cmd/server/main.go\<close>: the parts it builds from the flags, the listeners
  it opens, the reasons it refuses to start, and what it closes before a self-update replaces the process.
  Whether an address can be bound and whether the SSH host key can be loaded are arguments; a fatal error
  ends the process.
\<close>

record serverFlags =
  fgToken :: string
  fgEnvToken :: string
  fgDomain :: string
  fgTcpPorts :: string
  fgBasicAuth :: string
  fgAllowIPs :: string
  fgTrustHops :: int
  fgAdmin :: string
  fgTlsPass :: string
  fgSsh :: string
  fgSshPorts :: string

datatype listener = PublicHTTP | TunnelWS | AdminAPI | TLSPass | SSHTunnels

datatype fatal =
    BadProtection protectErr
  | BadTcpPorts flagErr
  | CannotListen listener
  | NoSshPorts
  | BadSshPorts flagErr
  | NoHostKey

record started =
  sdConfig :: serverCfg
  sdServer :: Server
  sdProxy :: ReverseProxy
  sdAdmin :: "AdminServer option"
  sdSsh :: "(sshAuth \<times> sshWorld) option"
  sdOpen :: "listener list"
  sdClosers :: "listener list"

text \<open>One optional listener: opened when its flag is set, and then closed before a restart.\<close>

definition listen :: "(listener \<Rightarrow> bool) \<Rightarrow> listener \<Rightarrow> started \<Rightarrow> fatal + started" where
  "listen binds l st =
     (if binds l then Inr (st\<lparr>sdOpen := sdOpen st @ [l], sdClosers := sdClosers st @ [l]\<rparr>) else Inl (CannotListen l))"

definition startAdmin :: "(listener \<Rightarrow> bool) \<Rightarrow> string \<Rightarrow> int \<Rightarrow> serverFlags \<Rightarrow> started \<Rightarrow> fatal + started" where
  "startAdmin binds ver now fl st =
     (if fgAdmin fl \<noteq> ''''
      then listen binds AdminAPI (st\<lparr>sdAdmin := Some \<lparr>asToken = scToken (sdConfig st), asVersion = ver, asStarted = now\<rparr>\<rparr>)
      else Inr st)"

definition startTLS :: "(listener \<Rightarrow> bool) \<Rightarrow> serverFlags \<Rightarrow> started \<Rightarrow> fatal + started" where
  "startTLS binds fl st = (if fgTlsPass fl \<noteq> '''' then listen binds TLSPass st else Inr st)"

definition startSsh :: "(listener \<Rightarrow> bool) \<Rightarrow> bool \<Rightarrow> serverFlags \<Rightarrow> started \<Rightarrow> fatal + started" where
  "startSsh binds hostKey fl st =
     (if fgSsh fl \<noteq> '''' then
        if fgSshPorts fl = '''' then Inl NoSshPorts
        else case parsePortRange (fgSshPorts fl) of
          Inl e \<Rightarrow> Inl (BadSshPorts e)
        | Inr (s, e) \<Rightarrow>
            if \<not> hostKey then Inl NoHostKey
            else listen binds SSHTunnels (st\<lparr>sdSsh := Some (sshConfig (scToken (sdConfig st)), newSsh s e)\<rparr>)
      else Inr st)"

text \<open>The two servers every run has; they are closed first.\<close>

definition serveHTTP :: "(listener \<Rightarrow> bool) \<Rightarrow> started \<Rightarrow> fatal + started" where
  "serveHTTP binds st =
     (if \<not> binds PublicHTTP then Inl (CannotListen PublicHTTP)
      else if \<not> binds TunnelWS then Inl (CannotListen TunnelWS)
      else Inr (st\<lparr>sdOpen := sdOpen st @ [PublicHTTP, TunnelWS]\<rparr>))"

definition beforeRestart :: "started \<Rightarrow> listener list" where
  "beforeRestart st = [PublicHTTP, TunnelWS] @ sdClosers st"

definition buildServer ::
  "(bytes \<Rightarrow> bytes) \<Rightarrow> (string \<Rightarrow> string) \<Rightarrow> serverFlags \<Rightarrow> fatal + started" where
  "buildServer sha quote fl =
     (let token = effective_token (fgToken fl) (fgEnvToken fl) in
      case NewProtector sha (fgBasicAuth fl) (fgAllowIPs fl) (fgTrustHops fl) of
        Inl e \<Rightarrow> Inl (BadProtection e)
      | Inr protect \<Rightarrow>
          (case newServer (fgTcpPorts fl) (fgTlsPass fl) of
             Inl e \<Rightarrow> Inl (BadTcpPorts e)
           | Inr server \<Rightarrow> Inr
               \<lparr>sdConfig = \<lparr>scDomain = fgDomain fl, scToken = token\<rparr>, sdServer = server,
                sdProxy = \<lparr>rpBaseDomain = fgDomain fl, rpProtect = protect, rpSha = sha, rpQuote = quote\<rparr>,
                sdAdmin = None, sdSsh = None, sdOpen = [], sdClosers = []\<rparr>))"

definition startServer ::
  "(bytes \<Rightarrow> bytes) \<Rightarrow> (string \<Rightarrow> string) \<Rightarrow> (listener \<Rightarrow> bool) \<Rightarrow> bool \<Rightarrow> string \<Rightarrow> int \<Rightarrow> serverFlags \<Rightarrow> fatal + started" where
  "startServer sha quote binds hostKey ver now fl =
     and_then (buildServer sha quote fl) (\<lambda>st0.
     and_then (startAdmin binds ver now fl st0) (\<lambda>st1.
     and_then (startTLS binds fl st1) (\<lambda>st2.
     and_then (startSsh binds hostKey fl st2) (\<lambda>st3.
     serveHTTP binds st3))))"

section \<open>What a started server is\<close>

text \<open>The listeners the flags ask for.\<close>

definition wanted :: "serverFlags \<Rightarrow> listener set" where
  "wanted fl = {PublicHTTP, TunnelWS} \<union> (if fgAdmin fl \<noteq> '''' then {AdminAPI} else {}) \<union>
     (if fgTlsPass fl \<noteq> '''' then {TLSPass} else {}) \<union> (if fgSsh fl \<noteq> '''' then {SSHTunnels} else {})"

definition parts_ok :: "(bytes \<Rightarrow> bytes) \<Rightarrow> serverFlags \<Rightarrow> bool" where
  "parts_ok sha fl \<longleftrightarrow>
     (\<exists>p. NewProtector sha (fgBasicAuth fl) (fgAllowIPs fl) (fgTrustHops fl) = Inr p) \<and>
     (fgTcpPorts fl = '''' \<or> (\<exists>r. parsePortRange (fgTcpPorts fl) = Inr r))"

definition flags_ok :: "(bytes \<Rightarrow> bytes) \<Rightarrow> bool \<Rightarrow> serverFlags \<Rightarrow> bool" where
  "flags_ok sha hostKey fl \<longleftrightarrow> parts_ok sha fl \<and>
     (fgSsh fl = '''' \<or> fgSshPorts fl \<noteq> '''' \<and> (\<exists>r. parsePortRange (fgSshPorts fl) = Inr r) \<and> hostKey)"

lemma newServer_ok: "(\<exists>s. newServer tcp tls = Inr s) \<longleftrightarrow> tcp = '''' \<or> (\<exists>r. parsePortRange tcp = Inr r)"
  by (cases "parsePortRange tcp") (auto simp: newServer_def Let_def split: prod.splits)

lemma buildServer_ok:
  "(\<exists>st. buildServer sha quote fl = Inr st) \<longleftrightarrow> parts_ok sha fl"
  unfolding parts_ok_def newServer_ok [of "fgTcpPorts fl" "fgTlsPass fl", symmetric]
  by (auto simp: buildServer_def Let_def split: sum.splits)

lemma startServer_ok:
  "(\<exists>st. startServer sha quote binds hostKey ver now fl = Inr st) \<longleftrightarrow>
   flags_ok sha hostKey fl \<and> (\<forall>l\<in>wanted fl. binds l)"
  (is "?l \<longleftrightarrow> ?r")
proof (cases "buildServer sha quote fl")
  case (Inl e)
  then have "\<not> ?l" by (simp add: startServer_def)
  moreover have "\<not> ?r" using Inl buildServer_ok [of sha quote fl] by (auto simp: flags_ok_def)
  ultimately show ?thesis by simp
next
  case (Inr st0)
  then have b: "parts_ok sha fl"
    using buildServer_ok [of sha quote fl] by blast
  show ?thesis
    by (auto simp: startServer_def Inr and_then_eq_Inr startAdmin_def startTLS_def startSsh_def serveHTTP_def listen_def
        flags_ok_def wanted_def b split: sum.splits)
qed


lemma startServer_parts:
  assumes "startServer sha quote binds hostKey ver now fl = Inr st"
  obtains st0 st1 st2 st3 where "buildServer sha quote fl = Inr st0" "startAdmin binds ver now fl st0 = Inr st1"
    "startTLS binds fl st1 = Inr st2" "startSsh binds hostKey fl st2 = Inr st3" "serveHTTP binds st3 = Inr st"
  using assms by (auto simp: startServer_def and_then_eq_Inr)

lemma startAdmin_frame:
  assumes "startAdmin binds ver now fl st = Inr st'"
  shows "sdConfig st' = sdConfig st" "sdServer st' = sdServer st" "sdSsh st' = sdSsh st"
    "sdAdmin st' = (if fgAdmin fl \<noteq> '''' then Some \<lparr>asToken = scToken (sdConfig st), asVersion = ver, asStarted = now\<rparr> else sdAdmin st)"
    "sdOpen st' = sdOpen st @ (if fgAdmin fl \<noteq> '''' then [AdminAPI] else [])"
    "sdClosers st' = sdClosers st @ (if fgAdmin fl \<noteq> '''' then [AdminAPI] else [])"
  using assms by (auto simp: startAdmin_def listen_def split: if_splits)

lemma startTLS_frame:
  assumes "startTLS binds fl st = Inr st'"
  shows "sdConfig st' = sdConfig st" "sdServer st' = sdServer st" "sdSsh st' = sdSsh st" "sdAdmin st' = sdAdmin st"
    "sdOpen st' = sdOpen st @ (if fgTlsPass fl \<noteq> '''' then [TLSPass] else [])"
    "sdClosers st' = sdClosers st @ (if fgTlsPass fl \<noteq> '''' then [TLSPass] else [])"
  using assms by (auto simp: startTLS_def listen_def split: if_splits)

lemma startSsh_frame:
  assumes "startSsh binds hostKey fl st = Inr st'"
  shows "sdConfig st' = sdConfig st" "sdServer st' = sdServer st" "sdAdmin st' = sdAdmin st"
    "fgSsh fl = '''' \<Longrightarrow> sdSsh st' = sdSsh st"
    "fgSsh fl \<noteq> '''' \<Longrightarrow> \<exists>s e. parsePortRange (fgSshPorts fl) = Inr (s, e) \<and>
       sdSsh st' = Some (sshConfig (scToken (sdConfig st)), newSsh s e)"
    "sdOpen st' = sdOpen st @ (if fgSsh fl \<noteq> '''' then [SSHTunnels] else [])"
    "sdClosers st' = sdClosers st @ (if fgSsh fl \<noteq> '''' then [SSHTunnels] else [])"
  using assms by (auto simp: startSsh_def listen_def split: if_splits sum.splits)

lemma buildServer_frame:
  assumes "buildServer sha quote fl = Inr st"
  shows "newServer (fgTcpPorts fl) (fgTlsPass fl) = Inr (sdServer st)"
    "sdConfig st = \<lparr>scDomain = fgDomain fl, scToken = effective_token (fgToken fl) (fgEnvToken fl)\<rparr>"
    "sdAdmin st = None" "sdSsh st = None" "sdOpen st = []" "sdClosers st = []"
  using assms by (auto simp: buildServer_def Let_def split: sum.splits)

lemma newServer_no_clients: "newServer tcp tls = Inr s \<Longrightarrow> svClients s = Map.empty"
  by (auto simp: newServer_def Let_def split: if_splits sum.splits prod.splits)

section \<open>Restarting after an update\<close>

text \<open>
  \<^verbatim>\<open>relaunch\<close> runs on the goroutine of the updater: it closes the listeners one by one, starts the new
  process and exits. Meanwhile the main goroutine sits in \<^verbatim>\<open>tunnelSrv.ListenAndServe\<close>, which returns once that
  server is closed, and \<^verbatim>\<open>main\<close> returning ends the process. \<open>restartStep True\<close> is a step of the updater.
\<close>

datatype relaunchAct = CloseListener listener | StartChild | ExitProcess

record process =
  prOpen :: "listener list"
  prTodo :: "relaunchAct list"
  prChild :: "listener list option"
  prAlive :: bool

definition relaunch :: "started \<Rightarrow> process" where
  "relaunch st = \<lparr>prOpen = sdOpen st, prTodo = map CloseListener (beforeRestart st) @ [StartChild, ExitProcess],
     prChild = None, prAlive = True\<rparr>"

fun restartStep :: "bool \<Rightarrow> process \<Rightarrow> process" where
  "restartStep upd p =
     (if \<not> prAlive p then p
      else if upd then
        (case prTodo p of
           [] \<Rightarrow> p
         | CloseListener l # todo \<Rightarrow> p\<lparr>prOpen := removeAll l (prOpen p), prTodo := todo\<rparr>
         | StartChild # todo \<Rightarrow> p\<lparr>prChild := Some (prOpen p), prTodo := todo\<rparr>
         | ExitProcess # todo \<Rightarrow> p\<lparr>prAlive := False, prTodo := todo\<rparr>)
      else if TunnelWS \<in> set (prOpen p) then p
      else p\<lparr>prAlive := False\<rparr>)"

declare restartStep.simps [simp del]

text \<open>Undisturbed, the updater starts the new process with every listener closed.\<close>

lemma close_all:
  "prAlive p \<Longrightarrow> prTodo p = map CloseListener ls @ rest \<Longrightarrow>
   (restartStep True ^^ length ls) p = p\<lparr>prOpen := filter (\<lambda>l. l \<notin> set ls) (prOpen p), prTodo := rest\<rparr>"
proof (induction ls arbitrary: p)
  case (Cons l ls)
  have s: "restartStep True p = p\<lparr>prOpen := removeAll l (prOpen p), prTodo := map CloseListener ls @ rest\<rparr>"
    using Cons.prems by (simp add: restartStep.simps)
  have "(restartStep True ^^ length (l # ls)) p = (restartStep True ^^ length ls) (restartStep True p)"
    by (simp add: funpow_swap1)
  also have "\<dots> = (restartStep True p)\<lparr>prOpen := filter (\<lambda>l. l \<notin> set ls) (prOpen (restartStep True p)), prTodo := rest\<rparr>"
    by (rule Cons.IH) (use Cons.prems in \<open>simp_all add: s\<close>)
  also have "filter (\<lambda>l. l \<notin> set ls) (prOpen (restartStep True p)) = filter (\<lambda>k. k \<notin> set (l # ls)) (prOpen p)"
    by (auto simp: s removeAll_filter_not_eq intro: filter_cong)
  finally show ?case by (simp add: s)
qed simp

lemma relaunch_undisturbed:
  assumes "set (sdOpen st) \<subseteq> set (beforeRestart st)"
  shows "(restartStep True ^^ (length (beforeRestart st) + 2)) (relaunch st) =
    \<lparr>prOpen = [], prTodo = [], prChild = Some [], prAlive = False\<rparr>"
proof -
  have "(restartStep True ^^ length (beforeRestart st)) (relaunch st) =
      \<lparr>prOpen = [], prTodo = [StartChild, ExitProcess], prChild = None, prAlive = True\<rparr>"
    using close_all [of "relaunch st" "beforeRestart st" "[StartChild, ExitProcess]"] assms
    by (auto simp: relaunch_def filter_empty_conv)
  then show ?thesis by (simp add: add.commute [of _ 2] funpow_add numeral_2_eq_2 restartStep.simps)
qed

text \<open>But the main goroutine may end the process first, and then nothing is running any more.\<close>

lemma restart_may_be_lost:
  "let p = fold restartStep [True, True, False] (relaunch st) in \<not> prAlive p \<and> prChild p = None"
  by (simp add: relaunch_def beforeRestart_def restartStep.simps)

lemma dead_stays: "\<not> prAlive p \<Longrightarrow> fold restartStep us p = p"
  by (induction us) (simp_all add: restartStep.simps)

text \<open>What the handler of a new connection takes for the token.\<close>

lemma accepted_needs_token:
  assumes "acceptTunnel cf sc c s = (s', True)"
  shows "\<exists>h. svClients s' c = Some h \<and> \<not> hAuthenticated h \<and>
    (\<forall>e f t v. DecodeAuth (Payload f) = Inr (t, v) \<longrightarrow>
      (hAuthenticated (snd (handleAuth cf e f (sh, h))) \<longleftrightarrow>
       scToken sc = '''' \<or> cfSha256 cf (bytes_of t) = cfSha256 cf (bytes_of (scToken sc))))"
proof -
  let ?h = "NewClientHandler cf c (scDomain sc) (scToken sc) (hostOnly (scDomain sc))"
  have "svClients s' c = Some ?h" using assms by (auto simp: acceptTunnel_def split: if_splits)
  moreover have "hAuthenticated (snd (cleanup (sh, h))) = hAuthenticated h" for h
    by (auto simp: cleanup_def Let_def split: prod.splits)
  ultimately show ?thesis
    by (auto simp: handleAuth_def NewClientHandler_def writeMessage_def Let_def split: sum.split)
qed

text \<open>
  C29. Starting the server: it starts exactly when the access-control flags and every port range in use are
  valid, SSH tunnels come with a port range and a host key, and every listener the flags ask for can be bound.
  It then is in an initial state of the tunnel server, without connections, and of the SSH server over its own
  range; the open listeners are the wanted ones, and what a self-update closes before it relaunches is every
  one of them, once. One token rules all three entrances, the one given when only the flag or only the environment variable is:
  a connection the tunnel server accepts becomes authenticated by an auth message exactly when there is no
  token or the message's token hashes like it; the admin API checks this token; and SSH admits exactly those who give it, or everybody without one.
\<close>

theorem server_startup:
  shows "((\<exists>st. startServer sha quote binds hostKey ver now fl = Inr st) \<longleftrightarrow>
      flags_ok sha hostKey fl \<and> (\<forall>l\<in>wanted fl. binds l)) \<and>
    (\<forall>st tok. startServer sha quote binds hostKey ver now fl = Inr st \<longrightarrow> tok = scToken (sdConfig st) \<longrightarrow>
      srv_reach cf (sdConfig st) (sdServer st) \<and> svClients (sdServer st) = Map.empty \<and>
      set (sdOpen st) = wanted fl \<and> distinct (sdOpen st) \<and> mset (beforeRestart st) = mset (sdOpen st) \<and>
      (fgEnvToken fl = '''' \<longrightarrow> tok = fgToken fl) \<and> (fgToken fl = '''' \<longrightarrow> tok = fgEnvToken fl) \<and>
      (\<forall>s c s'. acceptTunnel cf (sdConfig st) c s = (s', True) \<longrightarrow>
        (\<exists>h. svClients s' c = Some h \<and> \<not> hAuthenticated h \<and>
          (\<forall>e f t v. DecodeAuth (Payload f) = Inr (t, v) \<longrightarrow>
            (hAuthenticated (snd (handleAuth cf e f (svShared s', h))) \<longleftrightarrow>
             tok = '''' \<or> cfSha256 cf (bytes_of t) = cfSha256 cf (bytes_of tok))))) \<and>
      map_option asToken (sdAdmin st) = (if fgAdmin fl = '''' then None else Some tok) \<and>
      (case sdSsh st of
         None \<Rightarrow> fgSsh fl = ''''
       | Some (auth, w) \<Rightarrow> fgSsh fl \<noteq> '''' \<and>
           (\<exists>s e. parsePortRange (fgSshPorts fl) = Inr (s, e) \<and> s \<le> e \<and> ssh_reach tok unm mar s e w) \<and>
           (\<forall>pass. admits auth pass \<longleftrightarrow> tok = '''' \<or> pass = Some (bytes_of tok))))"
proof (intro conjI allI impI)
  show "(\<exists>st. startServer sha quote binds hostKey ver now fl = Inr st) \<longleftrightarrow>
      flags_ok sha hostKey fl \<and> (\<forall>l\<in>wanted fl. binds l)" by (rule startServer_ok)
next
  fix st tok assume st: "startServer sha quote binds hostKey ver now fl = Inr st" and tok: "tok = scToken (sdConfig st)"
  from st obtain st0 st1 st2 st3 where b: "buildServer sha quote fl = Inr st0" and a: "startAdmin binds ver now fl st0 = Inr st1"
    and t: "startTLS binds fl st1 = Inr st2" and s: "startSsh binds hostKey fl st2 = Inr st3" and h: "serveHTTP binds st3 = Inr st"
    by (rule startServer_parts)
  have h': "st = st3\<lparr>sdOpen := sdOpen st3 @ [PublicHTTP, TunnelWS]\<rparr>"
    using h by (auto simp: serveHTTP_def split: if_splits)
  note fr = buildServer_frame [OF b] startAdmin_frame [OF a] startTLS_frame [OF t] startSsh_frame(1-4,6,7) [OF s] h'
  have tk: "tok = effective_token (fgToken fl) (fgEnvToken fl)" by (simp add: tok fr(2-))
  show "srv_reach cf (sdConfig st) (sdServer st)"
    using sr_init [OF fr(1)] by (simp add: fr(2-))
  show "svClients (sdServer st) = Map.empty" using newServer_no_clients [OF fr(1)] by (simp add: fr(2-))
  show "set (sdOpen st) = wanted fl" "distinct (sdOpen st)" "mset (beforeRestart st) = mset (sdOpen st)"
    by (auto simp: fr(2-) wanted_def beforeRestart_def)
  show "fgEnvToken fl = '''' \<Longrightarrow> tok = fgToken fl" "fgToken fl = '''' \<Longrightarrow> tok = fgEnvToken fl"
    by (simp_all add: tk effective_token_def)
  show "\<exists>h. svClients s' c = Some h \<and> \<not> hAuthenticated h \<and>
      (\<forall>e f t v. DecodeAuth (Payload f) = Inr (t, v) \<longrightarrow>
        (hAuthenticated (snd (handleAuth cf e f (svShared s', h))) \<longleftrightarrow>
         tok = '''' \<or> cfSha256 cf (bytes_of t) = cfSha256 cf (bytes_of tok)))"
    if "acceptTunnel cf (sdConfig st) c s = (s', True)" for s c s'
    unfolding tok by (rule accepted_needs_token [OF that])
  show "map_option asToken (sdAdmin st) = (if fgAdmin fl = '''' then None else Some tok)"
    by (simp add: fr(2-) tk)
  show "case sdSsh st of
         None \<Rightarrow> fgSsh fl = ''''
       | Some (auth, w) \<Rightarrow> fgSsh fl \<noteq> '''' \<and>
           (\<exists>s e. parsePortRange (fgSshPorts fl) = Inr (s, e) \<and> s \<le> e \<and> ssh_reach tok unm mar s e w) \<and>
           (\<forall>pass. admits auth pass \<longleftrightarrow> tok = '''' \<or> pass = Some (bytes_of tok))"
  proof (cases "fgSsh fl = ''''")
    case True
    then show ?thesis by (simp add: fr(2-))
  next
    case False
    from startSsh_frame(5) [OF s this] obtain a b where p: "parsePortRange (fgSshPorts fl) = Inr (a, b)"
      "sdSsh st3 = Some (sshConfig (scToken (sdConfig st2)), newSsh a b)" by blast
    have "scToken (sdConfig st2) = tok" by (simp add: fr(2-) tk)
    moreover have "a \<le> b" using parsePortRange_bounds [OF p(1)] by (simp add: word_le_nat_alt)
    ultimately show ?thesis using False p by (auto simp: h' admits_iff intro: ssh_init)
  qed
qed


theorem server_startup_witness:
  "\<exists>st w. startServer (\<lambda>b. b) (\<lambda>s. s) (\<lambda>_. True) True ''1.0'' 0
      \<lparr>fgToken = '''', fgEnvToken = ''key'', fgDomain = ''t.io'', fgTcpPorts = '''', fgBasicAuth = '''', fgAllowIPs = '''',
       fgTrustHops = 0, fgAdmin = '''', fgTlsPass = '''', fgSsh = '':2222'', fgSshPorts = ''20200-20300''\<rparr> = Inr st \<and>
     sdSsh st = Some w \<and> admits (fst w) (Some (bytes_of ''key'')) \<and> \<not> admits (fst w) None \<and>
     set (sdOpen st) = {PublicHTTP, TunnelWS, SSHTunnels}"
proof -
  define fl where "fl = \<lparr>fgToken = '''', fgEnvToken = ''key'', fgDomain = ''t.io'', fgTcpPorts = '''', fgBasicAuth = '''', fgAllowIPs = '''',
       fgTrustHops = 0, fgAdmin = '''', fgTlsPass = '''', fgSsh = '':2222'', fgSshPorts = ''20200-20300''\<rparr>"
  have "dec 20200 = ''20200''" "dec 20300 = ''20300''" by (simp add: dec.simps, code_simp)+
  then have "parsePortRange ''20200-20300'' = Inr (20200, 20300)"
    using parsePortRange_dec [of 20200 20300] by simp
  moreover have "NewProtector (\<lambda>b. b) '''' '''' 0 = Inr \<lparr>ptUser = '''', ptPassHash = replicate 32 0, ptAllow = [], ptHops = 0\<rparr>"
    using trimSpace_printable [of "''''"] by (simp add: NewProtector_def)
  ultimately have ok: "flags_ok (\<lambda>b. b) True fl" by (simp add: flags_ok_def parts_ok_def fl_def)
  note up = server_startup [of "\<lambda>b. b" "\<lambda>s. s" "\<lambda>_. True" True "''1.0''" 0 fl]
  obtain st where st: "startServer (\<lambda>b. b) (\<lambda>s. s) (\<lambda>_. True) True ''1.0'' 0 fl = Inr st"
    using up [THEN conjunct1] ok by blast
  note all = up [THEN conjunct2, THEN spec, THEN spec, THEN mp, OF st, THEN mp, OF refl]
  have tok: "scToken (sdConfig st) = ''key''"
    using all [THEN conjunct2, THEN conjunct2, THEN conjunct2, THEN conjunct2, THEN conjunct2, THEN conjunct2, THEN conjunct1]
    by (simp add: fl_def)
  have "set (sdOpen st) = wanted fl" by (rule all [THEN conjunct2, THEN conjunct2, THEN conjunct1])
  then have o: "set (sdOpen st) = {PublicHTTP, TunnelWS, SSHTunnels}" by (auto simp: wanted_def fl_def)
  have c: "case sdSsh st of
         None \<Rightarrow> fgSsh fl = ''''
       | Some (auth, w) \<Rightarrow> fgSsh fl \<noteq> '''' \<and>
           (\<exists>s e. parsePortRange (fgSshPorts fl) = Inr (s, e) \<and> s \<le> e \<and> ssh_reach ''key'' (\<lambda>_. None) (\<lambda>_. []) s e w) \<and>
           (\<forall>pass. admits auth pass \<longleftrightarrow> ''key'' = '''' \<or> pass = Some (bytes_of ''key''))"
    using all [THEN conjunct2, THEN conjunct2, THEN conjunct2, THEN conjunct2, THEN conjunct2, THEN conjunct2,
      THEN conjunct2, THEN conjunct2, THEN conjunct2] unfolding tok .
  moreover have "fgSsh fl \<noteq> ''''" by (simp add: fl_def)
  ultimately obtain auth w where w: "sdSsh st = Some (auth, w)"
    "\<forall>pass. admits auth pass \<longleftrightarrow> ''key'' = '''' \<or> pass = Some (bytes_of ''key'')"
    by (cases "sdSsh st") auto
  show ?thesis using st o w unfolding fl_def by (intro exI [of _ st] exI [of _ "(auth, w)"]) simp
qed

end
