(* ===== verification/Tray.thy ===== *)
theory Tray
  imports Control
begin

text \<open>
  The tray icon of the client, \<^verbatim>\<open>internal/client/tray.go\<close>: the fixed pool of menu rows, what a refresh shows,
  and what each click does. The native menu is part of the state (titles, what is shown and enabled); the
  current tunnel is named by a number, and what its table of forwards holds at a refresh is an argument.
\<close>

section \<open>Menu rows\<close>

definition ellipsis :: string where "ellipsis = [CHR 0xE2, CHR 0x80, CHR 0xA6]"
definition arrow :: string where "arrow = [CHR 0xE2, CHR 0x86, CHR 0x92]"

definition contains :: "string \<Rightarrow> string \<Rightarrow> bool" where
  "contains s sub = list_ex (\<lambda>i. hasPrefix (drop i s) sub) [0..<Suc (length s)]"

record traySlot =
  tsActive :: bool
  tsPort :: u16
  tsURL :: string
  tsScheme :: string
  tsTitle :: string
  tsOpenEnabled :: bool
  tsShown :: bool

definition newSlot :: traySlot where
  "newSlot = \<lparr>tsActive = False, tsPort = 0, tsURL = '''', tsScheme = '''', tsTitle = '''', tsOpenEnabled = True, tsShown = True\<rparr>"

definition setSlot :: "u16 \<Rightarrow> string \<Rightarrow> string \<Rightarrow> traySlot \<Rightarrow> traySlot" where
  "setSlot port url scheme s =
     s\<lparr>tsActive := True, tsPort := port, tsURL := url, tsScheme := scheme,
       tsTitle := dec (unat port) @ '' '' @ arrow @ '' '' @ url,
       tsOpenEnabled := \<not> contains url ''://'', tsShown := True\<rparr>"

definition href :: "traySlot \<Rightarrow> string" where
  "href s = (if \<not> tsActive s \<or> tsURL s = '''' \<or> contains (tsURL s) ''://'' then '''' else tsScheme s @ ''://'' @ tsURL s)"

definition clearSlot :: "traySlot \<Rightarrow> traySlot" where
  "clearSlot s = s\<lparr>tsActive := False, tsPort := 0, tsURL := '''', tsShown := False\<rparr>"

definition target :: "traySlot \<Rightarrow> bool \<times> u16" where
  "target s = (tsActive s, tsPort s)"

section \<open>The menu\<close>

record Tray =
  trTunnel :: "nat option"
  trReady :: bool
  trSlots :: "traySlot list"
  trStatus :: string
  trStatusShown :: bool
  trAddEnabled :: bool

text \<open>\<^verbatim>\<open>onReady\<close> builds the menu; the first refresh waits until \<open>trReady\<close> is set.\<close>

definition onReady :: "nat option \<Rightarrow> Tray" where
  "onReady t = \<lparr>trTunnel = t, trReady = False, trSlots = replicate MaxTunnelsPerClient newSlot,
     trStatus = ''connecting'' @ ellipsis, trStatusShown = True, trAddEnabled = True\<rparr>"

type_synonym view = "nat \<Rightarrow> bool \<times> CForward list"

definition Refresh :: "view \<Rightarrow> Tray \<Rightarrow> Tray" where
  "Refresh view tr =
     (if \<not> trReady tr then tr
      else
        let (useTLS, forwards) = (case trTunnel tr of None \<Rightarrow> (False, []) | Some t \<Rightarrow> view t);
            scheme = (if useTLS then ''https'' else ''http'');
            slots = map (\<lambda>(i, s). if i < length forwards
                       then setSlot (fwPort (forwards ! i)) (fwURL (forwards ! i)) scheme s else clearSlot s)
                      (enumerate 0 (trSlots tr));
            tr1 = tr\<lparr>trSlots := slots\<rparr>
        in if trTunnel tr = None
           then tr1\<lparr>trStatus := ''disconnected'' @ ellipsis, trStatusShown := True, trAddEnabled := False\<rparr>
           else if length forwards = 0
           then tr1\<lparr>trStatus := ''no forwards'', trStatusShown := True, trAddEnabled := True\<rparr>
           else tr1\<lparr>trStatusShown := False, trAddEnabled := True\<rparr>)"

definition menuSettled :: "view \<Rightarrow> Tray \<Rightarrow> Tray" where
  "menuSettled view tr = Refresh view (tr\<lparr>trReady := True\<rparr>)"

definition SetTunnel :: "view \<Rightarrow> nat option \<Rightarrow> Tray \<Rightarrow> Tray" where
  "SetTunnel view t tr = Refresh view (tr\<lparr>trTunnel := t\<rparr>)"

section \<open>Clicks\<close>

datatype trayAction =
    Nothing
  | OpenBrowser string
  | CallRemovePort nat u16
  | CallAddPort nat u16 string
  | ShowAbout
  | QuitClient

definition clickOpen :: "traySlot \<Rightarrow> trayAction" where
  "clickOpen s = (if href s \<noteq> '''' then OpenBrowser (href s) else Nothing)"

definition clickRemove :: "Tray \<Rightarrow> traySlot \<Rightarrow> trayAction" where
  "clickRemove tr s = (case (target s, trTunnel tr) of
       ((True, port), Some t) \<Rightarrow> CallRemovePort t port
     | _ \<Rightarrow> Nothing)"

definition parsePort :: "string \<Rightarrow> u16 option" where
  "parsePort s = (case atoi s of
       None \<Rightarrow> None
     | Some p \<Rightarrow> if p < 1 \<or> p > 65535 then None else Some (word_of_int p))"

text \<open>\<open>input\<close> is what the dialog returned, \<^const>\<open>None\<close> when it failed.\<close>

definition promptAdd :: "Tray \<Rightarrow> string option \<Rightarrow> trayAction" where
  "promptAdd tr input = (case trTunnel tr of
       None \<Rightarrow> Nothing
     | Some t \<Rightarrow> (case input of
           None \<Rightarrow> Nothing
         | Some text \<Rightarrow>
             let txt = trimSpace text
             in if txt = '''' then Nothing
                else
                  let parts = Fields txt
                  in case parsePort (parts ! 0) of
                       None \<Rightarrow> Nothing
                     | Some port \<Rightarrow> CallAddPort t port (if length parts > 1 then parts ! 1 else '''')))"

datatype trayClick = RowOpen nat | RowRemove nat | AddClicked "string option" | AboutClicked | QuitClicked

text \<open>The click watchers; after Quit the watcher of the controls is gone.\<close>

fun clicked :: "Tray \<Rightarrow> trayClick \<Rightarrow> trayAction" where
  "clicked tr (RowOpen i) = (if i < length (trSlots tr) then clickOpen (trSlots tr ! i) else Nothing)"
| "clicked tr (RowRemove i) = (if i < length (trSlots tr) then clickRemove tr (trSlots tr ! i) else Nothing)"
| "clicked tr (AddClicked input) = promptAdd tr input"
| "clicked tr AboutClicked = ShowAbout"
| "clicked tr QuitClicked = QuitClient"

section \<open>The menu follows the tunnel\<close>

text \<open>
  What changes the menu: the client connects or disconnects, the current tunnel reports a change, the
  native menu has settled. Each comes with what the tables of forwards hold at that moment.
\<close>

datatype trayEvent = TunnelSet "nat option" | Changed | Settled

fun trayStep :: "trayEvent \<times> view \<Rightarrow> Tray \<Rightarrow> Tray" where
  "trayStep (TunnelSet t, view) tr = SetTunnel view t tr"
| "trayStep (Changed, view) tr = Refresh view tr"
| "trayStep (Settled, view) tr = menuSettled view tr"

definition trayRun :: "(trayEvent \<times> view) list \<Rightarrow> Tray \<Rightarrow> Tray" where
  "trayRun evs tr = fold trayStep evs tr"

text \<open>A row stands for a forward of tunnel \<open>t\<close>: what it shows and what its two entries do; or for nothing.\<close>

definition row_for :: "Tray \<Rightarrow> nat \<Rightarrow> bool \<Rightarrow> nat \<Rightarrow> CForward \<Rightarrow> bool" where
  "row_for tr t useTLS i f \<longleftrightarrow>
     (let s = trSlots tr ! i in
      tsShown s \<and> tsTitle s = dec (unat (fwPort f)) @ '' '' @ arrow @ '' '' @ fwURL f \<and>
      tsOpenEnabled s = (\<not> contains (fwURL f) ''://'') \<and>
      clicked tr (RowRemove i) = CallRemovePort t (fwPort f) \<and>
      clicked tr (RowOpen i) = (if fwURL f = '''' \<or> contains (fwURL f) ''://'' then Nothing
        else OpenBrowser ((if useTLS then ''https'' else ''http'') @ ''://'' @ fwURL f)))"

definition row_empty :: "Tray \<Rightarrow> nat \<Rightarrow> bool" where
  "row_empty tr i \<longleftrightarrow> \<not> tsShown (trSlots tr ! i) \<and> clicked tr (RowRemove i) = Nothing \<and> clicked tr (RowOpen i) = Nothing"

definition menu_shows :: "view \<Rightarrow> Tray \<Rightarrow> bool" where
  "menu_shows view tr \<longleftrightarrow>
     length (trSlots tr) = MaxTunnelsPerClient \<and>
     (case trTunnel tr of
        None \<Rightarrow> (\<forall>i < MaxTunnelsPerClient. row_empty tr i) \<and> \<not> trAddEnabled tr \<and> trStatusShown tr \<and>
          (\<forall>input. clicked tr (AddClicked input) = Nothing)
      | Some t \<Rightarrow> (case view t of (useTLS, fs) \<Rightarrow>
          (\<forall>i < MaxTunnelsPerClient. if i < length fs then row_for tr t useTLS i (fs ! i) else row_empty tr i) \<and>
          trAddEnabled tr \<and> (trStatusShown tr \<longleftrightarrow> fs = [])))"

lemma Refresh_frame [simp]:
  "trTunnel (Refresh view tr) = trTunnel tr" "trReady (Refresh view tr) = trReady tr"
  "length (trSlots (Refresh view tr)) = length (trSlots tr)"
  by (auto simp: Refresh_def Let_def split: prod.splits)

lemma Refresh_slot:
  assumes "trReady tr" "i < length (trSlots tr)"
  shows "trSlots (Refresh view tr) ! i =
    (let (useTLS, fs) = (case trTunnel tr of None \<Rightarrow> (False, []) | Some t \<Rightarrow> view t)
     in if i < length fs
        then setSlot (fwPort (fs ! i)) (fwURL (fs ! i)) (if useTLS then ''https'' else ''http'') (trSlots tr ! i)
        else clearSlot (trSlots tr ! i))"
  using assms by (auto simp: Refresh_def Let_def nth_enumerate_eq split: prod.splits)

lemma Refresh_row_empty:
  assumes "trReady tr" "i < length (trSlots tr)"
    and "case trTunnel tr of None \<Rightarrow> True | Some t \<Rightarrow> length (snd (view t)) \<le> i"
  shows "row_empty (Refresh view tr) i"
proof -
  have "trSlots (Refresh view tr) ! i = clearSlot (trSlots tr ! i)"
    using assms by (auto simp: Refresh_slot split: option.splits prod.splits)
  then show ?thesis
    using assms(2) by (simp add: row_empty_def clickRemove_def clickOpen_def target_def href_def clearSlot_def)
qed

lemma Refresh_row_for:
  assumes "trReady tr" "i < length (trSlots tr)" "trTunnel tr = Some t" "view t = (useTLS, fs)" "i < length fs"
  shows "row_for (Refresh view tr) t useTLS i (fs ! i)"
proof -
  have "trSlots (Refresh view tr) ! i =
      setSlot (fwPort (fs ! i)) (fwURL (fs ! i)) (if useTLS then ''https'' else ''http'') (trSlots tr ! i)"
    using assms by (simp add: Refresh_slot)
  then show ?thesis
    using assms(2,3) by (simp add: row_for_def clickRemove_def clickOpen_def target_def href_def setSlot_def)
qed

lemma Refresh_shows:
  assumes "trReady tr" "length (trSlots tr) = MaxTunnelsPerClient"
  shows "menu_shows view (Refresh view tr)"
proof (cases "trTunnel tr")
  case None
  then have "\<forall>i < MaxTunnelsPerClient. row_empty (Refresh view tr) i"
    using assms Refresh_row_empty by simp
  moreover have "\<not> trAddEnabled (Refresh view tr) \<and> trStatusShown (Refresh view tr)"
    using assms None by (simp add: Refresh_def)
  ultimately show ?thesis using None assms by (simp add: menu_shows_def promptAdd_def)
next
  case (Some t)
  obtain useTLS fs where v: "view t = (useTLS, fs)" by fastforce
  have "if i < length fs then row_for (Refresh view tr) t useTLS i (fs ! i) else row_empty (Refresh view tr) i"
    if "i < MaxTunnelsPerClient" for i
    using Refresh_row_for [of tr i t view useTLS fs] Refresh_row_empty [of tr i view] assms Some v that by simp
  moreover have "trAddEnabled (Refresh view tr) \<and> (trStatusShown (Refresh view tr) \<longleftrightarrow> fs = [])"
    using assms Some v by (simp add: Refresh_def Let_def)
  ultimately show ?thesis using Some v assms by (simp add: menu_shows_def)
qed

lemma trayStep_keeps:
  "length (trSlots (trayStep ev tr)) = length (trSlots tr)" "trReady tr \<Longrightarrow> trReady (trayStep ev tr)"
  "fst ev = Settled \<Longrightarrow> trReady (trayStep ev tr)"
  by (cases ev; cases "fst ev"; simp add: SetTunnel_def menuSettled_def)+

lemma trayStep_shows:
  "trReady (trayStep ev tr) \<Longrightarrow> length (trSlots tr) = MaxTunnelsPerClient \<Longrightarrow> menu_shows (snd ev) (trayStep ev tr)"
  by (cases ev; cases "fst ev") (auto simp: SetTunnel_def menuSettled_def intro!: Refresh_shows)

lemma trayRun_keeps:
  "length (trSlots (trayRun evs tr)) = length (trSlots tr) \<and>
   (trReady tr \<or> Settled \<in> fst ` set evs \<longrightarrow> trReady (trayRun evs tr))"
  unfolding trayRun_def
proof (induction evs arbitrary: tr)
  case (Cons ev evs)
  show ?case using Cons [of "trayStep ev tr"] trayStep_keeps [where ev = ev and tr = tr] by auto
qed simp

text \<open>
  The tray menu: once the native menu has settled, and after any sequence of connects, disconnects and
  changes, the rows are exactly the forwards of the current tunnel as of the last change, in order, up to the
  limit of tunnels per client. The entries of a row act on its forward: removing asks the tunnel to remove its
  port, and opening leads to its URL under the right scheme, for HTTP forwards only. Every other row is hidden
  and does nothing, and without a tunnel nothing can be added.
\<close>

theorem tray_menu_up_to_date:
  assumes "Settled \<in> fst ` set (evs @ [(ev, view)])"
  shows "menu_shows view (trayRun (evs @ [(ev, view)]) (onReady t))"
proof -
  let ?tr = "trayRun evs (onReady t)"
  have l: "length (trSlots ?tr) = MaxTunnelsPerClient"
    using trayRun_keeps [of evs "onReady t"] by (simp add: onReady_def)
  have "trReady (trayRun (evs @ [(ev, view)]) (onReady t))" using assms trayRun_keeps by blast
  then have "trReady (trayStep (ev, view) ?tr)" by (simp add: trayRun_def)
  from trayStep_shows [OF this l] show ?thesis by (simp add: trayRun_def)
qed

text \<open>
  A row whose local port is also the port of an earlier forward removes that one: the tunnel looks the port
  up again and takes the first forward with it.
\<close>

lemma row_remove_takes_first:
  assumes "ctForwards ct = [f, g]" "fwPort f = fwPort g" "fwTunnelID f \<noteq> fwTunnelID g" "ctDelCh ct = None"
    and "row_for tr t useTLS 1 g" "clicked tr (RowRemove 1) = CallRemovePort t port" "delStart True port ct = (ct', Inr ch)"
  shows "ctDelID ct' = fwTunnelID f"
proof -
  have "port = fwPort g" using assms(5,6) by (simp add: row_for_def Let_def)
  then show ?thesis using assms by (auto simp: delStart_def writeFrame_def Let_def)
qed

theorem tray_menu_up_to_date_witness:
  "\<exists>tr. tr = trayRun [(TunnelSet (Some 0), \<lambda>_. (True, [])), (Settled, \<lambda>_. (True, [])),
      (Changed, \<lambda>_. (True, [\<lparr>fwTunnelID = 7, fwPort = 80, fwURL = ''a.x.io''\<rparr>]))] (onReady None) \<and>
     clicked tr (RowOpen 0) = OpenBrowser ''https://a.x.io''"
proof -
  define view :: view where "view = (\<lambda>_. (True, [\<lparr>fwTunnelID = 7, fwPort = 80, fwURL = ''a.x.io''\<rparr>]))"
  define evs :: "(trayEvent \<times> view) list" where "evs = [(TunnelSet (Some 0), \<lambda>_. (True, [])), (Settled, \<lambda>_. (True, []))]"
  let ?tr = "trayRun (evs @ [(Changed, view)]) (onReady None)"
  have m: "menu_shows view ?tr" by (rule tray_menu_up_to_date) (simp add: evs_def)
  have "trTunnel ?tr = Some 0"
    by (simp add: trayRun_def evs_def SetTunnel_def menuSettled_def)
  then have "row_for ?tr 0 True 0 \<lparr>fwTunnelID = 7, fwPort = 80, fwURL = ''a.x.io''\<rparr>"
    using m by (simp add: menu_shows_def view_def MaxTunnelsPerClient_def) (metis length_Cons nth_Cons_0 zero_less_Suc zero_less_numeral)
  moreover have "\<not> contains ''a.x.io'' ''://''" by code_simp
  ultimately have "clicked ?tr (RowOpen 0) = OpenBrowser ''https://a.x.io''" by (simp add: row_for_def Let_def)
  then show ?thesis unfolding evs_def view_def by simp
qed

end
