(* ===== verification/RunLoop.thy ===== *)
theory RunLoop
  imports ClientFlow Tray
begin

text \<open>
  The life of a foreground client, \<^verbatim>\<open>runLoop\<close> of \<^verbatim>\<open>cmd/client/main.go\<close>: connect, serve until the connection
  ends, and start over, with the delays, the control file, the inspector that outlives the connections and
  the tray. One round of the loop is a function of what the outside does in it: whether dialling works, the
  server as a peer of \<^verbatim>\<open>Connect\<close>, the address of the control listener if there is one, what happens on the
  connection, and whether a signal comes instead of the timer or the disconnect.
\<close>

record loopCfg =
  lcToken :: string
  lcVersion :: string
  lcPorts :: "u16 list"
  lcSubs :: "string list"
  lcTcp :: "(u16 \<times> u16) list"
  lcTls :: "(u16 \<times> string) list"
  lcUseTLS :: bool

record 's round =
  rdDialed :: bool
  rdPeer :: "'s peer"
  rdServer :: 's
  rdControl :: "string option"
  rdTraffic :: "(cenv \<times> clientEvent) list"
  rdCloseEnv :: cenv
  rdSignal :: bool

datatype loopAct =
    Dropped ClientTunnel
  | Waited nat
  | Joined ClientTunnel
  | Paused nat
  | ShutDown

text \<open>
  \<open>loOpen\<close> is the tunnel of the last round when its connection may still be open (after a failed \<^verbatim>\<open>Connect\<close> as
  it was created: closing it only tells the server), \<open>loCount\<close> names the tunnels for the tray.
\<close>

record loopState =
  loBackoff :: nat
  loOpen :: "ClientTunnel option"
  loCount :: nat
  loDash :: "Dashboard option"
  loCtlFile :: "string option"
  loTray :: "Tray option"
  loActs :: "loopAct list"
  loEnded :: bool

definition startLoop :: "Dashboard option \<Rightarrow> Tray option \<Rightarrow> loopState" where
  "startLoop dash tray =
     \<lparr>loBackoff = 1, loOpen = None, loCount = 0, loDash = dash, loCtlFile = None, loTray = tray, loActs = [], loEnded = False\<rparr>"

definition act :: "loopAct \<Rightarrow> loopState \<Rightarrow> loopState" where
  "act a st = st\<lparr>loActs := loActs st @ [a]\<rparr>"

definition freshTunnel :: "loopCfg \<Rightarrow> ClientTunnel" where
  "freshTunnel cf = NewTunnel (lcToken cf) (lcPorts cf) (lcSubs cf) (lcTcp cf) (lcTls cf)"

text \<open>The tunnel a round connects, if it does.\<close>

definition connected :: "loopCfg \<Rightarrow> 's round \<Rightarrow> ClientTunnel option" where
  "connected cf r =
     (if \<not> rdDialed r then None
      else case snd (Connect (rdPeer r) (lcVersion cf) (freshTunnel cf) (rdServer r)) of
        Inl e \<Rightarrow> None | Inr ct \<Rightarrow> Some ct)"

definition trayTunnel :: "bool \<Rightarrow> nat option \<Rightarrow> ClientTunnel \<Rightarrow> loopState \<Rightarrow> loopState" where
  "trayTunnel tls t ct st = st\<lparr>loTray := map_option (SetTunnel (\<lambda>_. (tls, ctForwards ct)) t) (loTray st)\<rparr>"

definition dropTunnel :: "'s round \<Rightarrow> loopState \<Rightarrow> loopState" where
  "dropTunnel r st = (case loOpen st of
       None \<Rightarrow> st
     | Some ct \<Rightarrow> act (Dropped (Close (ceWok (rdCloseEnv r)) ct)) (st\<lparr>loOpen := None\<rparr>))"

text \<open>The connection is served: what reaches it, and at last the read error, unless a signal comes first.\<close>

definition servedClient :: "'s round \<Rightarrow> ClientTunnel \<Rightarrow> Dashboard option \<Rightarrow> Client" where
  "servedClient r ct dash =
     clientRun (rdTraffic r @ (if rdSignal r then [] else [(rdCloseEnv r, Lost)])) (startClient ct dash)"

definition loopRound :: "loopCfg \<Rightarrow> 's round \<Rightarrow> loopState \<Rightarrow> loopState" where
  "loopRound cf r st0 =
     (if loEnded st0 then st0
      else
        let st = (dropTunnel r st0)\<lparr>loCtlFile := None\<rparr> in
        case connected cf r of
          None \<Rightarrow>
            let st1 = st\<lparr>loOpen := (if rdDialed r then Some (freshTunnel cf) else None)\<rparr>
            in if rdSignal r then act ShutDown st1\<lparr>loEnded := True\<rparr>
               else act (Waited (loBackoff st)) st1\<lparr>loBackoff := next_backoff (loBackoff st)\<rparr>
        | Some ct \<Rightarrow>
            let st1 = act (Joined ct) (trayTunnel (lcUseTLS cf) (Some (loCount st)) ct
                  (st\<lparr>loCtlFile := map_option (\<lambda>addr. addr @ nl) (rdControl r), loCount := loCount st + 1, loBackoff := 1\<rparr>));
                cl = servedClient r ct (loDash st);
                st2 = st1\<lparr>loDash := clDash cl\<rparr>
            in if rdSignal r
               then act ShutDown (act (Dropped (Close (ceWok (rdCloseEnv r)) (clTun cl))) (st2\<lparr>loCtlFile := None\<rparr>))\<lparr>loEnded := True\<rparr>
               else act (Paused 1) (trayTunnel (lcUseTLS cf) None ct (st2\<lparr>loOpen := Some (clTun cl)\<rparr>)))"

definition runLoop :: "loopCfg \<Rightarrow> 's round list \<Rightarrow> loopState \<Rightarrow> loopState" where
  "runLoop cf rs st = fold (loopRound cf) rs st"

section \<open>The loop against its reference\<close>

text \<open>The rounds that take place: up to and including the first with a signal.\<close>

fun rounds_done :: "'s round list \<Rightarrow> 's round list" where
  "rounds_done [] = []"
| "rounds_done (r # rs) = r # (if rdSignal r then [] else rounds_done rs)"

text \<open>The delays: after \<open>k\<close> failures in a row \<open>2 ^ k\<close> seconds, 30 at most.\<close>

fun delays :: "loopCfg \<Rightarrow> nat \<Rightarrow> 's round list \<Rightarrow> nat list" where
  "delays cf k [] = []"
| "delays cf k (r # rs) =
     (if rdSignal r then []
      else case connected cf r of
        None \<Rightarrow> min 30 (2 ^ k) # delays cf (k + 1) rs
      | Some ct \<Rightarrow> delays cf 0 rs)"

definition waited :: "loopState \<Rightarrow> nat list" where
  "waited st = concat (map (\<lambda>a. case a of Waited n \<Rightarrow> [n] | _ \<Rightarrow> []) (loActs st))"

definition joined :: "loopState \<Rightarrow> ClientTunnel list" where
  "joined st = concat (map (\<lambda>a. case a of Joined ct \<Rightarrow> [ct] | _ \<Rightarrow> []) (loActs st))"

definition connections :: "loopCfg \<Rightarrow> 's round list \<Rightarrow> ClientTunnel list" where
  "connections cf rs = concat (map (\<lambda>r. case connected cf r of None \<Rightarrow> [] | Some ct \<Rightarrow> [ct]) rs)"

definition inspected :: "loopCfg \<Rightarrow> 's round list \<Rightarrow> Dashboard option \<Rightarrow> Dashboard option" where
  "inspected cf rs dash =
     fold (\<lambda>r d. case connected cf r of None \<Rightarrow> d | Some ct \<Rightarrow> clDash (servedClient r ct d)) rs dash"

lemma act_fields [simp]:
  "loBackoff (act a st) = loBackoff st" "loDash (act a st) = loDash st" "loCtlFile (act a st) = loCtlFile st"
  "loEnded (act a st) = loEnded st" "loActs (act a st) = loActs st @ [a]" "loTray (act a st) = loTray st"
  "loCount (act a st) = loCount st"
  by (simp_all add: act_def)

lemma trayTunnel_fields [simp]:
  "loBackoff (trayTunnel u t ct st) = loBackoff st" "loDash (trayTunnel u t ct st) = loDash st"
  "loCtlFile (trayTunnel u t ct st) = loCtlFile st" "loEnded (trayTunnel u t ct st) = loEnded st"
  "loActs (trayTunnel u t ct st) = loActs st" "loCount (trayTunnel u t ct st) = loCount st"
  by (simp_all add: trayTunnel_def)

lemma dropTunnel_fields [simp]:
  "loBackoff (dropTunnel r st) = loBackoff st" "loDash (dropTunnel r st) = loDash st"
  "loEnded (dropTunnel r st) = loEnded st" "loTray (dropTunnel r st) = loTray st"
  "loCount (dropTunnel r st) = loCount st"
  by (simp_all add: dropTunnel_def split: option.splits)

lemma waited_act [simp]: "waited (act a st) = waited st @ (case a of Waited n \<Rightarrow> [n] | _ \<Rightarrow> [])"
  by (simp add: waited_def)

lemma joined_act [simp]: "joined (act a st) = joined st @ (case a of Joined ct \<Rightarrow> [ct] | _ \<Rightarrow> [])"
  by (simp add: joined_def)

lemma logs_other [simp]:
  "waited (st\<lparr>loOpen := x1\<rparr>) = waited st" "joined (st\<lparr>loOpen := x1\<rparr>) = joined st"
  "waited (st\<lparr>loCtlFile := x2\<rparr>) = waited st" "joined (st\<lparr>loCtlFile := x2\<rparr>) = joined st"
  "waited (st\<lparr>loBackoff := x3\<rparr>) = waited st" "joined (st\<lparr>loBackoff := x3\<rparr>) = joined st"
  "waited (st\<lparr>loCount := x4\<rparr>) = waited st" "joined (st\<lparr>loCount := x4\<rparr>) = joined st"
  "waited (st\<lparr>loDash := x5\<rparr>) = waited st" "joined (st\<lparr>loDash := x5\<rparr>) = joined st"
  "waited (st\<lparr>loEnded := x6\<rparr>) = waited st" "joined (st\<lparr>loEnded := x6\<rparr>) = joined st"
  "waited (trayTunnel u t ct st) = waited st" "joined (trayTunnel u t ct st) = joined st"
  by (simp_all add: waited_def joined_def)

lemma logs_drop [simp]: "waited (dropTunnel r st) = waited st" "joined (dropTunnel r st) = joined st"
  by (simp_all add: dropTunnel_def split: option.splits)

text \<open>One round.\<close>

lemma loopRound_ended: "loEnded st \<Longrightarrow> loopRound cf r st = st"
  by (simp add: loopRound_def)

lemma runLoop_ended: "loEnded st \<Longrightarrow> runLoop cf rs st = st"
  unfolding runLoop_def by (induction rs) (simp_all add: loopRound_ended)

lemma loopRound_fails:
  assumes "\<not> loEnded st" "connected cf r = None"
  shows "loEnded (loopRound cf r st) = rdSignal r" "joined (loopRound cf r st) = joined st"
    "waited (loopRound cf r st) = waited st @ (if rdSignal r then [] else [loBackoff st])"
    "loDash (loopRound cf r st) = loDash st" "loCtlFile (loopRound cf r st) = None"
    "\<not> rdSignal r \<Longrightarrow> loBackoff (loopRound cf r st) = next_backoff (loBackoff st)"
  using assms by (simp_all add: loopRound_def Let_def)

lemma loopRound_joins:
  assumes "\<not> loEnded st" "connected cf r = Some ct"
  shows "loEnded (loopRound cf r st) = rdSignal r" "joined (loopRound cf r st) = joined st @ [ct]"
    "waited (loopRound cf r st) = waited st" "loDash (loopRound cf r st) = clDash (servedClient r ct (loDash st))"
    "loCtlFile (loopRound cf r st) = (if rdSignal r then None else map_option (\<lambda>addr. addr @ nl) (rdControl r))"
    "loBackoff (loopRound cf r st) = 1"
  using assms by (simp_all add: loopRound_def Let_def)

lemma loopRound_loEnded: "loEnded (loopRound cf r st) = (loEnded st \<or> rdSignal r)"
proof (cases "loEnded st")
  case False
  then show ?thesis using loopRound_fails(1) [of st cf r] loopRound_joins(1) [of st cf r]
    by (cases "connected cf r") simp_all
qed (simp add: loopRound_ended)

lemma runLoop_loEnded: "loEnded (runLoop cf rs st) = (loEnded st \<or> (\<exists>r\<in>set rs. rdSignal r))"
  unfolding runLoop_def by (induction rs arbitrary: st) (auto simp: loopRound_loEnded)

lemma next_backoff_pow: "next_backoff (min 30 (2 ^ k)) = min 30 (2 ^ Suc k)"
  using backoff_bound [of k] backoff_bound [of "Suc k"] by simp

text \<open>All rounds.\<close>

lemma runLoop_reference:
  assumes "\<not> loEnded st" "loBackoff st = min 30 (2 ^ k)"
  shows "waited (runLoop cf rs st) = waited st @ delays cf k rs \<and>
    joined (runLoop cf rs st) = joined st @ connections cf (rounds_done rs) \<and>
    loDash (runLoop cf rs st) = inspected cf (rounds_done rs) (loDash st) \<and>
    loEnded (runLoop cf rs st) = (\<exists>r\<in>set rs. rdSignal r)"
  using assms
proof (induction rs arbitrary: st k)
  case Nil
  then show ?case by (simp add: runLoop_def connections_def inspected_def)
next
  case (Cons r rs)
  have step: "runLoop cf (r # rs) st = runLoop cf rs (loopRound cf r st)" by (simp add: runLoop_def)
  show ?case
  proof (cases "connected cf r")
    case None
    note f = loopRound_fails [OF Cons.prems(1) None]
    show ?thesis
    proof (cases "rdSignal r")
      case True
      then show ?thesis using f None runLoop_ended [of "loopRound cf r st" cf rs] by (simp add: step connections_def inspected_def)
    next
      case False
      have "loBackoff (loopRound cf r st) = min 30 (2 ^ (k + 1))"
        using f(6) [OF False] Cons.prems(2) next_backoff_pow by simp
      from Cons.IH [OF _ this] False f None Cons.prems(2) show ?thesis
        by (simp add: step connections_def inspected_def)
    qed
  next
    case (Some ct)
    note f = loopRound_joins [OF Cons.prems(1) Some]
    show ?thesis
    proof (cases "rdSignal r")
      case True
      then show ?thesis using f Some runLoop_ended [of "loopRound cf r st" cf rs] by (simp add: step connections_def inspected_def)
    next
      case False
      have "loBackoff (loopRound cf r st) = min 30 (2 ^ 0)" using f(6) by simp
      from Cons.IH [OF _ this] False f Some show ?thesis
        by (simp add: step connections_def inspected_def)
    qed
  qed
qed

lemma runLoop_ctl:
  assumes "\<not> loEnded st" "loCtlFile st = None"
  shows "loCtlFile (runLoop cf rs st) =
    (if rs = [] \<or> (\<exists>r\<in>set rs. rdSignal r) \<or> connected cf (last rs) = None then None
     else map_option (\<lambda>addr. addr @ nl) (rdControl (last rs)))"
  using assms
proof (induction rs rule: rev_induct)
  case Nil
  then show ?case by (simp add: runLoop_def)
next
  case (snoc r rs)
  let ?st = "runLoop cf rs st"
  have step: "runLoop cf (rs @ [r]) st = loopRound cf r ?st" by (simp add: runLoop_def)
  show ?case
  proof (cases "loEnded ?st")
    case True
    then have "\<exists>r\<in>set rs. rdSignal r" using snoc.prems(1) by (simp add: runLoop_loEnded)
    then show ?thesis using snoc True by (simp add: step loopRound_ended)
  next
    case False
    then have "\<not> (\<exists>r\<in>set rs. rdSignal r)" by (simp add: runLoop_loEnded)
    then show ?thesis
      using loopRound_fails(5) [OF False, of cf r] loopRound_joins(5) [OF False, of cf r]
      by (cases "connected cf r") (auto simp: step)
  qed
qed


text \<open>
  The client's loop, over any sequence of rounds: it waits 1, 2, 4, \<dots> and at most 30 seconds between
  consecutive failures and starts again at 1 after a connection; it ends exactly when a signal comes, leaves no
  control file behind then, and nothing that follows matters; until then the control file is there exactly
  after a round that connected and got a control listener. Every connection registers what the flags ask for
  and nothing else, so forwards added or removed at run time do not survive a reconnect, while the inspector
  keeps the exchanges of all connections.
\<close>

theorem client_loop:
  fixes cf :: loopCfg and rs :: "'s round list" and dash tray
  defines "st \<equiv> \<lambda>rs :: 's round list. runLoop cf rs (startLoop dash tray)"
  shows "waited (st rs) = delays cf 0 rs \<and>
    loEnded (st rs) = (\<exists>r\<in>set rs. rdSignal r) \<and>
    (rdSignal r \<longrightarrow> st (rs @ r # rs') = st (rs @ [r])) \<and>
    loCtlFile (st rs) =
      (if rs = [] \<or> (\<exists>r\<in>set rs. rdSignal r) \<or> connected cf (last rs) = None then None
       else map_option (\<lambda>addr. addr @ nl) (rdControl (last rs))) \<and>
    joined (st rs) = connections cf (rounds_done rs) \<and>
    loDash (st rs) = inspected cf (rounds_done rs) dash"
proof -
  let ?s0 = "startLoop dash tray"
  have s0: "\<not> loEnded ?s0" "loBackoff ?s0 = min 30 (2 ^ 0)" "loCtlFile ?s0 = None" "waited ?s0 = []" "joined ?s0 = []" "loDash ?s0 = dash"
    by (simp_all add: startLoop_def waited_def joined_def)
  have "st (rs @ r # rs') = st (rs @ [r])" if "rdSignal r"
  proof -
    have "st (rs @ r # rs') = runLoop cf rs' (st (rs @ [r]))" by (simp add: st_def runLoop_def)
    moreover have "loEnded (st (rs @ [r]))" using that by (simp add: st_def runLoop_loEnded)
    ultimately show ?thesis by (simp add: runLoop_ended)
  qed
  then show ?thesis
    using runLoop_reference [OF s0(1,2), of cf rs] runLoop_ctl [OF s0(1,3), of cf rs] s0 by (simp add: st_def)
qed


theorem client_loop_witness:
  "\<exists>(cf :: loopCfg) (lost :: unit round) stopped.
     waited (runLoop cf [lost, lost, lost] (startLoop None None)) = [1, 2, 4] \<and>
     runLoop cf ([lost] @ stopped # [lost]) (startLoop None None) = runLoop cf ([lost] @ [stopped]) (startLoop None None)"
proof -
  define cf where "cf = \<lparr>lcToken = '''', lcVersion = '''', lcPorts = [], lcSubs = [], lcTcp = [], lcTls = [], lcUseTLS = False\<rparr>"
  obtain lost :: "unit round" where lost: "\<not> rdDialed lost" "\<not> rdSignal lost"
    using that [of "\<lparr>rdDialed = False, rdPeer = undefined, rdServer = (), rdControl = None, rdTraffic = [],
      rdCloseEnv = undefined, rdSignal = False\<rparr>"] by simp
  have stopped: "rdSignal (lost\<lparr>rdSignal := True\<rparr>)" by simp
  have c: "connected cf lost = None" using lost by (simp add: connected_def)
  have "waited (runLoop cf [lost, lost, lost] (startLoop None None)) = delays cf 0 [lost, lost, lost]"
    using client_loop [of cf "[lost, lost, lost]" None None lost "[]"] by blast
  also have "\<dots> = [1, 2, 4]" using lost c by simp
  finally show ?thesis
    using client_loop [of cf "[lost]" None None "lost\<lparr>rdSignal := True\<rparr>" "[lost]"] stopped by blast
qed

end
