(* ===== verification/Launch.thy ===== *)
theory Launch
  imports Startup RunLoop
begin

text \<open>
  The two processes as a whole: \<^verbatim>\<open>main\<close> of \<^verbatim>\<open>cmd/client/main.go\<close>, which mode of the client runs, and its
  life beside the tray until a signal or the Quit entry ends it; and the host key the server presents over
  SSH, \<^verbatim>\<open>hostKey\<close> of \<^verbatim>\<open>internal/sshtun/server.go\<close>, across restarts.
\<close>

section \<open>Modes of the client\<close>

text \<open>The flags that decide; \<open>maVisited\<close> are the names of those given, as \<^verbatim>\<open>flag.Visit\<close> lists them.\<close>

record mainFlags =
  maVisited :: "string list"
  maHelp :: bool
  maVersion :: bool
  maAdd :: string
  maDel :: string
  maServer :: string
  maPorts :: string
  maTcp :: string
  maTls :: string
  maSubs :: string
  maInspect :: string
  maLimit :: int
  maUpdate :: bool
  maTray :: bool

record launched =
  lnPlan :: plan
  lnDash :: "Dashboard option"
  lnUpdate :: bool
  lnTray :: bool

datatype clientMode =
    PrintHelp
  | PrintVersion
  | Refused flagErr
  | AddMode "modeErr + string"
  | DelMode "modeErr + string"
  | NoInspector
  | Serve launched

definition clientMain :: "bool \<Rightarrow> mainFlags \<Rightarrow> clientMode" where
  "clientMain binds fl =
     (if maHelp fl then PrintHelp
      else if maVersion fl then PrintVersion
      else case checkExclusiveFlags (maVisited fl) of
        Some e \<Rightarrow> Refused e
      | None \<Rightarrow>
          if maAdd fl \<noteq> '''' then AddMode (runAddMode (maAdd fl))
          else if maDel fl \<noteq> '''' then DelMode (runDelMode (maDel fl))
          else case client_plan (maServer fl) (maPorts fl) (maTcp fl) (maTls fl) (maSubs fl) of
            Inl e \<Rightarrow> Refused e
          | Inr pl \<Rightarrow>
              if maInspect fl \<noteq> '''' \<and> \<not> binds then NoInspector
              else Serve \<lparr>lnPlan = pl,
                lnDash = (if maInspect fl \<noteq> '''' then Some (NewDashboard (maLimit fl)) else None),
                lnUpdate = maUpdate fl, lnTray = maTray fl\<rparr>)"

section \<open>The process\<close>

text \<open>
  \<open>psSignal\<close>: the channel \<^verbatim>\<open>sigCh\<close>, of capacity one, is full. \<open>psWatching\<close>: the watcher of the tray's controls
  runs. \<open>psTrayOpen\<close>: \<^verbatim>\<open>tray.Run\<close> has not returned; without a tray the main goroutine runs the loop itself.
  A round takes the signal, if it does, at one of its two \<^verbatim>\<open>select\<close>s.
\<close>

record process =
  psSignal :: bool
  psWatching :: bool
  psTrayOpen :: bool
  psLoop :: loopState

definition startProcess :: "launched \<Rightarrow> Tray \<Rightarrow> process" where
  "startProcess ln tray =
     \<lparr>psSignal = False, psWatching = lnTray ln, psTrayOpen = lnTray ln,
      psLoop = startLoop (lnDash ln) (if lnTray ln then Some tray else None)\<rparr>"

definition loop_cfg :: "string \<Rightarrow> string \<Rightarrow> bool \<Rightarrow> launched \<Rightarrow> loopCfg" where
  "loop_cfg token ver tls ln =
     \<lparr>lcToken = token, lcVersion = ver, lcPorts = plPorts (lnPlan ln), lcSubs = plSubs (lnPlan ln),
      lcTcp = map (\<lambda>f. (tfLocal f, tfRemote f)) (plTCP (lnPlan ln)),
      lcTls = map (\<lambda>f. (lfLocal f, lfSubdomain f)) (plTLS (lnPlan ln)), lcUseTLS = tls\<rparr>"

text \<open>\<^verbatim>\<open>tray.Stop\<close>, after the loop.\<close>

definition trayStop :: "process \<Rightarrow> process" where
  "trayStop ps = ps\<lparr>psWatching := False, psTrayOpen := False\<rparr>"

datatype 's happening = OsSignal | QuitClick | Round "'s round"

definition processStep :: "loopCfg \<Rightarrow> 's happening \<Rightarrow> process \<Rightarrow> process" where
  "processStep cf ev ps =
     (if loEnded (psLoop ps) then ps
      else case ev of
        OsSignal \<Rightarrow> ps\<lparr>psSignal := True\<rparr>
      | QuitClick \<Rightarrow> if psWatching ps then ps\<lparr>psSignal := True, psWatching := False\<rparr> else ps
      | Round r0 \<Rightarrow>
          let taken = (rdSignal r0 \<and> psSignal ps);
              ps1 = ps\<lparr>psSignal := psSignal ps \<and> \<not> taken, psLoop := loopRound cf (r0\<lparr>rdSignal := taken\<rparr>) (psLoop ps)\<rparr>
          in if loEnded (psLoop ps1) then trayStop ps1 else ps1)"

definition process_run :: "loopCfg \<Rightarrow> 's happening list \<Rightarrow> process \<Rightarrow> process" where
  "process_run cf evs ps = fold (processStep cf) evs ps"

text \<open>The rounds that take place, with whether each took a signal; \<open>sig\<close>: one is pending, \<open>w\<close>: Quit is watched.\<close>

fun taken_rounds :: "bool \<Rightarrow> bool \<Rightarrow> 's happening list \<Rightarrow> 's round list" where
  "taken_rounds sig w [] = []"
| "taken_rounds sig w (OsSignal # evs) = taken_rounds True w evs"
| "taken_rounds sig w (QuitClick # evs) = taken_rounds (sig \<or> w) False evs"
| "taken_rounds sig w (Round r # evs) =
     (let b = (rdSignal r \<and> sig) in r\<lparr>rdSignal := b\<rparr> # (if b then [] else taken_rounds sig w evs))"

section \<open>A launched client is sane\<close>

lemma max_rows: "dMaxEntries (NewDashboard n) \<in> {1..100000}"
  by (auto simp: NewDashboard_def defaultInspectLimit_def maxInspectLimit_def Let_def min_def)

lemma clientMain_Serve:
  assumes "clientMain binds fl = Serve ln"
  shows "\<not> maHelp fl" "\<not> maVersion fl" "maAdd fl = ''''" "maDel fl = ''''"
    "client_plan (maServer fl) (maPorts fl) (maTcp fl) (maTls fl) (maSubs fl) = Inr (lnPlan ln)"
    "lnDash ln = (if maInspect fl \<noteq> '''' then Some (NewDashboard (maLimit fl)) else None)"
    "maInspect fl \<noteq> '''' \<Longrightarrow> binds" "lnTray ln = maTray fl"
  using assms by (auto simp: clientMain_def split: if_splits option.splits sum.splits)

definition launch_sane :: "mainFlags \<Rightarrow> launched \<Rightarrow> bool" where
  "launch_sane fl ln \<longleftrightarrow> (let pl = lnPlan ln in
     (plPorts pl \<noteq> [] \<or> plTCP pl \<noteq> [] \<or> plTLS pl \<noteq> []) \<and> 0 \<notin> set (plPorts pl) \<and>
     (\<forall>f \<in> set (plTCP pl). tfLocal f \<noteq> 0) \<and> (\<forall>f \<in> set (plTLS pl). lfLocal f \<noteq> 0) \<and>
     (plSubs pl = [] \<or> length (plSubs pl) = length (plPorts pl)) \<and> '''' \<notin> set (plSubs pl) \<and>
     validateServerAddr (maServer fl) = None \<and>
     (case lnDash ln of None \<Rightarrow> maInspect fl = ''''
      | Some d \<Rightarrow> maInspect fl \<noteq> '''' \<and> dMaxEntries d \<in> {1..100000} \<and> dEntries d = []))"



section \<open>The process against its loop\<close>

lemma processStep_ended: "loEnded (psLoop ps) \<Longrightarrow> process_run cf evs ps = ps"
  unfolding process_run_def by (induction evs) (simp_all add: processStep_def)

lemma process_run_Cons [simp]:
  "process_run cf (ev # evs) ps = process_run cf evs (processStep cf ev ps)" "process_run cf [] ps = ps"
  by (simp_all add: process_run_def)

lemma process_loop:
  assumes "\<not> loEnded (psLoop ps)"
  shows "psLoop (process_run cf evs ps) = runLoop cf (taken_rounds (psSignal ps) (psWatching ps) evs) (psLoop ps)"
  using assms
proof (induction evs arbitrary: ps)
  case Nil
  then show ?case by (simp add: process_run_def runLoop_def)
next
  case (Cons ev evs)
  show ?case
  proof (cases ev)
    case (Round r)
    let ?b = "rdSignal r \<and> psSignal ps"
    let ?l = "loopRound cf (r\<lparr>rdSignal := ?b\<rparr>) (psLoop ps)"
    have e: "loEnded ?l = ?b" using Cons.prems by (simp add: loopRound_loEnded)
    have l: "psLoop (processStep cf ev ps) = ?l"
      using Cons.prems by (simp add: processStep_def Round trayStop_def Let_def)
    show ?thesis
    proof (cases ?b)
      case True
      with e have "process_run cf evs (processStep cf ev ps) = processStep cf ev ps"
        by (intro processStep_ended) (metis l)
      then show ?thesis using True l by (simp add: Round runLoop_def Let_def)
    next
      case False
      moreover have "psSignal (processStep cf ev ps) = psSignal ps" "psWatching (processStep cf ev ps) = psWatching ps"
        using False e Cons.prems by (auto simp: processStep_def Round Let_def)
      moreover have "(rdSignal r \<and> psSignal ps) = False" using False by blast
      ultimately show ?thesis using Cons.IH [of "processStep cf ev ps"] l e
        by (simp only: Round taken_rounds.simps Let_def runLoop_def fold_simps if_False process_run_Cons)
    qed
  qed (use Cons.IH [of "processStep cf ev ps"] Cons.prems in \<open>auto simp: processStep_def split: if_splits\<close>)
qed

definition proc_inv :: "bool \<Rightarrow> bool \<Rightarrow> process \<Rightarrow> bool" where
  "proc_inv tray asked ps \<longleftrightarrow>
     (loEnded (psLoop ps) \<longrightarrow> asked \<and> \<not> psTrayOpen ps \<and> \<not> psWatching ps) \<and>
     (\<not> loEnded (psLoop ps) \<longrightarrow> psSignal ps = asked \<and> psTrayOpen ps = tray \<and> (psWatching ps \<longrightarrow> tray) \<and> (tray \<and> \<not> psWatching ps \<longrightarrow> asked))"

lemma proc_inv_step:
  assumes "proc_inv tray asked ps"
  shows "proc_inv tray (asked \<or> ev = OsSignal \<or> tray \<and> ev = QuitClick) (processStep cf ev ps)"
proof (cases "loEnded (psLoop ps)")
  case True
  then show ?thesis using assms by (simp add: proc_inv_def processStep_def)
next
  case False
  show ?thesis
  proof (cases ev)
    case (Round r)
    have e: "loEnded (loopRound cf (r\<lparr>rdSignal := b\<rparr>) (psLoop ps)) = b" for b
      using False by (simp add: loopRound_loEnded)
    show ?thesis using assms False
      by (auto simp: proc_inv_def processStep_def Round Let_def e trayStop_def)
  qed (use assms False in \<open>auto simp: proc_inv_def processStep_def\<close>)
qed

lemma proc_inv_run:
  assumes "proc_inv tray asked ps"
  shows "proc_inv tray (asked \<or> OsSignal \<in> set evs \<or> tray \<and> QuitClick \<in> set evs) (process_run cf evs ps)"
  using assms
proof (induction evs arbitrary: ps asked)
  case (Cons ev evs)
  from Cons.IH [OF proc_inv_step [OF Cons.prems, of ev cf]]
  show ?case by (auto simp: process_run_def disj_ac elim: back_subst)
qed (simp add: process_run_def)



section \<open>The host key of the SSH server\<close>

text \<open>
  Files by path; \<open>readable\<close> and \<open>writable\<close> say whether reading and writing the path works. \<open>parse\<close>, \<open>signer\<close> and
  \<open>marshal\<close> are \<^verbatim>\<open>ssh.ParsePrivateKey\<close>, \<^verbatim>\<open>ssh.NewSignerFromSigner\<close> and \<^verbatim>\<open>ssh.MarshalPrivateKey\<close> with its PEM
  encoding, \<open>gen\<close> is the key \<^verbatim>\<open>ed25519.GenerateKey\<close> makes.
\<close>

definition hostKey ::
  "(bytes \<Rightarrow> 'k option) \<Rightarrow> 'p option \<Rightarrow> ('p \<Rightarrow> 'k option) \<Rightarrow> ('p \<Rightarrow> bytes option) \<Rightarrow> bool \<Rightarrow> bool \<Rightarrow> string \<Rightarrow>
     (string \<rightharpoonup> bytes) \<Rightarrow> (string \<rightharpoonup> bytes) \<times> 'k option" where
  "hostKey parse gen signer marshal readable writable path fs =
     (case (if path \<noteq> '''' \<and> readable then fs path else None) of
        Some pem \<Rightarrow> (fs, parse pem)
      | None \<Rightarrow>
          (case gen of
             None \<Rightarrow> (fs, None)
           | Some priv \<Rightarrow>
               (case signer priv of
                  None \<Rightarrow> (fs, None)
                | Some key \<Rightarrow>
                    (case marshal priv of
                       Some pem \<Rightarrow> (if path \<noteq> '''' \<and> writable then fs(path \<mapsto> pem) else fs, Some key)
                     | None \<Rightarrow> (fs, Some key)))))"

text \<open>With a path the identity survives every restart, whatever keys would be generated then.\<close>

lemma host_key_survives_restart:
  assumes "\<And>priv. marshal priv = Some (enc priv)" "\<And>priv. parse (enc priv) = signer priv"
    and "path \<noteq> ''''" "hostKey parse gen signer marshal True True path fs = (fs', Some key)"
  shows "hostKey parse gen' signer marshal True writable path fs' = (fs', Some key)"
  using assms by (auto simp: hostKey_def split: option.splits)

text \<open>
  Any error of reading counts as a missing file: a key that is there and cannot be read is replaced, and its
  file is overwritten when that is possible.
\<close>

lemma unreadable_key_is_replaced:
  assumes "path \<noteq> ''''" "fs path = Some old" "gen = Some priv" "signer priv = Some key" "marshal priv = Some pem"
  shows "hostKey parse gen signer marshal False writable path fs = (if writable then fs(path \<mapsto> pem) else fs, Some key)"
  using assms by (simp add: hostKey_def)

end
