(* ===== verification/SelfUpdate.thy ===== *)
theory SelfUpdate
  imports GoNet
begin

text \<open>
  Self-update of a running binary, \<^verbatim>\<open>internal/selfupdate/selfupdate.go\<close>: the comparison of versions, the
  verification of a download, its installation over the running executable, and the polling loop. The
  file system is a map from paths to contents; answers of the network, failures of the file system and
  the signature check of \<^verbatim>\<open>crypto/ed25519\<close> are arguments.
\<close>

section \<open>Comparing versions\<close>

definition numAt :: "string list \<Rightarrow> nat \<Rightarrow> int" where
  "numAt parts i =
     (if i \<ge> length parts then 0
      else let ds = takeWhile is_digit (parts ! i)
           in if length ds = 0 then - 1 else case atoi ds of None \<Rightarrow> - 1 | Some n \<Rightarrow> n)"

function newer_from :: "string list \<Rightarrow> string list \<Rightarrow> nat \<Rightarrow> bool" where
  "newer_from cur lat i =
     (if i < length cur \<or> i < length lat then
        (let c = numAt cur i; l = numAt lat i
         in if l < 0 then False
            else if c < 0 then True
            else if l \<noteq> c then l > c
            else newer_from cur lat (i + 1))
      else False)"
  by pat_completeness auto
termination by (relation "measure (\<lambda>(cur, lat, i). max (length cur) (length lat) - i)") auto

declare newer_from.simps [simp del]

definition newer :: "string \<Rightarrow> string \<Rightarrow> bool" where
  "newer current latest =
     (if latest = current then False
      else newer_from (split_on CHR ''.'' (trimPrefix current ''v'')) (split_on CHR ''.'' (trimPrefix latest ''v'')) 0)"

definition assetName :: "string \<Rightarrow> string \<Rightarrow> string \<Rightarrow> string" where
  "assetName goos goarch base =
     (let arch = (if goarch = ''386'' then ''x86'' else goarch);
          name = base @ ''-'' @ goos @ ''-'' @ arch
      in if goos = ''windows'' then name @ ''.exe'' else name)"

section \<open>Hexadecimal text\<close>

fun hexDecode :: "string \<Rightarrow> bytes option" where
  "hexDecode [] = Some []"
| "hexDecode [c] = None"
| "hexDecode (a # b # s) = (case (hex_val a, hex_val b, hexDecode s) of
       (Some x, Some y, Some bs) \<Rightarrow> Some (of_nat (16 * x + y) # bs)
     | _ \<Rightarrow> None)"

section \<open>Verifying a download\<close>

record Config =
  ucRepo :: string
  ucAsset :: string
  ucCurrent :: string
  ucPublicKeyHex :: string

datatype updErr =
    UpdNoExecutable
  | UpdNet string
  | UpdStatus nat
  | UpdNoTag
  | UpdOpenFile
  | UpdCopy
  | UpdCloseFile
  | UpdNoKey
  | UpdReadFile
  | UpdKeyHex
  | UpdKeyLength nat
  | UpdSigHex
  | UpdSigLength nat
  | UpdMismatch
  | UpdMoveAside
  | UpdInstall

definition PublicKeySize :: nat where "PublicKeySize = 32"
definition SignatureSize :: nat where "SignatureSize = 64"
definition maxDownloadSize :: nat where "maxDownloadSize = 256 * 2 ^ 20"

definition verify :: "(bytes \<Rightarrow> bytes \<Rightarrow> bytes \<Rightarrow> bool) \<Rightarrow> string \<Rightarrow> bytes \<Rightarrow> bytes \<Rightarrow> updErr option" where
  "verify edv pubHex data sig =
     (case hexDecode (trimSpace pubHex) of
        None \<Rightarrow> Some UpdKeyHex
      | Some pub \<Rightarrow>
          if length pub \<noteq> PublicKeySize then Some (UpdKeyLength (length pub))
          else if length sig \<noteq> SignatureSize then Some (UpdSigLength (length sig))
          else if \<not> edv pub data sig then Some UpdMismatch
          else None)"

text \<open>What a GET returns: an error, or the status and the body with a possible error while reading it.\<close>

datatype httpAnswer = NetError string | NetAnswer nat bytes bool

definition fetchSignature :: "httpAnswer \<Rightarrow> updErr + bytes" where
  "fetchSignature ans = (case ans of
       NetError e \<Rightarrow> Inl (UpdNet e)
     | NetAnswer status body readErr \<Rightarrow>
         if status \<noteq> 200 then Inl (UpdStatus status)
         else if readErr then Inl UpdCopy
         else case hexDecode (trimSpace (string_of (take 4096 body))) of
           None \<Rightarrow> Inl UpdSigHex
         | Some sig \<Rightarrow> Inr sig)"

type_synonym files = "string \<Rightarrow> bytes option"

text \<open>
  What the network and the file system do during one attempt: the answers to the three GETs (the
  latest release with the \<^verbatim>\<open>tag_name\<close> its JSON decodes to, the binary, its signature), the path of the
  running executable with its links resolved, and whether each call on the file system succeeds. A read
  error counts only within the size limit the code reads up to. Permission bits are not modelled.
\<close>

record attempt =
  atTag :: httpAnswer
  atTagName :: string
  atExe :: "string option"
  atBinary :: httpAnswer
  atSig :: httpAnswer
  atOpenOk :: bool
  atCloseOk :: bool
  atReadOk :: bool
  atAsideOk :: bool
  atInstallOk :: bool
  atRollbackOk :: bool
  atStartOk :: bool

definition download :: "attempt \<Rightarrow> string \<Rightarrow> files \<Rightarrow> files \<times> updErr option" where
  "download t dst fs = (case atBinary t of
       NetError e \<Rightarrow> (fs, Some (UpdNet e))
     | NetAnswer status body readErr \<Rightarrow>
         if status \<noteq> 200 then (fs, Some (UpdStatus status))
         else if \<not> atOpenOk t then (fs, Some UpdOpenFile)
         else if readErr then (fs(dst := None), Some UpdCopy)
         else (fs(dst \<mapsto> take maxDownloadSize body), if atCloseOk t then None else Some UpdCloseFile))"

definition verifyDownload ::
  "(bytes \<Rightarrow> bytes \<Rightarrow> bytes \<Rightarrow> bool) \<Rightarrow> string \<Rightarrow> Config \<Rightarrow> attempt \<Rightarrow> string \<Rightarrow> files \<Rightarrow> updErr option" where
  "verifyDownload edv builtinKey cfg t path fs =
     (let pubHex = (if ucPublicKeyHex cfg = '''' then builtinKey else ucPublicKeyHex cfg)
      in if pubHex = '''' then Some UpdNoKey
         else case (if atReadOk t then fs path else None) of
           None \<Rightarrow> Some UpdReadFile
         | Some data \<Rightarrow>
             (case fetchSignature (atSig t) of
                Inl e \<Rightarrow> Some e
              | Inr sig \<Rightarrow> verify edv pubHex data sig))"

section \<open>Installing\<close>

definition rename :: "string \<Rightarrow> string \<Rightarrow> files \<Rightarrow> files" where
  "rename a b fs = fs(b := fs a, a := None)"

text \<open>
  The result: an error; nothing to do; the executable was replaced and started, and this process exits with
  status 0; or it was replaced and could not be started, and this process exits with status 1 all the same.
\<close>

datatype updOut = UpdFailed updErr | UpdCurrent | UpdRelaunched string | UpdStartFailed string

text \<open>\<^verbatim>\<open>relaunch\<close>, which does not return.\<close>

definition relaunched :: "attempt \<Rightarrow> string \<Rightarrow> updOut" where
  "relaunched t exe = (if atStartOk t then UpdRelaunched exe else UpdStartFailed exe)"

definition apply_update ::
  "(bytes \<Rightarrow> bytes \<Rightarrow> bytes \<Rightarrow> bool) \<Rightarrow> string \<Rightarrow> Config \<Rightarrow> attempt \<Rightarrow> files \<Rightarrow> files \<times> updOut" where
  "apply_update edv builtinKey cfg t fs =
     (case atExe t of
        None \<Rightarrow> (fs, UpdFailed UpdNoExecutable)
      | Some exe \<Rightarrow>
          let newPath = exe @ ''.new''; backup = exe @ ''.old'' in
          case download t newPath fs of
            (fs1, Some e) \<Rightarrow> (fs1, UpdFailed e)
          | (fs1, None) \<Rightarrow>
              (case verifyDownload edv builtinKey cfg t newPath fs1 of
                 Some e \<Rightarrow> (fs1(newPath := None), UpdFailed e)
               | None \<Rightarrow>
                   let fs2 = fs1(backup := None) in
                   if \<not> atAsideOk t \<or> fs2 exe = None then (fs2(newPath := None), UpdFailed UpdMoveAside)
                   else
                     let fs3 = rename exe backup fs2 in
                     if \<not> atInstallOk t
                     then (if atRollbackOk t then rename backup exe fs3 else fs3, UpdFailed UpdInstall)
                     else (rename newPath exe fs3, relaunched t exe)))"

section \<open>Polling\<close>

definition latestTag :: "attempt \<Rightarrow> updErr + string" where
  "latestTag t = (case atTag t of
       NetError e \<Rightarrow> Inl (UpdNet e)
     | NetAnswer status body decodeErr \<Rightarrow>
         if status \<noteq> 200 then Inl (UpdStatus status)
         else if decodeErr then Inl (UpdNet '''')
         else if atTagName t = '''' then Inl UpdNoTag
         else Inr (atTagName t))"

definition checkOnce ::
  "(bytes \<Rightarrow> bytes \<Rightarrow> bytes \<Rightarrow> bool) \<Rightarrow> string \<Rightarrow> Config \<Rightarrow> attempt \<Rightarrow> files \<Rightarrow> files \<times> updOut" where
  "checkOnce edv builtinKey cfg t fs = (case latestTag t of
       Inl e \<Rightarrow> (fs, UpdFailed e)
     | Inr latest \<Rightarrow>
         if \<not> newer (ucCurrent cfg) latest then (fs, UpdCurrent) else apply_update edv builtinKey cfg t fs)"

text \<open>
  \<^verbatim>\<open>Run\<close>: one attempt per tick until the context ends (the list) or the process exits. The result
  tells which: it polls on, or it exited with the named executable started or not.
\<close>

datatype pollEnd = PollsOn | ExitStarted string | ExitNotStarted string

fun pollLoop ::
  "(bytes \<Rightarrow> bytes \<Rightarrow> bytes \<Rightarrow> bool) \<Rightarrow> string \<Rightarrow> Config \<Rightarrow> attempt list \<Rightarrow> files \<Rightarrow> files \<times> pollEnd" where
  "pollLoop edv builtinKey cfg [] fs = (fs, PollsOn)"
| "pollLoop edv builtinKey cfg (t # ts) fs = (case checkOnce edv builtinKey cfg t fs of
       (fs', UpdRelaunched exe) \<Rightarrow> (fs', ExitStarted exe)
     | (fs', UpdStartFailed exe) \<Rightarrow> (fs', ExitNotStarted exe)
     | (fs', _) \<Rightarrow> pollLoop edv builtinKey cfg ts fs')"

definition RunUpdates ::
  "(bytes \<Rightarrow> bytes \<Rightarrow> bytes \<Rightarrow> bool) \<Rightarrow> string \<Rightarrow> Config \<Rightarrow> attempt list \<Rightarrow> files \<Rightarrow> files \<times> pollEnd" where
  "RunUpdates edv builtinKey cfg ts fs =
     (if ucCurrent cfg = ''dev'' \<or> ucCurrent cfg = '''' then (fs, PollsOn) else pollLoop edv builtinKey cfg ts fs)"


section \<open>The order on versions\<close>

text \<open>The reference: numeric components compared from the left, missing ones counting as 0.\<close>

fun version_less :: "nat list \<Rightarrow> nat list \<Rightarrow> bool" where
  "version_less [] [] = False"
| "version_less [] (l # ls) = (0 < l \<or> version_less [] ls)"
| "version_less (c # cs) [] = (c = 0 \<and> version_less cs [])"
| "version_less (c # cs) (l # ls) = (c < l \<or> c = l \<and> version_less cs ls)"

text \<open>A component as text: a number and a suffix such as \<^verbatim>\<open>-rc1\<close> that does not start with a digit.\<close>

definition component :: "nat \<times> string \<Rightarrow> string" where
  "component p = dec (fst p) @ snd p"

definition component_ok :: "nat \<times> string \<Rightarrow> bool" where
  "component_ok p \<longleftrightarrow> fst p < 2 ^ 63 \<and> CHR ''.'' \<notin> set (snd p) \<and> (snd p = [] \<or> \<not> is_digit (hd (snd p)))"

fun version_text :: "(nat \<times> string) list \<Rightarrow> string" where
  "version_text [] = ''''"
| "version_text [p] = component p"
| "version_text (p # q # ps) = component p @ CHR ''.'' # version_text (q # ps)"

lemma split_version_text:
  "list_all component_ok ps \<Longrightarrow> ps \<noteq> [] \<Longrightarrow> split_on CHR ''.'' (version_text ps) = map component ps"
proof (induction ps rule: version_text.induct)
  case (2 p)
  then have "CHR ''.'' \<notin> set (component p)"
    using dec_digits [of "fst p"] by (auto simp: component_def component_ok_def list_all_iff is_digit_def)
  then show ?case by (simp add: split_on_single)
next
  case (3 p q ps)
  then have "CHR ''.'' \<notin> set (component p)"
    using dec_digits [of "fst p"] by (auto simp: component_def component_ok_def list_all_iff is_digit_def)
  then show ?case using 3 by (simp add: split_on_append)
qed simp

lemma takeWhile_component: "component_ok p \<Longrightarrow> takeWhile is_digit (component p) = dec (fst p)"
proof -
  assume p: "component_ok p"
  have "takeWhile is_digit (dec (fst p) @ snd p) = dec (fst p) @ takeWhile is_digit (snd p)"
    using dec_digits [of "fst p"] by (intro takeWhile_append2) (auto simp: list_all_iff)
  also have "takeWhile is_digit (snd p) = []" using p by (cases "snd p") (auto simp: component_ok_def)
  finally show ?thesis by (simp add: component_def)
qed

lemma numAt_components:
  "list_all component_ok ps \<Longrightarrow> numAt (map component ps) i = (if i < length ps then int (fst (ps ! i)) else 0)"
proof (cases "i < length ps")
  case True
  moreover assume "list_all component_ok ps"
  ultimately have p: "component_ok (ps ! i)" by (simp add: list_all_length)
  then have "fst (ps ! i) < 2 ^ 63" by (simp add: component_ok_def)
  then show ?thesis using True takeWhile_component [OF p] by (simp add: numAt_def atoi_dec)
qed (simp add: numAt_def)

lemma version_less_nil: "\<not> version_less cs []"
  by (induction cs) auto

lemma newer_from_less:
  assumes "list_all component_ok cs" "list_all component_ok ls"
  shows "newer_from (map component cs) (map component ls) i = version_less (drop i (map fst cs)) (drop i (map fst ls))"
proof (induction "max (length cs) (length ls) - i" arbitrary: i rule: less_induct)
  case less
  note n = newer_from.simps [of "map component cs" "map component ls" i] numAt_components [OF assms(1)] numAt_components [OF assms(2)]
  show ?case
  proof (cases "i < length cs \<or> i < length ls")
    case True
    have ih: "newer_from (map component cs) (map component ls) (i + 1) =
        version_less (drop (i + 1) (map fst cs)) (drop (i + 1) (map fst ls))"
      by (rule less) (use True in auto)
    have d: "drop i (map fst ps) = (if i < length ps then fst (ps ! i) # drop (i + 1) (map fst ps) else [])" for ps :: "(nat \<times> string) list"
      by (simp add: Cons_nth_drop_Suc [symmetric])
    show ?thesis using True ih
      by (auto simp: n d [of cs] d [of ls] version_less_nil Let_def simp del: drop_map)
  qed (simp add: n(1))
qed

lemma version_less_irrefl: "\<not> version_less cs cs"
  by (induction cs) auto

lemma version_text_inj_less:
  assumes "list_all component_ok cs" "list_all component_ok ls" "cs \<noteq> []" "ls \<noteq> []" "version_text cs = version_text ls"
  shows "map component cs = map component ls"
  using split_version_text [OF assms(1,3)] split_version_text [OF assms(2,4)] assms(5) by simp

text \<open>
  The decision to update is the order on versions: for versions of numeric components, each with an
  optional suffix, and an optional leading \<open>v\<close> on either, a release counts as newer exactly when its
  components are greater from the left, missing ones counting as 0.
\<close>

theorem newer_is_version_order:
  assumes "list_all component_ok cs" "list_all component_ok ls" "cs \<noteq> []" "ls \<noteq> []"
    and "v \<in> {'''', ''v''}" "w \<in> {'''', ''v''}"
  shows "newer (v @ version_text cs) (w @ version_text ls) \<longleftrightarrow> version_less (map fst cs) (map fst ls)"
proof -
  have t: "trimPrefix (x @ version_text ps) ''v'' = version_text ps" if x: "x \<in> {'''', ''v''}" and ps: "ps \<noteq> []" for x and ps :: "(nat \<times> string) list"
  proof -
    obtain p rest where "version_text ps = component p @ rest"
      using ps by (cases ps rule: version_text.cases) (auto intro: that [of _ "[]"])
    moreover have "hd (dec (fst p)) \<noteq> CHR ''v''" using dec_digits [of "fst p"] by (cases "dec (fst p)") (auto simp: is_digit_def)
    ultimately have "\<not> hasPrefix (version_text ps) ''v''"
      by (cases "dec (fst p)") (auto simp: component_def hasPrefix_def)
    with x show ?thesis by (auto simp: trimPrefix_def hasPrefix_def)
  qed
  have "newer_from (map component cs) (map component ls) 0 = version_less (map fst cs) (map fst ls)"
    using newer_from_less [OF assms(1,2), of 0] by simp
  moreover have "\<not> version_less (map fst cs) (map fst ls)" if "v @ version_text cs = w @ version_text ls"
  proof -
    have "version_text cs = version_text ls" using that t [OF assms(5,3)] t [OF assms(6,4)] by metis
    then have "map component cs = map component ls" by (rule version_text_inj_less [OF assms(1-4)])
    then have "length cs = length ls" "\<And>i. i < length cs \<Longrightarrow> int (fst (cs ! i)) = int (fst (ls ! i))"
      using numAt_components [OF assms(1)] numAt_components [OF assms(2)] map_eq_imp_length_eq by (metis, metis)
    then have "map fst cs = map fst ls" by (simp add: list_eq_iff_nth_eq)
    then show ?thesis by (simp add: version_less_irrefl)
  qed
  ultimately show ?thesis
    using t [OF assms(5,3)] t [OF assms(6,4)] split_version_text [OF assms(1,3)] split_version_text [OF assms(2,4)]
    by (auto simp: newer_def)
qed

theorem newer_is_version_order_witness:
  "newer ''1.2.3'' ''v1.10'' \<longleftrightarrow> version_less [1, 2, 3] [1, 10]"
proof -
  have "newer ('''' @ version_text [(1, ''''), (2, ''''), (3, '''')]) (''v'' @ version_text [(1, ''''), (10, '''')]) \<longleftrightarrow>
      version_less (map fst [(1, '''' :: string), (2, ''''), (3, '''')]) (map fst [(1, '''' :: string), (10, '''')])"
    by (rule newer_is_version_order [of "[(1, ''''), (2, ''''), (3, '''')]" "[(1, ''''), (10, '''')]" "''''" "''v''"])
      (simp_all add: component_ok_def)
  moreover have "dec 1 = ''1''" "dec 2 = ''2''" "dec 3 = ''3''" "dec 10 = ''10''"
    by (simp_all add: dec.simps, code_simp+)
  ultimately show ?thesis by (simp add: component_def)
qed

section \<open>What an update may run\<close>

text \<open>The key that counts, and a content that may be installed: what was downloaded, signed under that key.\<close>

definition signingKey :: "string \<Rightarrow> Config \<Rightarrow> string" where
  "signingKey builtinKey cfg = (if ucPublicKeyHex cfg = '''' then builtinKey else ucPublicKeyHex cfg)"

definition signed_release ::
  "(bytes \<Rightarrow> bytes \<Rightarrow> bytes \<Rightarrow> bool) \<Rightarrow> string \<Rightarrow> attempt \<Rightarrow> bytes \<Rightarrow> bool" where
  "signed_release edv key t content \<longleftrightarrow> key \<noteq> '''' \<and>
     (\<exists>body. atBinary t = NetAnswer 200 body False \<and> content = take maxDownloadSize body) \<and>
     (\<exists>pub sig. hexDecode (trimSpace key) = Some pub \<and> length pub = 32 \<and>
        fetchSignature (atSig t) = Inr sig \<and> length sig = 64 \<and> edv pub content sig)"

lemma verify_None: "verify edv key data sig = None \<longleftrightarrow>
    (\<exists>pub. hexDecode (trimSpace key) = Some pub \<and> length pub = 32 \<and> length sig = 64 \<and> edv pub data sig)"
  by (auto simp: verify_def PublicKeySize_def SignatureSize_def split: option.splits)

lemma download_cases:
  assumes "download t dst fs = (fs1, None)"
  obtains body where "atBinary t = NetAnswer 200 body False" "fs1 = fs(dst \<mapsto> take maxDownloadSize body)"
  using assms by (auto simp: download_def split: httpAnswer.splits if_splits)

lemma download_frame: "download t dst fs = (fs1, r) \<Longrightarrow> p \<noteq> dst \<Longrightarrow> fs1 p = fs p"
  by (auto simp: download_def split: httpAnswer.splits if_splits)

lemma verified_download_signed:
  assumes "download t dst fs = (fs1, None)" "verifyDownload edv builtinKey cfg t dst fs1 = None"
  shows "\<exists>content. fs1 dst = Some content \<and> signed_release edv (signingKey builtinKey cfg) t content"
  using assms by (elim download_cases)
    (auto simp: verifyDownload_def signed_release_def signingKey_def verify_None Let_def
       split: if_splits option.splits sum.splits)

lemma suffix_neq [simp]: "p @ ''.new'' \<noteq> p" "p @ ''.old'' \<noteq> p" "p @ ''.new'' \<noteq> p @ ''.old''"
  by simp_all

text \<open>The executable is replaced only by a verified content, and then the process exits.\<close>

lemma apply_update_replaced:
  assumes "apply_update edv builtinKey cfg t fs = (fs', out)" "out \<in> {UpdRelaunched path, UpdStartFailed path}"
  shows "out = relaunched t path \<and> atExe t = Some path \<and>
    (\<exists>content. fs' path = Some content \<and> signed_release edv (signingKey builtinKey cfg) t content)"
proof -
  obtain exe where exe: "atExe t = Some exe" using assms by (cases "atExe t") (auto simp: apply_update_def)
  obtain fs1 r where d: "download t (exe @ ''.new'') fs = (fs1, r)" by fastforce
  have r: "r = None" and v: "verifyDownload edv builtinKey cfg t (exe @ ''.new'') fs1 = None"
    and fs': "fs' exe = fs1 (exe @ ''.new'')" and p: "out = relaunched t exe"
    using assms by (auto simp: apply_update_def exe d Let_def rename_def split: option.splits if_splits)
  have "path = exe" using p assms(2) by (auto simp: relaunched_def split: if_splits)
  with verified_download_signed [OF d [unfolded r] v] show ?thesis using exe fs' p by auto
qed

lemma apply_update_kept:
  assumes "apply_update edv builtinKey cfg t fs = (fs', out)" "\<And>path. out \<notin> {UpdRelaunched path, UpdStartFailed path}"
    and "atExe t = None \<or> atExe t = Some exe"
  shows "fs' exe = fs exe \<or> fs' exe = None \<and> fs' (exe @ ''.old'') = fs exe \<and> \<not> atInstallOk t \<and> \<not> atRollbackOk t"
proof (cases "atExe t")
  case None
  then show ?thesis using assms(1) by (simp add: apply_update_def)
next
  case (Some e)
  then have e: "atExe t = Some exe" using assms(3) by simp
  obtain fs1 r where d: "download t (exe @ ''.new'') fs = (fs1, r)" by fastforce
  have "fs1 exe = fs exe" by (rule download_frame [OF d]) simp
  then show ?thesis using assms(1,2)
    by (auto simp: apply_update_def relaunched_def e d Let_def rename_def split: option.splits if_splits)
qed

text \<open>What a run leaves at the path of the executable, by how it ended.\<close>

definition poll_result ::
  "(bytes \<Rightarrow> bytes \<Rightarrow> bytes \<Rightarrow> bool) \<Rightarrow> string \<Rightarrow> Config \<Rightarrow> attempt list \<Rightarrow> string \<Rightarrow> files \<Rightarrow> files \<Rightarrow> pollEnd \<Rightarrow> bool" where
  "poll_result edv builtinKey cfg ts exe fs fs' r \<longleftrightarrow>
     (let installed = (\<lambda>t. \<exists>content. fs' exe = Some content \<and>
            signed_release edv (signingKey builtinKey cfg) t content \<and> newer (ucCurrent cfg) (atTagName t))
      in case r of
           PollsOn \<Rightarrow> fs' exe = fs exe \<or> fs' exe = None \<and> (\<exists>t\<in>set ts. \<not> atInstallOk t \<and> \<not> atRollbackOk t)
         | ExitStarted path \<Rightarrow> path = exe \<and> (\<exists>t\<in>set ts. atStartOk t \<and> installed t)
         | ExitNotStarted path \<Rightarrow> path = exe \<and> (\<exists>t\<in>set ts. \<not> atStartOk t \<and> installed t))"

lemma pollLoop_outcome:
  assumes "pollLoop edv builtinKey cfg ts fs = (fs', r)" "\<forall>t\<in>set ts. atExe t = None \<or> atExe t = Some exe"
  shows "poll_result edv builtinKey cfg ts exe fs fs' r"
  using assms
proof (induction ts arbitrary: fs)
  case (Cons t ts)
  obtain fs1 out where c: "checkOnce edv builtinKey cfg t fs = (fs1, out)" by fastforce
  have e: "atExe t = None \<or> atExe t = Some exe" using Cons.prems(2) by simp
  show ?case
  proof (cases "\<exists>path. out \<in> {UpdRelaunched path, UpdStartFailed path}")
    case True
    then obtain path where o: "out \<in> {UpdRelaunched path, UpdStartFailed path}" by blast
    have n: "newer (ucCurrent cfg) (atTagName t)" and a: "apply_update edv builtinKey cfg t fs = (fs1, out)"
      using c o by (auto simp: checkOnce_def latestTag_def split: sum.splits if_splits httpAnswer.splits)
    from apply_update_replaced [OF a o] obtain content where
      x: "out = relaunched t path" "path = exe" "fs1 exe = Some content" "signed_release edv (signingKey builtinKey cfg) t content"
      using e by auto
    have "fs' = fs1" "r = (if atStartOk t then ExitStarted exe else ExitNotStarted exe)"
      using Cons.prems(1) x(1,2) by (auto simp: c relaunched_def split: if_splits)
    then show ?thesis using n x(3,4) by (auto simp: poll_result_def)
  next
    case False
    then have "pollLoop edv builtinKey cfg ts fs1 = (fs', r)"
      using Cons.prems(1) by (cases out) (auto simp: c)
    from Cons.IH [OF this] have ih: "poll_result edv builtinKey cfg ts exe fs1 fs' r" using Cons.prems(2) by simp
    have "fs1 exe = fs exe \<or> fs1 exe = None \<and> \<not> atInstallOk t \<and> \<not> atRollbackOk t"
    proof (cases "apply_update edv builtinKey cfg t fs = (fs1, out)")
      case True
      show ?thesis using apply_update_kept [OF True _ e] False by blast
    next
      case no: False
      then have "fs1 = fs" using c by (auto simp: checkOnce_def split: sum.splits if_splits)
      then show ?thesis by simp
    qed
    then show ?thesis using ih by (cases r) (auto simp: poll_result_def Let_def)
  qed
qed (simp add: poll_result_def)

lemma RunUpdates_outcome:
  assumes "RunUpdates edv builtinKey cfg ts fs = (fs', r)" "\<forall>t\<in>set ts. atExe t = None \<or> atExe t = Some exe"
  shows "poll_result edv builtinKey cfg ts exe fs fs' r"
proof (cases "ucCurrent cfg = ''dev'' \<or> ucCurrent cfg = ''''")
  case True
  then show ?thesis using assms(1) by (auto simp: RunUpdates_def poll_result_def)
next
  case False
  then show ?thesis using pollLoop_outcome assms by (simp add: RunUpdates_def)
qed

text \<open>An attempt that goes well does update: a newer release, a content signed under the key, no failing call.\<close>

lemma good_attempt_relaunches:
  assumes "latestTag t = Inr tag" "newer (ucCurrent cfg) tag" "atExe t = Some exe" "fs exe \<noteq> None"
    and "signed_release edv (signingKey builtinKey cfg) t content"
    and "atOpenOk t" "atCloseOk t" "atReadOk t" "atAsideOk t" "atInstallOk t" "atStartOk t"
  shows "\<exists>fs'. checkOnce edv builtinKey cfg t fs = (fs', UpdRelaunched exe) \<and>
    fs' exe = Some content \<and> fs' (exe @ ''.old'') = fs exe"
proof -
  obtain body where b: "atBinary t = NetAnswer 200 body False" "content = take maxDownloadSize body"
    using assms(5) by (auto simp: signed_release_def)
  have d: "download t (exe @ ''.new'') fs = (fs(exe @ ''.new'' \<mapsto> content), None)"
    using assms b by (simp add: download_def)
  have v: "verifyDownload edv builtinKey cfg t (exe @ ''.new'') (fs(exe @ ''.new'' \<mapsto> content)) = None"
    using assms(5,8) by (auto simp: verifyDownload_def signed_release_def signingKey_def verify_None Let_def split: if_splits)
  show ?thesis using assms d v
    by (simp add: checkOnce_def apply_update_def relaunched_def rename_def Let_def)
qed

lemma hexDecode_zeros: "hexDecode (replicate (n + n) CHR ''0'') = Some (replicate n 0)"
proof (induction n)
  case (Suc n)
  have "hex_val CHR ''0'' = Some 0" by code_simp
  then show ?case using Suc by simp
qed simp



end
