(* ===== verification/Signing.thy ===== *)
theory Signing
  imports SelfUpdate
begin

text \<open>
  The release helper \<^verbatim>\<open>scripts/sign/main.go\<close>: deriving the public key that is compiled into the binaries
  and writing the signature file of each binary, the other end of \<^theory_text>\<open>SelfUpdate\<close>. The key derivation and
  signing functions of \<^verbatim>\<open>crypto/ed25519\<close> are arguments. A failed run ends the process, so it is an error
  value together with the file system it leaves.
\<close>

definition SeedSize :: nat where "SeedSize = 32"

datatype signErr =
    SignUsage string
  | SignUnknown string
  | SignSeedHex
  | SignSeedLength nat
  | SignRandom
  | SignRead string
  | SignWrite string

definition privFromSeed :: "(bytes \<Rightarrow> 'k) \<Rightarrow> string \<Rightarrow> signErr + 'k" where
  "privFromSeed newKey seedHex = (case hexDecode (trimSpace seedHex) of
       None \<Rightarrow> Inl SignSeedHex
     | Some seed \<Rightarrow> if length seed \<noteq> SeedSize then Inl (SignSeedLength (length seed)) else Inr (newKey seed))"

text \<open>What the commands print: the two lines of a fresh key, or the public key of a seed.\<close>

definition genkey :: "(bytes \<Rightarrow> 'k) \<Rightarrow> ('k \<Rightarrow> bytes) \<Rightarrow> bytes option \<Rightarrow> signErr + string" where
  "genkey newKey public rnd = (case rnd of
       None \<Rightarrow> Inl SignRandom
     | Some seed \<Rightarrow> Inr (''private (seed, keep secret): '' @ hex_bytes seed @ nl @
         ''public  (compile in):        '' @ hex_bytes (public (newKey seed)) @ nl))"

definition pubkeyText :: "(bytes \<Rightarrow> 'k) \<Rightarrow> ('k \<Rightarrow> bytes) \<Rightarrow> string \<Rightarrow> signErr + string" where
  "pubkeyText newKey public seedHex =
     map_sum id (\<lambda>k. hex_bytes (public k) @ nl) (privFromSeed newKey seedHex)"

text \<open>
  \<^verbatim>\<open>signFiles\<close>; \<open>wfail f = Some c\<close> says that writing \<open>f\<close> fails and leaves the content \<open>c\<close>.
\<close>

fun signFiles ::
  "('k \<Rightarrow> bytes \<Rightarrow> bytes) \<Rightarrow> (string \<Rightarrow> bytes option option) \<Rightarrow> 'k \<Rightarrow> string list \<Rightarrow> files \<Rightarrow>
     files \<times> (signErr + string)" where
  "signFiles sign wfail priv [] fs = (fs, Inr '''')"
| "signFiles sign wfail priv (f # rest) fs = (case fs f of
       None \<Rightarrow> (fs, Inl (SignRead f))
     | Some data \<Rightarrow>
         (case wfail (f @ ''.sig'') of
            Some left \<Rightarrow> (fs(f @ ''.sig'' := left), Inl (SignWrite f))
          | None \<Rightarrow>
              (case signFiles sign wfail priv rest (fs(f @ ''.sig'' \<mapsto> bytes_of (hex_bytes (sign priv data)))) of
                 (fs', Inl e) \<Rightarrow> (fs', Inl e)
               | (fs', Inr out) \<Rightarrow> (fs', Inr (''signed '' @ f @ '' -> '' @ f @ ''.sig'' @ nl @ out)))))"

definition signMain ::
  "(bytes \<Rightarrow> 'k) \<Rightarrow> ('k \<Rightarrow> bytes) \<Rightarrow> ('k \<Rightarrow> bytes \<Rightarrow> bytes) \<Rightarrow> bytes option \<Rightarrow> (string \<Rightarrow> bytes option option) \<Rightarrow>
     string list \<Rightarrow> files \<Rightarrow> files \<times> (signErr + string)" where
  "signMain newKey public sign rnd wfail args fs = (case args of
       [] \<Rightarrow> (fs, Inl (SignUsage ''usage: sign genkey|pubkey|sign ...''))
     | cmd # rest \<Rightarrow>
         if cmd = ''genkey'' then (fs, genkey newKey public rnd)
         else if cmd = ''pubkey'' then
           (case rest of
              [seedHex] \<Rightarrow> (fs, pubkeyText newKey public seedHex)
            | _ \<Rightarrow> (fs, Inl (SignUsage ''usage: sign pubkey <seedhex>'')))
         else if cmd = ''sign'' then
           (case rest of
              seedHex # f # others \<Rightarrow>
                (case privFromSeed newKey seedHex of
                   Inl e \<Rightarrow> (fs, Inl e)
                 | Inr priv \<Rightarrow> signFiles sign wfail priv (f # others) fs)
            | _ \<Rightarrow> (fs, Inl (SignUsage ''usage: sign sign <seedhex> <file>...'')))
         else (fs, Inl (SignUnknown cmd)))"

section \<open>Hexadecimal text there and back\<close>

lemma hex_val_digit: "n < 16 \<Longrightarrow> hex_val (hex_digit n) = Some n"
proof -
  assume n: "n < 16"
  have "(of_char (char_of (48 + n) :: char) :: nat) = 48 + n" if "n < 10"
    using that by (simp add: of_char_of)
  moreover have "(of_char (char_of (87 + n) :: char) :: nat) = 87 + n"
    using n by (simp add: of_char_of)
  ultimately show ?thesis using n by (simp add: hex_val_def hex_digit_def)
qed

lemma hexDecode_hex_bytes [codec]: "hexDecode (hex_bytes b) = Some b"
proof (induction b)
  case Nil
  then show ?case by (simp add: hex_bytes_def)
next
  case (Cons w b)
  have "unat w div 16 < 16" "unat w mod 16 < 16" using unat_u8_less [of w] by auto
  then have v: "hex_val (hex_digit (unat w div 16)) = Some (unat w div 16)"
      "hex_val (hex_digit (unat w mod 16)) = Some (unat w mod 16)"
    by (simp_all add: hex_val_digit)
  have "16 * (unat w div 16) + unat w mod 16 = unat w" by simp
  then have "(of_nat (16 * (unat w div 16) + unat w mod 16) :: u8) = w"
    by (simp only:) simp
  then show ?case using Cons v
    by (simp add: hex_bytes_def del: of_nat_add of_nat_mult mult_div_mod_eq)
qed

lemma trim_hex: "trimSpace (hex_bytes b) = hex_bytes b"
proof (rule trimSpace_printable)
  have "printable (hex_digit n)" if "n < 16" for n
  proof -
    have "printable (char_of (48 + n))" if "n < 10" using that by (simp add: printable_def of_char_of)
    moreover have "printable (char_of (87 + n))" using that by (simp add: printable_def of_char_of)
    ultimately show ?thesis by (simp add: hex_digit_def)
  qed
  moreover have "unat w div 16 < 16" "unat w mod 16 < 16" for w :: u8 using unat_u8_less [of w] by auto
  ultimately show "\<forall>c\<in>set (hex_bytes b). printable c" by (auto simp: hex_bytes_def)
qed


section \<open>A signed release is installed\<close>

lemma signFiles_keeps:
  "signFiles sign wfail priv fl fs = (fs', Inr out) \<Longrightarrow> \<forall>g\<in>set fl. g @ ''.sig'' \<noteq> p \<Longrightarrow> fs' p = fs p"
proof (induction sign wfail priv fl fs arbitrary: fs' out rule: signFiles.induct)
  case (2 sign wfail priv f rest fs)
  then obtain data where d: "fs f = Some data" "wfail (f @ ''.sig'') = None"
    by (auto split: option.splits)
  obtain r where s: "signFiles sign wfail priv rest (fs(f @ ''.sig'' \<mapsto> bytes_of (hex_bytes (sign priv data)))) = (fs', Inr r)"
    using 2(2) d by (auto split: prod.splits sum.splits)
  have "fs' p = (fs(f @ ''.sig'' \<mapsto> bytes_of (hex_bytes (sign priv data)))) p"
    by (rule 2(1) [OF d s]) (use 2(3) in simp)
  then show ?case using 2(3) by auto
qed simp

lemma signFiles_signs:
  assumes "signFiles sign wfail priv fl fs = (fs', Inr out)" "f \<in> set fl" "fs f = Some data"
    and "\<forall>g\<in>set fl. g @ ''.sig'' \<noteq> f"
  shows "fs' (f @ ''.sig'') = Some (bytes_of (hex_bytes (sign priv data)))"
  using assms
proof (induction sign wfail priv fl fs arbitrary: fs' out rule: signFiles.induct)
  case (2 sign wfail priv g rest fs)
  then obtain gd where d: "fs g = Some gd" "wfail (g @ ''.sig'') = None"
    by (auto split: option.splits)
  let ?fs1 = "fs(g @ ''.sig'' \<mapsto> bytes_of (hex_bytes (sign priv gd)))"
  obtain r where s: "signFiles sign wfail priv rest ?fs1 = (fs', Inr r)"
    using 2(2) d by (auto split: prod.splits sum.splits)
  show ?case
  proof (cases "f \<in> set rest")
    case True
    then show ?thesis using 2(1) [OF d s True] 2(4,5) by (auto split: if_splits)
  next
    case False
    then have g: "g = f" using 2(3) by simp
    have "fs' (f @ ''.sig'') = ?fs1 (f @ ''.sig'')" by (rule signFiles_keeps [OF s]) (use False in auto)
    then show ?thesis using d 2(4) g by simp
  qed
qed simp

text \<open>
  C31. What the release helper signs, the updater installs: when the public key printed for a seed is compiled
  in, a file signed with that seed is served as a newer release together with the signature file written for
  it, and no call of the attempt fails, then the updater accepts the signature and relaunches exactly that
  file. The laws of the signature scheme are hypotheses.
\<close>

theorem signed_release_installs:
  assumes "\<forall>seed. length seed = 32 \<longrightarrow> length (public (newKey seed)) = 32"
    and "\<forall>seed m. length seed = 32 \<longrightarrow> length (sign (newKey seed) m) = 64 \<and> edv (public (newKey seed)) m (sign (newKey seed) m)"
    and "pubkeyText newKey public seedHex = Inr printed" and "builtinKey = trimSuffix printed nl"
    and "signMain newKey public sign rnd wfail (''sign'' # seedHex # fl) fs = (fs', Inr out)"
    and "f \<in> set fl" "fs f = Some data" "\<forall>g\<in>set fl. g @ ''.sig'' \<noteq> f" "length data \<le> maxDownloadSize"
    and "atBinary t = NetAnswer 200 data False" "fs' (f @ ''.sig'') = Some sig" "atSig t = NetAnswer 200 sig False"
    and "ucPublicKeyHex cfg = ''''" "latestTag t = Inr tag" "newer (ucCurrent cfg) tag"
    and "atExe t = Some exe" "disk exe \<noteq> None"
    and "atOpenOk t" "atCloseOk t" "atReadOk t" "atAsideOk t" "atInstallOk t" "atStartOk t"
  shows "\<exists>disk'. checkOnce edv builtinKey cfg t disk = (disk', UpdRelaunched exe) \<and>
    disk' exe = Some data \<and> disk' (exe @ ''.old'') = disk exe"
proof -
  obtain seed where seed: "hexDecode (trimSpace seedHex) = Some seed" "length seed = 32"
    and printed: "printed = hex_bytes (public (newKey seed)) @ nl"
    using assms(3) by (auto simp: pubkeyText_def privFromSeed_def SeedSize_def split: option.splits if_splits)
  have "signFiles sign wfail (newKey seed) fl fs = (fs', Inr out)"
    using assms(5,6) seed by (cases fl) (auto simp: signMain_def privFromSeed_def SeedSize_def)
  from signFiles_signs [OF this assms(6-8)] assms(11)
  have sig: "sig = bytes_of (hex_bytes (sign (newKey seed) data))" by simp
  have key: "builtinKey = hex_bytes (public (newKey seed))" using assms(4) printed by simp
  have len: "length (hex_bytes b) = 2 * length b" for b :: bytes
    by (induction b) (auto simp: hex_bytes_def)
  have law: "length (public (newKey seed)) = 32" "length (sign (newKey seed) data) = 64"
      "edv (public (newKey seed)) data (sign (newKey seed) data)"
    using assms(1,2) seed(2) by auto
  have ne: "builtinKey \<noteq> ''''" using law(1) len [of "public (newKey seed)"] key by auto
  have "fetchSignature (atSig t) = Inr (sign (newKey seed) data)"
    using assms(12) law(2) len by (simp add: fetchSignature_def sig trim_hex codec)
  then have "signed_release edv (signingKey builtinKey cfg) t data"
    using assms(9,10,13) law ne by (simp add: signed_release_def signingKey_def key trim_hex codec)
  from good_attempt_relaunches [where fs = disk, OF assms(14-17) this assms(18-23)] show ?thesis .
qed


theorem signed_release_installs_witness:
  "\<exists>disk'. checkOnce (\<lambda>pub m sig. pub = take 32 sig) (replicate 64 CHR ''0'')
      \<lparr>ucRepo = '''', ucAsset = '''', ucCurrent = ''1.0'', ucPublicKeyHex = ''''\<rparr>
      \<lparr>atTag = NetAnswer 200 [] False, atTagName = ''1.1'', atExe = Some ''/vlgr'',
       atBinary = NetAnswer 200 [2] False, atSig = NetAnswer 200 (bytes_of (replicate 128 CHR ''0'')) False,
       atOpenOk = True, atCloseOk = True, atReadOk = True, atAsideOk = True, atInstallOk = True, atRollbackOk = True, atStartOk = True\<rparr>
      [''/vlgr'' \<mapsto> [1]] = (disk', UpdRelaunched ''/vlgr'') \<and> disk' ''/vlgr'' = Some [2] \<and> disk' (''/vlgr'' @ ''.old'') = Some [1]"
proof -
  let ?public = "\<lambda>k :: bytes. k" and ?sign = "\<lambda>(k :: bytes) (m :: bytes). k @ k"
  let ?edv = "\<lambda>pub (m :: bytes) (sig :: bytes). pub = take 32 sig"
  define fs' where "fs' = [''vlgr'' \<mapsto> [2 :: u8], ''vlgr.sig'' \<mapsto> bytes_of (hex_bytes (replicate 64 0))]"
  have "hex_digit 0 = CHR ''0''" by code_simp
  then have hex: "hex_bytes (replicate n 0) = replicate (n + n) CHR ''0''" for n
    by (induction n) (simp_all add: hex_bytes_def)
  have z: "hexDecode (trimSpace (replicate 64 CHR ''0'')) = Some (replicate 32 0)"
    using hex [of 32] trim_hex [of "replicate 32 0"] hexDecode_hex_bytes [of "replicate 32 0"] by simp
  have seed: "privFromSeed (\<lambda>s. s) (replicate 64 CHR ''0'') = Inr (replicate 32 0)"
    by (simp add: privFromSeed_def z SeedSize_def)
  have printed: "pubkeyText (\<lambda>s. s) ?public (replicate 64 CHR ''0'') = Inr (replicate 64 CHR ''0'' @ nl)"
    using hex [of 32] by (simp add: pubkeyText_def seed)
  have run: "signMain (\<lambda>s. s) ?public ?sign None (\<lambda>_. None) (''sign'' # replicate 64 CHR ''0'' # [''vlgr'']) [''vlgr'' \<mapsto> [2]]
      = (fs', Inr (''signed '' @ ''vlgr'' @ '' -> '' @ ''vlgr'' @ ''.sig'' @ nl))"
    using seed by (simp add: signMain_def fs'_def replicate_add [symmetric])
  have newer: "newer ''1.0'' ''1.1''" by code_simp
  show ?thesis
    using signed_release_installs [of ?public "\<lambda>s. s" ?sign ?edv "replicate 64 CHR ''0''" "replicate 64 CHR ''0'' @ nl" "replicate 64 CHR ''0''"
        None "\<lambda>_. None" "[''vlgr'']" "[''vlgr'' \<mapsto> [2]]" fs' _ "''vlgr''" "[2]"
        "\<lparr>atTag = NetAnswer 200 [] False, atTagName = ''1.1'', atExe = Some ''/vlgr'',
       atBinary = NetAnswer 200 [2] False, atSig = NetAnswer 200 (bytes_of (replicate 128 CHR ''0'')) False,
       atOpenOk = True, atCloseOk = True, atReadOk = True, atAsideOk = True, atInstallOk = True, atRollbackOk = True, atStartOk = True\<rparr>"
        "bytes_of (replicate 128 CHR ''0'')" "\<lparr>ucRepo = '''', ucAsset = '''', ucCurrent = ''1.0'', ucPublicKeyHex = ''''\<rparr>"
        "''1.1''" "''/vlgr''" "[''/vlgr'' \<mapsto> [1]]", OF _ _ printed _ run]
      hex [of 64] newer
    by (simp add: fs'_def maxDownloadSize_def latestTag_def)
qed

end
