(* ===== verification/Foreground.thy ===== *)
theory Foreground
  imports ClientFlow Tray
begin

text \<open>
  A running client with everything that acts on its tunnel at once: the traffic of the connection
  (\<^theory_text>\<open>ClientFlow\<close>), commands on the control socket (\<^theory_text>\<open>Control\<close>) and the tray (\<^theory_text>\<open>Tray\<close>), interleaved in any
  order. Commands wait for the read loop on a result channel each; a change of the forwards refreshes the
  tray, as \<^verbatim>\<open>SetOnChange(tray.Refresh)\<close> in \<^verbatim>\<open>cmd/client/main.go\<close> arranges.
\<close>

section \<open>The machine\<close>

record foreground =
  fgClient :: Client
  fgTray :: Tray
  fgSessions :: "ctlState list"
  fgTLS :: bool

definition fgTun :: "foreground \<Rightarrow> ClientTunnel" where
  "fgTun fg = clTun (fgClient fg)"

definition setTun :: "ClientTunnel \<Rightarrow> foreground \<Rightarrow> foreground" where
  "setTun ct fg = fg\<lparr>fgClient := (fgClient fg)\<lparr>clTun := ct\<rparr>\<rparr>"

definition fgView :: "foreground \<Rightarrow> view" where
  "fgView fg = (\<lambda>_. (fgTLS fg, ctForwards (fgTun fg)))"

text \<open>
  \<^verbatim>\<open>notifyChange\<close>. The code calls it whenever it has written the table; with an unchanged table a refresh
  changes nothing (\<open>Refresh_idem\<close> below), so it is left out there.
\<close>

definition notifyChange :: "ClientTunnel \<Rightarrow> foreground \<Rightarrow> foreground" where
  "notifyChange old fg =
     (if ctForwards (fgTun fg) = ctForwards old then fg else fg\<lparr>fgTray := Refresh (fgView fg) (fgTray fg)\<rparr>)"

text \<open>
  What happens: a step of the connection, a line on a control connection (it is answered at once or waits),
  the \<^verbatim>\<open>select\<close> of a waiting command, with its timer or without, the native menu settling, and a click.
\<close>

datatype fgEvent =
    FgNet cenv clientEvent
  | FgLine bool string
  | FgDone bool nat
  | FgMenu
  | FgClick bool trayClick

definition addSession :: "ClientTunnel \<times> ctlState \<Rightarrow> foreground \<Rightarrow> foreground" where
  "addSession r fg = (setTun (fst r) fg)\<lparr>fgSessions := fgSessions fg @ [snd r]\<rparr>"

definition trayCommand :: "bool \<Rightarrow> trayAction \<Rightarrow> ClientTunnel \<Rightarrow> (ClientTunnel \<times> ctlState) option" where
  "trayCommand wok a ct = (case a of
       CallAddPort t port sub \<Rightarrow> Some
         (case addStart wok port sub ct of
            (ct', Inl e) \<Rightarrow> (ct', CtlReply '''')
          | (ct', Inr ch) \<Rightarrow> (ct', CtlAdding ch))
     | CallRemovePort t port \<Rightarrow> Some
         (case delStart wok port ct of
            (ct', Inl e) \<Rightarrow> (ct', CtlReply '''')
          | (ct', Inr ch) \<Rightarrow> (ct', CtlDeleting ch port))
     | _ \<Rightarrow> None)"

fun fgStep :: "fgEvent \<Rightarrow> foreground \<Rightarrow> foreground" where
  "fgStep (FgNet e ev) fg = notifyChange (fgTun fg) (fg\<lparr>fgClient := clientStep (e, ev) (fgClient fg)\<rparr>)"
| "fgStep (FgLine wok line) fg = addSession (controlLine (\<lambda>s. s) '''' wok line (fgTun fg)) fg"
| "fgStep (FgDone fired i) fg =
     (if i < length (fgSessions fg)
      then (case controlDone (\<lambda>s. s) '''' fired (fgSessions fg ! i) (fgTun fg) of
              None \<Rightarrow> fg
            | Some (ct, reply) \<Rightarrow> (setTun ct fg)\<lparr>fgSessions := (fgSessions fg)[i := CtlReply reply]\<rparr>)
      else fg)"
| "fgStep FgMenu fg = fg\<lparr>fgTray := menuSettled (fgView fg) (fgTray fg)\<rparr>"
| "fgStep (FgClick wok c) fg = (case trayCommand wok (clicked (fgTray fg) c) (fgTun fg) of
       None \<Rightarrow> fg
     | Some r \<Rightarrow> addSession r fg)"

definition fgRun :: "fgEvent list \<Rightarrow> foreground \<Rightarrow> foreground" where
  "fgRun evs fg = fold fgStep evs fg"

text \<open>After \<^verbatim>\<open>Connect\<close>: the client starts and the tray is given the tunnel.\<close>

definition startForeground :: "bool \<Rightarrow> ClientTunnel \<Rightarrow> Dashboard option \<Rightarrow> Tray \<Rightarrow> foreground" where
  "startForeground tls ct dash tray =
     \<lparr>fgClient = startClient ct dash, fgTray = SetTunnel (\<lambda>_. (tls, ctForwards ct)) (Some 0) tray,
      fgSessions = [], fgTLS = tls\<rparr>"

section \<open>What a step of the connection does to the commands\<close>

type_synonym commands = "CForward list \<times> addr option \<times> (addErr + string) option list \<times> addr option \<times> (delErr + unit) option list"

definition commands_of :: "ClientTunnel \<Rightarrow> commands" where
  "commands_of ct = (ctForwards ct, ctAddCh ct, ctAddChans ct, ctDelCh ct, ctDelChans ct)"

lemma commands_upd [simp]:
  "commands_of (fst (writeFrame w f ct)) = commands_of ct" "commands_of (sendStreamClose w t r ct) = commands_of ct"
  "commands_of (writeResponse q w t r p ct) = commands_of ct" "commands_of (sendHTTPError q w t r c m ct) = commands_of ct"
  "commands_of (setRelay a rl ct) = commands_of ct" "commands_of (setBody a b ct) = commands_of ct"
  "commands_of (releaseLocal ct) = commands_of ct" "commands_of (releaseRelay ct) = commands_of ct"
  "commands_of (dropBody up rid ct) = commands_of ct" "commands_of (httpDone up rid ct) = commands_of ct"
  "commands_of (fst (openBody rid ct)) = commands_of ct" "commands_of (fst (takeCancel rid ct)) = commands_of ct"
  "commands_of (fst (openRelay rid ct)) = commands_of ct"
  by (simp_all add: commands_of_def writeFrame_def sendStreamClose_def writeResponse_def sendHTTPError_def setRelay_def
      setBody_def releaseLocal_def releaseRelay_def dropBody_def httpDone_def openBody_def takeCancel_def openRelay_def Let_def)

lemma commands_fields [simp]:
  "commands_of (ct\<lparr>ctLocalReqs := n\<rparr>) = commands_of ct" "commands_of (ct\<lparr>ctRelaySem := n\<rparr>) = commands_of ct"
  "commands_of (ct\<lparr>ctRelays := m1\<rparr>) = commands_of ct" "commands_of (ct\<lparr>ctBodyStreams := m2\<rparr>) = commands_of ct"
  "commands_of (ct\<lparr>ctRespCancels := m3\<rparr>) = commands_of ct" "commands_of (ct\<lparr>ctDone := d\<rparr>) = commands_of ct"
  "commands_of (ct\<lparr>ctRespCancels := m3, ctCancelObjs := c\<rparr>) = commands_of ct"
  by (simp_all add: commands_of_def)


lemma commands_pairs:
  "writeFrame w f ct = (ct1, ok) \<Longrightarrow> commands_of ct1 = commands_of ct"
  "openBody rid ct = (ct1, a) \<Longrightarrow> commands_of ct1 = commands_of ct"
  "openRelay rid ct = (ct1, a) \<Longrightarrow> commands_of ct1 = commands_of ct"
  using commands_upd(1) [of w f ct] commands_upd(11) [of rid ct] commands_upd(13) [of rid ct] by simp_all

lemma commands_task: "commands_of (fst (taskStep e t ct)) = commands_of ct"
proof (cases t)
  case (HttpNew f)
  have n: "commands_of (fst (handleNormalHTTPReq q w ne tid rid req ct)) = commands_of ct" for q w ne tid rid req ct
    by (auto simp: handleNormalHTTPReq_def Let_def dest: commands_pairs split: option.splits prod.splits)
  have ws: "commands_of (fst (handleWebSocketReq q w tid rid req ct)) = commands_of ct" for q w tid rid req ct
    by (auto simp: handleWebSocketReq_def Let_def split: option.splits)
  show ?thesis by (auto simp: HttpNew taskStep_def handleHTTPReq_def Let_def n ws split: sum.splits)
next
  case (TcpNew f)
  then show ?thesis by (auto simp: taskStep_def handleTCPOpen_def Let_def split: option.splits)
next
  case (HttpWait tid rid req lr)
  have s: "commands_of (fst (streamResponseBody q w tid rid up c hs pre ct)) = commands_of ct" for q w up c hs pre
    by (simp add: streamResponseBody_def takeCancel_def Let_def) (simp add: commands_of_def)
  show ?thesis by (auto simp: HttpWait taskStep_def localAnswered_def s Let_def split: localOutcome.splits sum.splits)
next
  case (HttpStream tid rid up cancel ph)
  then show ?thesis
    by (auto simp: taskStep_def streamPump_def Let_def dest: commands_pairs split: streamPhase.splits prod.splits)
next
  case (WsCall tid rid lr)
  then show ?thesis
    by (auto simp: taskStep_def wsAnswered_def Let_def dest: commands_pairs split: wsOutcome.splits prod.splits)
next
  case (WsUpgraded tid rid)
  then show ?thesis
    by (auto simp: taskStep_def wsRelay_def Let_def dest: commands_pairs split: prod.splits)
next
  case (TcpDial tid rid port)
  then show ?thesis
    by (auto simp: taskStep_def tcpDialed_def Let_def dest: commands_pairs split: prod.splits)
next
  case (RelayPump http tid rid a)
  then show ?thesis
    by (auto simp: taskStep_def relayPump_def Let_def dest: commands_pairs split: prod.splits)
qed (simp add: taskStep_def)


lemma commands_streams:
  "commands_of (clientStreamData ok f ct) = commands_of ct" "commands_of (clientStreamClose f ct) = commands_of ct"
  by (auto simp: clientStreamData_def clientStreamClose_def Let_def split: option.splits prod.splits)

lemma commands_Close: "commands_of (Close w ct) = commands_of ct"
proof -
  have "commands_of (fold (\<lambda>(rid, a) c. setRelay a ((ctRelayObjs c ! a)\<lparr>srDone := True, srOpen := False\<rparr>) c) rs c) = commands_of c"
    for rs :: "(u64, addr) gomap" and c by (induction rs arbitrary: c) auto
  then show ?thesis by (simp add: Close_def Let_def)
qed

section \<open>Result channels\<close>

text \<open>
  The channel of a command that the read loop has still to resolve is empty, so that sending the result
  never blocks the read loop; and no two commands ever wait on the same channel.
\<close>

definition pending_free :: "ClientTunnel \<Rightarrow> bool" where
  "pending_free ct \<longleftrightarrow>
     (\<forall>ch. ctAddCh ct = Some ch \<longrightarrow> ch < length (ctAddChans ct) \<and> ctAddChans ct ! ch = None) \<and>
     (\<forall>ch. ctDelCh ct = Some ch \<longrightarrow> ch < length (ctDelChans ct) \<and> ctDelChans ct ! ch = None)"

fun adding :: "ctlState \<Rightarrow> addr list" where
  "adding (CtlAdding ch) = [ch]"
| "adding _ = []"

fun deleting :: "ctlState \<Rightarrow> addr list" where
  "deleting (CtlDeleting ch port) = [ch]"
| "deleting _ = []"

definition sessions_ok :: "ClientTunnel \<Rightarrow> ctlState list \<Rightarrow> bool" where
  "sessions_ok ct ss \<longleftrightarrow>
     distinct (concat (map adding ss)) \<and> (\<forall>ch \<in> set (concat (map adding ss)). ch < length (ctAddChans ct)) \<and>
     distinct (concat (map deleting ss)) \<and> (\<forall>ch \<in> set (concat (map deleting ss)). ch < length (ctDelChans ct))"

lemma pending_cong: "commands_of ct' = commands_of ct \<Longrightarrow> pending_free ct' = pending_free ct"
  by (simp add: commands_of_def pending_free_def)

lemma sessions_mono:
  "length (ctAddChans ct) \<le> length (ctAddChans ct') \<Longrightarrow> length (ctDelChans ct) \<le> length (ctDelChans ct') \<Longrightarrow>
   sessions_ok ct ss \<Longrightarrow> sessions_ok ct' ss"
  unfolding sessions_ok_def by (meson less_le_trans)

lemma pending_add_response:
  "pending_free ct \<Longrightarrow> pending_free (fst (handleAddResponse f err ct)) \<and>
   length (ctAddChans (fst (handleAddResponse f err ct))) = length (ctAddChans ct) \<and>
   ctDelChans (fst (handleAddResponse f err ct)) = ctDelChans ct"
  by (auto simp: handleAddResponse_def pending_free_def putAdd_def setMapping_def Let_def
      split: option.splits sum.splits prod.splits)

lemma pending_del_response:
  "pending_free ct \<Longrightarrow> pending_free (handleDelResponse err ct) \<and>
   ctAddChans (handleDelResponse err ct) = ctAddChans ct \<and>
   length (ctDelChans (handleDelResponse err ct)) = length (ctDelChans ct)"
  by (auto simp: handleDelResponse_def pending_free_def removeMapping_def Let_def split: option.splits)

definition chans_grow :: "ClientTunnel \<Rightarrow> ClientTunnel \<Rightarrow> bool" where
  "chans_grow ct ct' \<longleftrightarrow> pending_free ct' \<and> length (ctAddChans ct) = length (ctAddChans ct') \<and>
     length (ctDelChans ct) = length (ctDelChans ct')"

lemma chans_grow_same: "commands_of ct' = commands_of ct \<Longrightarrow> pending_free ct \<Longrightarrow> chans_grow ct ct'"
  using pending_cong [of ct' ct] by (simp add: chans_grow_def commands_of_def)

lemma chans_grow_frame:
  assumes "pending_free (clTun cl)"
  shows "chans_grow (clTun cl) (clTun (clientFrame e f cl))"
  using pending_add_response [OF assms] pending_del_response [OF assms] assms
    chans_grow_same [OF commands_streams(1) assms] chans_grow_same [OF commands_streams(2) assms]
    chans_grow_same [OF _ assms, of "(clTun cl)\<lparr>ctDone := True\<rparr>"]
  by (simp add: clientFrame_def Let_def) (simp add: chans_grow_def)

lemma chans_grow_step:
  assumes "pending_free (clTun cl)"
  shows "chans_grow (clTun cl) (clTun (clientStep ev cl))"
  using assms
proof (induction ev cl rule: clientStep.induct)
  case (1 e msg cl)
  then show ?case using chans_grow_frame [of cl e] chans_grow_same [of "clTun cl" "clTun cl"]
    by (simp split: sum.split)
next
  case (2 e i cl)
  then show ?case using commands_task [of e "clTasks cl ! i" "clTun cl"]
    by (auto simp: chans_grow_same split: prod.splits)
next
  case (3 e cl)
  then show ?case by (simp add: chans_grow_same)
next
  case (4 e cl)
  then show ?case by (simp add: chans_grow_same commands_Close)
qed


section \<open>Commands\<close>

text \<open>A command that starts: it leaves the forwards alone and waits, if it does, on a new channel.\<close>

definition starts :: "ClientTunnel \<Rightarrow> ClientTunnel \<times> ctlState \<Rightarrow> bool" where
  "starts ct r \<longleftrightarrow> (case r of (ct', s) \<Rightarrow>
     pending_free ct' \<and> ctForwards ct' = ctForwards ct \<and>
     ctLocalReqs ct' = ctLocalReqs ct \<and> ctRelaySem ct' = ctRelaySem ct \<and>
     length (ctAddChans ct) \<le> length (ctAddChans ct') \<and> length (ctDelChans ct) \<le> length (ctDelChans ct') \<and>
     (\<forall>ch \<in> set (adding s). length (ctAddChans ct) \<le> ch \<and> ch < length (ctAddChans ct')) \<and>
     (\<forall>ch \<in> set (deleting s). length (ctDelChans ct) \<le> ch \<and> ch < length (ctDelChans ct')))"

lemma starts_stay [simp]: "starts ct (ct, CtlReply s) \<longleftrightarrow> pending_free ct"
  by (simp add: starts_def)

lemma addStart_ok: "pending_free ct \<Longrightarrow> addStart wok port sub ct = (ct', r) \<Longrightarrow>
    starts ct (ct', case r of Inl e \<Rightarrow> CtlReply s | Inr ch \<Rightarrow> CtlAdding ch)"
  by (auto simp: addStart_def starts_def pending_free_def writeFrame_def nth_append Let_def split: if_splits sum.splits)

lemma delStart_ok: "pending_free ct \<Longrightarrow> delStart wok port ct = (ct', r) \<Longrightarrow>
    starts ct (ct', case r of Inl e \<Rightarrow> CtlReply s | Inr ch \<Rightarrow> CtlDeleting ch port)"
  by (auto simp: delStart_def starts_def pending_free_def writeFrame_def nth_append Let_def split: if_splits option.splits)

lemma controlLine_starts: "pending_free ct \<Longrightarrow> starts ct (controlLine q werr wok txt ct)"
  by (cases "parseControl txt")
    (auto simp: controlLine_def dest: addStart_ok delStart_ok split: prod.splits sum.splits; force dest: addStart_ok delStart_ok)+

lemma trayCommand_starts: "pending_free ct \<Longrightarrow> trayCommand wok a ct = Some r \<Longrightarrow> starts ct r"
  by (cases a) (auto simp: trayCommand_def dest: addStart_ok delStart_ok split: prod.splits sum.splits)

lemma clear_keeps_empty: "xs ! j = None \<Longrightarrow> xs[i := None] ! j = None"
  by (cases "i < length xs") (auto simp: nth_list_update list_update_beyond not_less)

text \<open>A command that ends frees no other channel's result and leaves the forwards alone.\<close>

lemma controlDone_ok:
  assumes "pending_free ct" "controlDone q werr fired s ct = Some (ct', reply)"
  shows "chans_grow ct ct' \<and> ctForwards ct' = ctForwards ct \<and> ctLocalReqs ct' = ctLocalReqs ct \<and> ctRelaySem ct' = ctRelaySem ct"
proof (cases s)
  case (CtlReply t)
  then show ?thesis using assms by (simp add: controlDone_def chans_grow_def)
next
  case (CtlAdding ch)
  then show ?thesis using assms
    by (auto simp: controlDone_def addWait_def chans_grow_def pending_free_def clear_keeps_empty split: if_splits option.splits)
next
  case (CtlDeleting ch port)
  then show ?thesis using assms
    by (auto simp: controlDone_def delWait_def chans_grow_def pending_free_def clear_keeps_empty split: if_splits option.splits)
qed

section \<open>The invariant\<close>

definition fg_inv :: "foreground \<Rightarrow> bool" where
  "fg_inv fg \<longleftrightarrow>
     pending_free (fgTun fg) \<and> sessions_ok (fgTun fg) (fgSessions fg) \<and> slots_ok (fgClient fg) \<and>
     length (trSlots (fgTray fg)) = MaxTunnelsPerClient \<and> trTunnel (fgTray fg) = Some 0 \<and>
     (trReady (fgTray fg) \<longrightarrow> menu_shows (fgView fg) (fgTray fg))"

lemma sessions_add:
  assumes "sessions_ok ct ss" "starts ct (ct', s)"
  shows "sessions_ok ct' (ss @ [s])"
proof -
  have "sessions_ok ct' ss" using sessions_mono [of ct ct'] assms by (simp add: starts_def)
  moreover have "distinct (adding s)" "distinct (deleting s)" by (cases s; simp)+
  ultimately show ?thesis using assms by (fastforce simp: sessions_ok_def starts_def)
qed

lemma sessions_end:
  assumes "sessions_ok ct ss" "i < length ss"
  shows "sessions_ok ct (ss[i := CtlReply t])"
proof -
  have e: "ss[i := CtlReply t] = take i ss @ CtlReply t # drop (Suc i) ss" and
    s: "ss = take i ss @ ss ! i # drop (Suc i) ss"
    using assms(2) by (simp_all add: upd_conv_take_nth_drop id_take_nth_drop)
  have "sessions_ok ct (take i ss @ ss ! i # drop (Suc i) ss)" using assms(1) s by simp
  then show ?thesis unfolding e sessions_ok_def by auto
qed

lemma fg_inv_command:
  assumes "fg_inv fg" "starts (fgTun fg) r"
  shows "fg_inv (addSession r fg)"
proof -
  obtain ct s where r: "r = (ct, s)" by fastforce
  have "sessions_ok ct (fgSessions fg @ [s])"
    by (rule sessions_add [of "fgTun fg"]) (use assms r in \<open>simp_all add: fg_inv_def\<close>)
  then show ?thesis using assms r
    by (simp add: fg_inv_def addSession_def setTun_def fgTun_def fgView_def starts_def slots_ok_def)
qed

lemma fg_inv_step: "fg_inv fg \<Longrightarrow> fg_inv (fgStep ev fg)"
proof (induction ev fg rule: fgStep.induct)
  case (1 e ev fg)
  let ?cl = "clientStep (e, ev) (fgClient fg)"
  have g: "chans_grow (fgTun fg) (clTun ?cl)" using chans_grow_step 1 by (simp add: fg_inv_def fgTun_def)
  then have s: "sessions_ok (clTun ?cl) (fgSessions fg)"
    using 1 sessions_mono [of "fgTun fg" "clTun ?cl"] by (simp add: fg_inv_def chans_grow_def)
  have m: "trReady (fgTray fg) \<Longrightarrow> menu_shows v (Refresh v (fgTray fg))" for v
    using Refresh_shows 1 by (simp add: fg_inv_def)
  have sl: "slots_ok ?cl" using 1 slots_step by (simp add: fg_inv_def)
  show ?case
  proof (cases "ctForwards (clTun ?cl) = ctForwards (fgTun fg)")
    case True
    then show ?thesis using 1 g s sl by (simp add: fg_inv_def notifyChange_def fgTun_def fgView_def chans_grow_def)
  next
    case False
    then show ?thesis using 1 g s sl m by (simp add: fg_inv_def notifyChange_def fgTun_def fgView_def chans_grow_def)
  qed
next
  case (2 wok line fg)
  then show ?case using fg_inv_command controlLine_starts by (simp add: fg_inv_def)
next
  case (3 fired i fg)
  show ?case
  proof (cases "i < length (fgSessions fg)")
    case True
    show ?thesis
    proof (cases "controlDone (\<lambda>s. s) '''' fired (fgSessions fg ! i) (fgTun fg)")
      case (Some r)
      obtain ct reply where r: "r = (ct, reply)" by fastforce
      have d: "chans_grow (fgTun fg) ct \<and> ctForwards ct = ctForwards (fgTun fg) \<and>
          ctLocalReqs ct = ctLocalReqs (fgTun fg) \<and> ctRelaySem ct = ctRelaySem (fgTun fg)"
        using controlDone_ok 3 Some r by (simp add: fg_inv_def)
      have "sessions_ok ct ((fgSessions fg)[i := CtlReply reply])"
        using sessions_end [OF _ True] sessions_mono [of "fgTun fg" ct] d 3 by (simp add: fg_inv_def chans_grow_def)
      then show ?thesis using 3 True Some r d
        by (simp add: fg_inv_def setTun_def fgTun_def fgView_def chans_grow_def slots_ok_def)
    qed (use 3 True in simp)
  qed (use 3 in simp)
next
  case (4 fg)
  have "menu_shows (fgView fg) (menuSettled (fgView fg) (fgTray fg))"
    unfolding menuSettled_def by (rule Refresh_shows) (use 4 in \<open>simp_all add: fg_inv_def\<close>)
  then show ?case using 4
    by (simp add: fg_inv_def fgTun_def fgView_def) (simp add: menuSettled_def)
next
  case (5 wok c fg)
  then show ?case using fg_inv_command [of fg] trayCommand_starts
    by (simp add: fg_inv_def split: option.split)
qed

lemma fg_inv_run: "fg_inv fg \<Longrightarrow> fg_inv (fgRun evs fg)"
  unfolding fgRun_def by (induction evs arbitrary: fg) (simp_all add: fg_inv_step)


lemma fg_inv_start:
  assumes "ctAddCh ct = None" "ctDelCh ct = None" "ctLocalReqs ct = 0" "ctRelaySem ct = 0"
    and "length (trSlots tray) = MaxTunnelsPerClient"
  shows "fg_inv (startForeground tls ct dash tray)"
proof -
  have "menu_shows v (SetTunnel v t tray)" if "trReady tray" for v t
    unfolding SetTunnel_def by (rule Refresh_shows) (use that assms(5) in simp_all)
  moreover have "trReady (SetTunnel v t tray) = trReady tray" "trTunnel (SetTunnel v t tray) = t"
    "length (trSlots (SetTunnel v t tray)) = MaxTunnelsPerClient" for v t
    using assms(5) by (simp_all add: SetTunnel_def)
  ultimately show ?thesis
    using assms by (simp add: fg_inv_def startForeground_def fgTun_def fgView_def startClient_def pending_free_def
        sessions_ok_def slots_ok_def)
qed



section \<open>Replies and the commands they answer\<close>

text \<open>
  Responses to \<^verbatim>\<open>MsgRegister\<close> carry nothing of the request. When a command has timed out and another one
  has started, the late response to the first is taken for the answer to the second: the tunnel of the first
  is mapped to the port of the second, which is told the URL of the first.
\<close>

lemma late_reply_misattributed:
  assumes "addStart True port1 sub1 ct = (ct1, Inr ch1)" "addWait True ch1 ct1 = Some (ct2, r1)"
    and "addStart True port2 sub2 ct2 = (ct3, Inr ch2)" "DecodeRegisterOK (Payload g) = Inr (url1, tid1)"
  shows "r1 = Inl AddTimeout \<and>
    ctForwards (fst (handleAddResponse g None ct3)) = ctForwards ct @ [\<lparr>fwTunnelID = tid1, fwPort = port2, fwURL = url1\<rparr>] \<and>
    (\<exists>ct4. addWait False ch2 (fst (handleAddResponse g None ct3)) = Some (ct4, Inr url1))"
  using assms
  by (auto simp: addStart_def addWait_def writeFrame_def handleAddResponse_def putAdd_def setMapping_def Let_def
      split: if_splits sum.splits)

text \<open>A refresh of a menu that is up to date changes nothing.\<close>

lemma setSlot_idem: "setSlot p u c (setSlot p u c s) = setSlot p u c s" "clearSlot (clearSlot s) = clearSlot s"
  by (simp_all add: setSlot_def clearSlot_def)

lemma Refresh_idem: "Refresh v (Refresh v tr) = Refresh v tr"
proof (cases "trReady tr")
  case True
  have "trSlots (Refresh v (Refresh v tr)) = trSlots (Refresh v tr)"
    by (rule nth_equalityI) (use True in \<open>auto simp: Refresh_slot setSlot_idem split: option.splits prod.splits\<close>)
  moreover have "trStatus (Refresh v (Refresh v tr)) = trStatus (Refresh v tr)"
    "trStatusShown (Refresh v (Refresh v tr)) = trStatusShown (Refresh v tr)"
    "trAddEnabled (Refresh v (Refresh v tr)) = trAddEnabled (Refresh v tr)"
    using True by (auto simp: Refresh_def Let_def split: prod.splits)
  ultimately show ?thesis by simp
qed (simp add: Refresh_def)


text \<open>
  A timer may also fire after the read loop has taken the channel: the command gives up and clears the field,
  which by then may hold the channel of another command. The response to that one is then dropped.
\<close>

lemma late_timer_clears_other:
  assumes "ctAddCh ct = Some ch2" "addWait True ch1 ct = Some (ct', r)"
  shows "ctAddCh ct' = None \<and> handleAddResponse g None ct' = (ct', False)"
  using assms by (auto simp: addWait_def handleAddResponse_def Let_def)

end
