(* ===== verification/KeepAlive.thy ===== *)
theory KeepAlive
  imports Prelude
begin

text \<open>
  Keeping a connection alive: \<^verbatim>\<open>PingLoop\<close> of \<^verbatim>\<open>internal/protocol/protocol.go\<close>, which both ends run, and the
  read deadline that both ends extend with every message and every pong (\<^verbatim>\<open>Run\<close> in \<^verbatim>\<open>internal/server/handler.go\<close>
  and in \<^verbatim>\<open>internal/client/tunnel.go\<close>). Times are seconds.
\<close>

definition PongWait :: nat where "PongWait = 60"
definition PingPeriod :: nat where "PingPeriod = 30"

text \<open>One turn of the loop's \<^verbatim>\<open>select\<close>: the ticker, with whether the ping could be written, or \<^verbatim>\<open>done\<close>.\<close>

datatype pingTurn = Tick bool | DoneClosed

text \<open>The pings sent, and whether the loop has returned.\<close>

fun PingLoop :: "pingTurn list \<Rightarrow> nat \<times> bool" where
  "PingLoop [] = (0, False)"
| "PingLoop (Tick True # ts) = (case PingLoop ts of (n, ended) \<Rightarrow> (n + 1, ended))"
| "PingLoop (Tick False # ts) = (0, True)"
| "PingLoop (DoneClosed # ts) = (0, True)"

text \<open>
  When the read fails by its deadline: the deadline is set to \<^verbatim>\<open>PongWait\<close> from now at the times given, as long
  as it has not passed.
\<close>

fun readExpires :: "nat \<Rightarrow> nat list \<Rightarrow> nat" where
  "readExpires deadline [] = deadline"
| "readExpires deadline (now # later) = (if deadline < now then deadline else readExpires (now + PongWait) later)"

lemma PingLoop_iff:
  "PingLoop ts = (length (takeWhile (\<lambda>t. t = Tick True) ts), \<exists>t \<in> set ts. t \<noteq> Tick True)"
  by (induction ts rule: PingLoop.induct) simp_all

text \<open>
  A peer that answers each of the pings within half a minute is never dropped, however long the connection is
  idle otherwise; one that has gone silent is dropped a minute after its last sign of life.
\<close>

lemma answering_peer_is_kept:
  assumes "\<forall>k < length pongs. start + PingPeriod * (k + 1) \<le> pongs ! k \<and> pongs ! k \<le> start + PingPeriod * (k + 1) + (PongWait - PingPeriod)"
  shows "start + PingPeriod * length pongs + PongWait \<le> readExpires (start + PongWait) pongs"
proof -
  have "start + PingPeriod * length pongs + PongWait \<le> readExpires d pongs"
    if "start + PongWait \<le> d" for d
    using assms that
  proof (induction pongs arbitrary: start d)
    case (Cons p ps)
    have p: "start + 30 \<le> p" "p \<le> start + 60"
      using Cons.prems(1) [rule_format, of 0] by (simp_all add: PingPeriod_def PongWait_def)
    have "start + PingPeriod + PingPeriod * length ps + PongWait \<le> readExpires (p + PongWait) ps"
    proof (rule Cons.IH)
      show "\<forall>k < length ps. start + PingPeriod + PingPeriod * (k + 1) \<le> ps ! k \<and>
          ps ! k \<le> start + PingPeriod + PingPeriod * (k + 1) + (PongWait - PingPeriod)"
        using Cons.prems(1) [rule_format, of "Suc k" for k] by (simp add: algebra_simps)
    qed (use p in \<open>simp add: PingPeriod_def\<close>)
    then show ?case using p Cons.prems(2) by (simp add: PongWait_def algebra_simps)
  qed simp
  then show ?thesis by simp
qed

lemma silent_peer_is_dropped:
  assumes "\<forall>i < length ats. ats ! i \<le> (if i = 0 then deadline else ats ! (i - 1) + PongWait)" "ats \<noteq> []"
  shows "readExpires deadline ats = last ats + PongWait"
  using assms
proof (induction ats arbitrary: deadline)
  case (Cons t ts)
  have t: "t \<le> deadline" using Cons.prems(1) [rule_format, of 0] by simp
  show ?case
  proof (cases "ts = []")
    case False
    have "readExpires (t + PongWait) ts = last ts + PongWait"
    proof (rule Cons.IH [OF _ False], intro allI impI)
      fix i assume "i < length ts"
      then show "ts ! i \<le> (if i = 0 then t + PongWait else ts ! (i - 1) + PongWait)"
        using Cons.prems(1) [rule_format, of "Suc i"] by (cases i) simp_all
    qed
    then show ?thesis using t False by simp
  qed (use t in simp)
qed simp

end
