(* ===== verification/Versions.thy ===== *)
theory Versions
  imports SelfUpdate
begin

text \<open>
  Versions as a linear order, the abstraction behind \<^verbatim>\<open>newer\<close> in \<^verbatim>\<open>internal/selfupdate/selfupdate.go\<close>: a version
  is its numeric components without trailing zeros, since a missing component counts as 0, compared from the
  left. That the order is linear makes every chain of updates go up, so that an update is never undone by a
  later one.
\<close>

section \<open>Components\<close>

definition comp_at :: "nat list \<Rightarrow> nat \<Rightarrow> nat" where
  "comp_at ns i = (if i < length ns then ns ! i else 0)"

lemma comp_at_simps [simp]:
  "comp_at (n # ns) 0 = n" "comp_at (n # ns) (Suc i) = comp_at ns i"
  by (simp_all add: comp_at_def)

lemma comp_at_Nil: "comp_at [] i = 0"
  by (simp add: comp_at_def)

definition comp_less :: "(nat \<Rightarrow> nat) \<Rightarrow> (nat \<Rightarrow> nat) \<Rightarrow> bool" where
  "comp_less f g \<longleftrightarrow> (\<exists>i. f i < g i \<and> (\<forall>j < i. f j = g j))"

lemma ex_nat_split: "(\<exists>i. P i) \<longleftrightarrow> P 0 \<or> (\<exists>i. P (Suc i))"
  by (metis not0_implies_Suc)

lemma comp_less_Cons:
  "comp_less (comp_at (m # ms)) (comp_at (n # ns)) \<longleftrightarrow> m < n \<or> m = n \<and> comp_less (comp_at ms) (comp_at ns)"
  "comp_less (comp_at []) (comp_at (n # ns)) \<longleftrightarrow> 0 < n \<or> n = 0 \<and> comp_less (comp_at []) (comp_at ns)"
  "comp_less (comp_at (m # ms)) (comp_at []) \<longleftrightarrow> m = 0 \<and> comp_less (comp_at ms) (comp_at [])"
  unfolding comp_less_def by (subst ex_nat_split; auto simp: All_less_Suc2 comp_at_Nil)+

lemma version_less_comp: "version_less ms ns \<longleftrightarrow> comp_less (comp_at ms) (comp_at ns)"
proof (induction ms ns rule: version_less.induct)
  case (2 l ls)
  then show ?case by (auto simp: comp_less_Cons)
qed (auto simp: comp_less_Cons, simp_all add: comp_less_def)

lemma comp_less_trans: "comp_less f g \<Longrightarrow> comp_less g h \<Longrightarrow> comp_less f h"
proof -
  assume "comp_less f g" "comp_less g h"
  then obtain i k where i: "f i < g i" "\<And>j. j < i \<Longrightarrow> f j = g j" and k: "g k < h k" "\<And>j. j < k \<Longrightarrow> g j = h j"
    unfolding comp_less_def by blast
  have "f (min i k) < h (min i k)" using i k by (cases i k rule: linorder_cases) (auto simp: min_def)
  moreover have "f j = h j" if "j < min i k" for j using i(2) k(2) that by simp
  ultimately show ?thesis unfolding comp_less_def by blast
qed

lemma comp_less_total: "f \<noteq> g \<Longrightarrow> comp_less f g \<or> comp_less g f"
proof -
  assume "f \<noteq> g"
  then have ex: "\<exists>i. f i \<noteq> g i" by auto
  define i where "i = (LEAST i. f i \<noteq> g i)"
  have "f i \<noteq> g i" unfolding i_def using ex by (rule LeastI_ex)
  moreover have "f j = g j" if "j < i" for j using not_less_Least [of j "\<lambda>i. f i \<noteq> g i"] that by (simp add: i_def)
  ultimately show ?thesis unfolding comp_less_def by (metis linorder_neqE_nat)
qed

lemma comp_less_irrefl: "\<not> comp_less f f"
  by (simp add: comp_less_def)

section \<open>Versions\<close>

typedef version = "{ns :: nat list. ns = [] \<or> last ns \<noteq> 0}"
  morphisms components Abs_version by auto

setup_lifting type_definition_version

definition strip :: "nat list \<Rightarrow> nat list" where
  "strip ns = rev (dropWhile (\<lambda>n. n = 0) (rev ns))"

lemma strip_normal: "strip ns = [] \<or> last (strip ns) \<noteq> 0"
  using hd_dropWhile [of "\<lambda>n. n = 0" "rev ns"]
  by (cases "dropWhile (\<lambda>n. n = 0) (rev ns) = []") (simp_all add: strip_def last_rev)

lift_definition version_of :: "nat list \<Rightarrow> version" is strip
  by (rule strip_normal)

lemma comp_at_snoc: "comp_at (ns @ [n]) = (comp_at ns)(length ns := n)"
  by (rule ext) (simp add: comp_at_def nth_append)

lemma comp_at_strip [simp]: "comp_at (strip ns) = comp_at ns"
proof (induction ns rule: rev_induct)
  case (snoc n ns)
  show ?case
  proof (cases "n = 0")
    case True
    then have "strip (ns @ [n]) = strip ns" by (simp add: strip_def)
    moreover have "comp_at (ns @ [n]) = comp_at ns" using True by (auto simp: comp_at_snoc comp_at_def fun_eq_iff)
    ultimately show ?thesis using snoc by simp
  qed (simp add: strip_def)
qed (simp add: strip_def)

lemma normal_unique:
  assumes "ms = [] \<or> last ms \<noteq> 0" "ns = [] \<or> last ns \<noteq> 0" "comp_at ms = comp_at ns"
  shows "ms = ns"
proof -
  have le: "length xs \<le> length ys" if "xs = [] \<or> last xs \<noteq> 0" "comp_at xs = comp_at ys" for xs ys :: "nat list"
  proof (rule ccontr)
    assume a: "\<not> length xs \<le> length ys"
    then have "xs \<noteq> []" "length xs - 1 < length xs" "\<not> length xs - 1 < length ys" by (cases xs; simp)+
    then have "last xs = comp_at ys (length xs - 1)" using that(2) by (metis comp_at_def last_conv_nth)
    then show False using that(1) \<open>xs \<noteq> []\<close> \<open>\<not> length xs - 1 < length ys\<close> by (simp add: comp_at_def)
  qed
  have len: "length ms = length ns" using le [OF assms(1,3)] le [OF assms(2) assms(3)[symmetric]] by simp
  have "ms ! i = ns ! i" if "i < length ms" for i
    using fun_cong [OF assms(3), of i] that len by (simp add: comp_at_def)
  then show ?thesis by (intro nth_equalityI len)
qed

instantiation version :: linorder
begin

definition less_version :: "version \<Rightarrow> version \<Rightarrow> bool" where
  "less_version v w \<longleftrightarrow> version_less (components v) (components w)"

definition less_eq_version :: "version \<Rightarrow> version \<Rightarrow> bool" where
  "less_eq_version v w \<longleftrightarrow> v = w \<or> version_less (components v) (components w)"

instance
proof
  fix x y z :: version
  have eq: "x = y" if "comp_at (components x) = comp_at (components y)"
    using normal_unique [OF _ _ that] components [of x] components [of y] by (auto simp: components_inject)
  show "(x < y) = (x \<le> y \<and> \<not> y \<le> x)"
    unfolding less_version_def less_eq_version_def version_less_comp using comp_less_trans comp_less_irrefl by blast
  show "x \<le> x" by (simp add: less_eq_version_def)
  show "x \<le> z" if "x \<le> y" "y \<le> z"
    using that comp_less_trans unfolding less_eq_version_def version_less_comp by blast
  show "x = y" if "x \<le> y" "y \<le> x"
    using that comp_less_trans comp_less_irrefl unfolding less_eq_version_def version_less_comp by blast
  show "x \<le> y \<or> y \<le> x"
    using eq comp_less_total unfolding less_eq_version_def version_less_comp by blast
qed

end

lemma version_of_less: "version_of ms < version_of ns \<longleftrightarrow> version_less ms ns"
  by (simp add: less_version_def version_less_comp version_of.rep_eq)

lemma version_of_eq: "version_of ms = version_of ns \<longleftrightarrow> comp_at ms = comp_at ns"
  by (metis comp_at_strip normal_unique strip_normal version_of.rep_eq components_inject)

section \<open>Chains of updates\<close>

text \<open>A release tag: an optional \<open>v\<close> before its components.\<close>

type_synonym release = "bool \<times> (nat \<times> string) list"

definition release_text :: "release \<Rightarrow> string" where
  "release_text r = (if fst r then ''v'' else '''') @ version_text (snd r)"

definition release_ok :: "release \<Rightarrow> bool" where
  "release_ok r \<longleftrightarrow> snd r \<noteq> [] \<and> list_all component_ok (snd r)"

definition release_version :: "release \<Rightarrow> version" where
  "release_version r = version_of (map fst (snd r))"

lemma newer_release:
  assumes "release_ok a" "release_ok b"
  shows "newer (release_text a) (release_text b) \<longleftrightarrow> release_version a < release_version b"
  using assms newer_is_version_order [of "snd a" "snd b" "if fst a then ''v'' else ''''" "if fst b then ''v'' else ''''"]
  by (simp add: release_ok_def release_text_def release_version_def version_of_less)

text \<open>
  C38. The decision to update is a linear order: for release tags of numeric components, each with an optional
  suffix, and an optional leading \<open>v\<close>, one counts as newer than another exactly when its version is greater in
  the linear order of versions; two tags of which neither is newer are the same version. So in a chain of
  updates each release is newer than all before it, and none of those is newer than it: an installation never
  goes back and never cycles.
\<close>

theorem updates_never_go_back:
  assumes "list_all release_ok rs"
  shows "(\<forall>a \<in> set rs. \<forall>b \<in> set rs.
      (newer (release_text a) (release_text b) \<longleftrightarrow> release_version a < release_version b) \<and>
      (\<not> newer (release_text a) (release_text b) \<and> \<not> newer (release_text b) (release_text a) \<longleftrightarrow>
         release_version a = release_version b)) \<and>
    (successively (\<lambda>a b. newer (release_text a) (release_text b)) rs \<longrightarrow>
      sorted_wrt (\<lambda>a b. newer (release_text a) (release_text b) \<and> \<not> newer (release_text b) (release_text a)) rs)"
proof -
  have n: "newer (release_text a) (release_text b) \<longleftrightarrow> release_version a < release_version b"
    if "a \<in> set rs" "b \<in> set rs" for a b
    using that assms newer_release by (simp add: list_all_iff)
  have "sorted_wrt (\<lambda>a b. newer (release_text a) (release_text b) \<and> \<not> newer (release_text b) (release_text a)) rs"
    if "successively (\<lambda>a b. newer (release_text a) (release_text b)) rs"
  proof -
    have "successively (\<lambda>a b. release_version a < release_version b) rs"
      using that by (rule successively_mono) (simp add: n)
    then have "sorted_wrt (\<lambda>a b. release_version a < release_version b) rs"
      by (subst (asm) successively_iff_sorted_wrt_strong) auto
    then show ?thesis by (rule sorted_wrt_mono_rel [rotated]) (auto simp: n)
  qed
  then show ?thesis using n by auto
qed

theorem updates_never_go_back_witness:
  "let rs = [(False, [(1, ''''), (9, '''')]), (True, [(1, ''''), (10, ''-rc1'')]), (True, [(2, '''')])] in
   list_all release_ok rs \<and>
   sorted_wrt (\<lambda>a b. newer (release_text a) (release_text b) \<and> \<not> newer (release_text b) (release_text a)) rs"
proof -
  let ?rs = "[(False, [(1, ''''), (9, '''')]), (True, [(1, ''''), (10, ''-rc1'')]), (True, [(2, '''')])] :: release list"
  have ok: "list_all release_ok ?rs" by (simp add: release_ok_def component_ok_def is_digit_def)
  note u = updates_never_go_back [OF ok]
  have "successively (\<lambda>a b. newer (release_text a) (release_text b)) ?rs"
    using u by (simp add: release_version_def version_of_less)
  then show ?thesis using u ok unfolding Let_def by blast
qed

end
