(* ===== verification/Spec2Isabelle.thy ===== *)
theory Spec2Isabelle
  imports EndToEnd Streams Manage Sni Launch Signing Foreground KeepAlive Versions
begin

text \<open>
  Verification of vlgr, a tunnel that gives local services public addresses. A client keeps one WebSocket
  connection to a server and registers forwards over it; the server takes public HTTP requests, raw TCP
  connections and TLS connections and sends them as frames through the connection of the client that holds
  the subdomain or port; the client hands them to the service on its local port and sends the answers back.

  \<^bold>\<open>The program's parts and their theories.\<close>

  \<^item> Shared. \<^theory_text>\<open>Prelude\<close>: words of Go's widths, byte strings, errors as sums, checked slices, Go maps as
    association lists (locale \<open>go_map\<close>). \<^theory_text>\<open>GoStrings\<close>, \<^theory_text>\<open>GoNet\<close>: what the code uses of \<^verbatim>\<open>strings\<close>,
    \<^verbatim>\<open>strconv\<close>, \<^verbatim>\<open>fmt\<close>, \<^verbatim>\<open>net\<close> and \<^verbatim>\<open>net/netip\<close>. \<^theory_text>\<open>Ownership\<close>: clients that hold names of a shared pool
    (locale \<open>name_pool\<close>).
  \<^item> Wire format. \<^theory_text>\<open>Protocol\<close>: \<^verbatim>\<open>internal/protocol/protocol.go\<close>. Every encoder and decoder, with Go's bounds
    checks as error values (locales \<open>wire_codec\<close>, \<open>strict_codec\<close>, one interpretation for each message kind).
    \<^theory_text>\<open>KeepAlive\<close>: pings and read deadlines.
  \<^item> Server. \<^theory_text>\<open>PortAlloc\<close>: \<^verbatim>\<open>internal/server/tcp.go\<close> (locale \<open>port_pool\<close>). \<^theory_text>\<open>Registry\<close>: \<^verbatim>\<open>registry.go\<close> and the
    naming rules. \<^theory_text>\<open>Handler\<close>, \<^theory_text>\<open>Session\<close>, \<^theory_text>\<open>Forward\<close>, \<^theory_text>\<open>Relay\<close>: \<^verbatim>\<open>handler.go\<close>, the frame handlers, whole
    sessions, a request sent through a tunnel, and a raw connection. \<^theory_text>\<open>Server\<close>: all connections of a server over
    its shared state. \<^theory_text>\<open>Protect\<close>: \<^verbatim>\<open>protect.go\<close>. \<^theory_text>\<open>Admin\<close>: \<^verbatim>\<open>admin.go\<close>. \<^theory_text>\<open>Proxy\<close>, \<^theory_text>\<open>ProxyFlow\<close>: \<^verbatim>\<open>proxy.go\<close>, the
    functions and then the life of one request. \<^theory_text>\<open>Sni\<close>: \<^verbatim>\<open>sni.go\<close> and \<^verbatim>\<open>tlspass.go\<close>. \<^theory_text>\<open>Ssh\<close>:
    \<^verbatim>\<open>internal/sshtun/server.go\<close>. \<^theory_text>\<open>Startup\<close>: \<^verbatim>\<open>cmd/server/main.go\<close>.
  \<^item> Client. \<^theory_text>\<open>Client\<close>, \<^theory_text>\<open>ClientFlow\<close>, \<^theory_text>\<open>Streams\<close>: \<^verbatim>\<open>internal/client/tunnel.go\<close>, the table of forwards and
    \<^verbatim>\<open>Connect\<close>, then the traffic, then streamed bodies. \<^theory_text>\<open>Control\<close>: the control socket, both ends. \<^theory_text>\<open>Dashboard\<close>,
    \<^theory_text>\<open>Inspector\<close>: \<^verbatim>\<open>dashboard.go\<close>. \<^theory_text>\<open>Tray\<close>: \<^verbatim>\<open>tray.go\<close>. \<^theory_text>\<open>Flags\<close>, \<^theory_text>\<open>RunLoop\<close>: \<^verbatim>\<open>cmd/client/main.go\<close> (\<^theory_text>\<open>Flags\<close> also
    has the server's values). \<^theory_text>\<open>Foreground\<close>: a running client with control connections and tray.
    \<^theory_text>\<open>Launch\<close>: the client's process from its flags to its end, and the SSH server's host key.
  \<^item> Releases. \<^theory_text>\<open>SelfUpdate\<close>: \<^verbatim>\<open>internal/selfupdate/selfupdate.go\<close>, with versions as a linear order in
    \<^theory_text>\<open>Versions\<close>. \<^theory_text>\<open>Signing\<close>: \<^verbatim>\<open>scripts/sign/main.go\<close>.
  \<^item> Both ends together. \<^theory_text>\<open>Link\<close>: \<^verbatim>\<open>Connect\<close> against the server's handler. \<^theory_text>\<open>Manage\<close>: \<^verbatim>\<open>ADD\<close> and \<^verbatim>\<open>DEL\<close> from the
    control socket to the server and back. \<^theory_text>\<open>EndToEnd\<close> and this theory: one request from visitor to local
    service and back.

  \<^bold>\<open>How state and operations correspond.\<close> A struct of the code is a record with its fields, a method a function on
  that record that returns it updated, and functions keep their names where they are free. What several objects
  share is a record of its own (\<open>Shared\<close> for the handlers of one server). Objects shared by pointer live in a list
  or map and are named by index or key. A channel is the list of its buffered elements, a channel that only signals
  is a truth value, and the nil channel is \<^const>\<open>None\<close>. A critical section is one step. A goroutine is a value
  saying where it waits (\<open>task\<close>, \<open>serving\<close>, \<open>relay\<close>), and a machine is its step function or step relation with the
  events in a list, so that a statement about all lists is one about all interleavings. Every failure is a value:
  a sum, an option, or a truth value for a write. A fatal error of a command is the error value of its function.

  \<^bold>\<open>What the lemmas show.\<close>

  \<^item> Wire format: decoding inverts encoding and accepts nothing else, and no decoder panics, for any input.
  \<^item> Server state: in every state reachable by any number of connections, names and ports are held by exactly one
    open connection or by none, limits hold and counters are exact. The proofs go through \<open>name_pool\<close> and the
    contract \<open>res_step\<close> that every frame handler meets. The registry refines a first-come-first-served map.
  \<^item> Public side: which tunnel a request, TLS connection or port reaches, who is let in, what is sent to the tunnel
    and what the visitor gets; streamed bodies, WebSocket and raw relays deliver bytes in order and without gaps
    or duplicates; every error path of a forward cleans up.
  \<^item> Client: its table agrees with the server after \<^verbatim>\<open>Connect\<close>, \<^verbatim>\<open>ADD\<close> and \<^verbatim>\<open>DEL\<close>; every request is answered once
    and slots are never lost; the inspector shows the latest exchanges and replays them; the control protocol
    round-trips; menu, commands and traffic stay consistent in any order; the process ends only
    when asked to and never misses it, and its loop equals a reference over its rounds.
  \<^item> Start-up and updates: the server starts exactly with valid flags and free addresses; only a newer and
    verified download is ever run, updates never go back, and what the release helper signs is such a download.
  \<^item> Behaviour one might not expect has its lemma too, for instance \<open>early_chunk_is_dropped\<close>,
    \<open>late_reply_misattributed\<close>, \<open>late_timer_clears_other\<close>, \<open>half_close_loses_answer\<close>, \<open>port_is_truncated\<close>,
    \<open>restart_may_be_lost\<close>, \<open>row_remove_takes_first\<close>, \<open>any_scheme_accepted\<close>.

  \<^bold>\<open>Bounds and assumptions.\<close> Integers have the widths of the code: ports are 16-bit, lengths and SSH ports 32-bit,
  IDs 64-bit words. Limits (frame and body sizes, 100 local requests, 200 relays, 128 KiB captured bodies, tunnels
  per client) are the code's constants. No definition takes fuel: recursion is structural or has a measure, and
  loops that wait run over the list of events, so that a wait nothing ends stays pending or is \<^const>\<open>None\<close>. Random
  tunnel IDs are assumed fresh within a connection where a statement says so. Host names whose URL would exceed the
  255 bytes of its field are refused or excluded by a premise. A closed connection delivers no further frames. The
  arguments of the model are the dialled peer, the local service, the outcome of writes, listens and file
  operations, clocks and random bytes, the choice of a \<^verbatim>\<open>select\<close> with several ready cases, SHA-256, ed25519, the SSH
  message format, JSON encoding, and the texts of library errors; nothing is assumed of them but what a theorem
  states as its premise.

  \<^bold>\<open>Not modelled.\<close> Platform dialogs and browser calls of the tray and its stub for other platforms, the icon, the
  HTML of the inspector page, the texts of \<^verbatim>\<open>--version\<close> and \<^verbatim>\<open>--help\<close>, log lines and the debug previews of frames:
  texts and calls that decide nothing. Permission bits, accept loops of listeners and the registration of signal
  handlers: calls of the standard library without a decision of the program's own. A
  self-update that ends the client's process is modelled for the server's process only.
\<close>

section \<open>One exchange through both ends\<close>

text \<open>
  C1. End to end: the server puts a public request on the wire, the frame reaches the client, and
  whatever else the client does in between, the goroutine that serves it asks the local service on the
  port mapped to the tunnel for that request (method, path, body and copied headers), sends one answer
  frame, and once that frame has reached the server the visitor has been sent exactly the local
  service's status, headers and body, under every interleaving of the server's own steps.
\<close>

theorem visitor_sees_local_answer:
  assumes "hAuthenticated h" "hHasConn h" "request_fits req" "EncodeHTTPRequest req = Inr payload"
    and "length payload \<le> MaxFrameSize" "\<not> IsWebSocketUpgradeReq req" "\<not> reqBodyStreamed req"
    and "serveStart True t req body h = (h1, sg1)"
    and "clRunning cl" "i = length (clTasks cl)" "list_all (spares i) evs1" "list_all (spares i) evs2"
    and "cl1 = clientRun ((e1, Msg (last (hOut h1))) # evs1) cl" "ctLocalReqs (clTun cl1) < 100"
    and "portFor (clTun cl1) (tunID t) = Some port" "ceNewReqErr e2 = None"
    and "cl2 = clientRun ((e2, Go i) # evs2) cl1"
    and "ceLocal e3 = LocalAnswer status hs (Inr answer)" "length answer \<le> InlineBodyLimit" "ceWok e3"
    and "resp = \<lparr>respStatusCode = of_nat status, respHeaders = hs, respBody = answer, respBodyStreamed = False\<rparr>"
    and "response_fits resp" "EncodeHTTPResponse resp = Inr p" "length p \<le> MaxFrameSize"
    and "DecodeFrame (last (ctOut (clTun (clientStep (e3, Go i) cl2)))) = Inr g"
    and "\<forall>ev \<in> set pre. quiet (hRequestIDSeq h + 1) ev" "\<forall>ev \<in> set mid. not_taken ev"
    and "serve cf True t req body (pre @ Arrives e g # mid @ Response wc # post) (sh, h) = (sh', h', sg)"
  shows "clTasks cl2 ! i = HttpWait (tunID t) (hRequestIDSeq h + 1) req
      (localRequest (reqMethod req) port (reqPath req) (reqHeaders req) (reqBody req)) \<and>
    sgPhase sg = Finished \<and> sgW sg = writeNormalResponse resp new_writer"
proof -
  let ?f = "\<lparr>ftype = MsgHTTPReq, TunnelID = tunID t, RequestID = hRequestIDSeq h + 1, Payload = payload\<rparr>"
  have "last (hOut h1) = EncodeFrame ?f"
    using serveStart_waiting [OF assms(1,2,4,5), of t body] assms(8) by (metis last_snoc prod.inject)
  then have cl1: "cl1 = clientRun ((e1, Msg (EncodeFrame ?f)) # evs1) cl" using assms(13) by simp
  have f: "length (Payload ?f) \<le> MaxFrameSize" "ftype ?f = MsgHTTPReq" "DecodeHTTPRequest (Payload ?f) = Inr req"
    using assms(5) reqC.decode_enc [OF assms(3,4)] by simp_all
  have port: "portFor (clTun cl1) (TunnelID ?f) = Some port" using assms(15) by simp
  from client_exchange [OF assms(9) f assms(6,7,10-12) cl1 assms(14) port assms(16-20) assms(23) [unfolded assms(21)] assms(24)]
  have x: "clTasks cl2 ! i = HttpWait (tunID t) (hRequestIDSeq h + 1) req
      (localRequest (reqMethod req) port (reqPath req) (reqHeaders req) (reqBody req))"
    "last (ctOut (clTun (clientStep (e3, Go i) cl2))) =
      EncodeFrame \<lparr>ftype = MsgHTTPRes, TunnelID = tunID t, RequestID = hRequestIDSeq h + 1, Payload = p\<rparr>"
    by simp_all
  have g: "g = \<lparr>ftype = MsgHTTPRes, TunnelID = tunID t, RequestID = hRequestIDSeq h + 1, Payload = p\<rparr>"
    using assms(25) Decode_Encode [of "\<lparr>ftype = MsgHTTPRes, TunnelID = tunID t, RequestID = hRequestIDSeq h + 1, Payload = p\<rparr>"]
      assms(24) x(2) by simp
  have "sgPhase sg = Finished \<and> sgW sg = writeNormalResponse resp new_writer"
    using serve_answered [OF assms(1,2,4,5,26) _ _ _ _ assms(27,28)] g respC.decode_enc [OF assms(22,23)] assms(21) by simp
  with x(1) show ?thesis by simp
qed


definition sample_answer :: HTTPResponse where
  "sample_answer = \<lparr>respStatusCode = of_nat 200, respHeaders = [], respBody = [7], respBodyStreamed = False\<rparr>"

theorem visitor_sees_local_answer_witness:
  "\<exists>h1 sg1 cl2 g sh' h' sg. serveStart True sample_tunnel sample_req [] sample_client = (h1, sg1) \<and>
     cl2 = clientRun [(sample_cenv, Msg (last (hOut h1))), (sample_cenv, Go 0)] (startClient sample_client_tunnel None) \<and>
     DecodeFrame (last (ctOut (clTun (clientStep (sample_cenv, Go 0) cl2)))) = Inr g \<and>
     serve sample_config True sample_tunnel sample_req [] ([] @ Arrives sample_env g # [] @ Response True # [])
       (sample_shared, sample_client) = (sh', h', sg) \<and>
     clTasks cl2 ! 0 = HttpWait 7 (hRequestIDSeq sample_client + 1) sample_req (localRequest ''G'' 8080 ''/'' [] []) \<and>
     sgW sg = writeNormalResponse sample_answer new_writer"
proof -
  let ?pl = "[0, 1, 71, 0, 1, 47, 0, 0, 0, 0, 0, 0, 0, 0] :: bytes" and ?rid = "hRequestIDSeq sample_client + 1"
  let ?f = "\<lparr>ftype = MsgHTTPReq, TunnelID = 7, RequestID = ?rid, Payload = ?pl\<rparr>"
  have srv: "hAuthenticated sample_client" "hHasConn sample_client" by (simp_all add: sample_client_def NewClientHandler_def)
  have small: "length ?pl \<le> MaxFrameSize" by (simp add: MaxFrameSize_def MaxBodySize_def)
  have tid: "tunID sample_tunnel = 7" by (simp add: sample_tunnel_def)
  have fits: "request_fits sample_req" using reqC.decode_dom sample_req_dec by blast
  have req: "\<not> IsWebSocketUpgradeReq sample_req" "\<not> reqBodyStreamed sample_req"
    by (simp_all add: sample_req_def IsWebSocketUpgradeReq_def)
  obtain h1 sg1 where st: "serveStart True sample_tunnel sample_req [] sample_client = (h1, sg1)"
    and out: "last (hOut h1) = EncodeFrame ?f"
    using serveStart_waiting [OF srv sample_req_enc small, of sample_tunnel "[]"] tid by (metis last_snoc)
  define cl1 where "cl1 = clientRun ((sample_cenv, Msg (last (hOut h1))) # []) (startClient sample_client_tunnel None)"
  define cl2 where "cl2 = clientRun ((sample_cenv, Go 0) # []) cl1"
  have run: "clRunning (startClient sample_client_tunnel None)" "0 = length (clTasks (startClient sample_client_tunnel None))"
    by (simp_all add: startClient_def)
  have fr: "length (Payload ?f) \<le> MaxFrameSize" "ftype ?f = MsgHTTPReq" "DecodeHTTPRequest (Payload ?f) = Inr sample_req"
    using small sample_req_dec by simp_all
  have tun: "clTun cl1 = sample_client_tunnel"
    using client_receives [OF run(1) fr(1,2), of sample_cenv] by (simp add: cl1_def out clientRun_def startClient_def)
  have slots: "ctLocalReqs (clTun cl1) < 100" and port: "portFor (clTun cl1) (tunID sample_tunnel) = Some 8080"
    by (simp_all add: tun sample_client_tunnel_def setMapping_def NewTunnel_def portFor_def sample_tunnel_def)
  have env: "ceNewReqErr sample_cenv = None" "ceLocal sample_cenv = LocalAnswer 200 [] (Inr [7])"
    "length [7 :: u8] \<le> InlineBodyLimit" "ceWok sample_cenv"
    by (simp_all add: sample_cenv_def limit_defs)
  have rf: "response_fits sample_answer"
    by (simp add: response_fits_def headers_fit_def body_fits_def sample_answer_def limit_defs)
  have enc: "EncodeHTTPResponse sample_answer = Inr [0, 200, 0, 0, 0, 0, 0, 0, 0, 1, 7]"
    by (simp add: EncodeHTTPResponse_def sample_answer_def writeHeaders_def writeBody_def limit_defs put_be_def)
  have small': "length [0, 200, 0, 0, 0, 0, 0, 0, 0, 1, 7 :: u8] \<le> MaxFrameSize" by (simp add: MaxFrameSize_def MaxBodySize_def)
  have none: "list_all (spares 0) []" by simp
  have cl1': "cl1 = clientRun ((sample_cenv, Msg (EncodeFrame ?f)) # []) (startClient sample_client_tunnel None)"
    by (simp add: cl1_def out)
  have port': "portFor (clTun cl1) (TunnelID ?f) = Some 8080" using port by (simp add: sample_tunnel_def)
  obtain g where g: "DecodeFrame (last (ctOut (clTun (clientStep (sample_cenv, Go 0) cl2)))) = Inr g"
    using client_exchange [OF run(1) fr req run(2) none none cl1' slots port' env(1) cl2_def env(2-4)
        enc [unfolded sample_answer_def] small'] small' Decode_Encode
    by auto
  have ev: "\<forall>ev \<in> set []. quiet ?rid ev" "\<forall>ev \<in> set []. not_taken ev" by simp_all
  obtain sh' h' sg where s: "serve sample_config True sample_tunnel sample_req []
      ([] @ Arrives sample_env g # [] @ Response True # []) (sample_shared, sample_client) = (sh', h', sg)"
    by (metis prod_cases3)
  from visitor_sees_local_answer [OF srv fits sample_req_enc small req st run none none cl1_def slots port env(1)
      cl2_def env(2-4) sample_answer_def rf enc small' g ev s]
  have "clTasks cl2 ! 0 = HttpWait 7 ?rid sample_req (localRequest ''G'' 8080 ''/'' [] []) \<and>
      sgW sg = writeNormalResponse sample_answer new_writer"
    by (simp add: sample_tunnel_def sample_req_def)
  with st g s show ?thesis
    by (intro exI [of _ h1] exI [of _ sg1] exI [of _ cl2] exI [of _ g] exI [of _ sh'] exI [of _ h'] exI [of _ sg])
      (simp add: cl1_def cl2_def clientRun_def)
qed

end
